(* ===== verification/Prelude.thy ===== *)
theory Prelude
  imports Main "HOL-Library.Word"
begin

text \<open>
  Shared vocabulary of the development: machine integers and byte strings,
  little-endian encodings, slices and in-place buffer writes, the
  \<open>Result\<close> type of the Rust sources, and a \<open>BTreeMap\<close> as an association list
  that is strictly sorted by key.  Everything here is about the language and its
  standard library; nothing here is about AbixIO itself.
\<close>

section \<open>Types\<close>

type_synonym u8 = "8 word"
type_synonym u16 = "16 word"
type_synonym u32 = "32 word"
type_synonym u64 = "64 word"
type_synonym bytes = "u8 list"

text \<open>Collections of facts the component proofs share.\<close>

named_theorems codec_simps \<open>lengths and round trips of encoders and decoders\<close>
named_theorems bt_simps \<open>lookups in ordered maps\<close>
named_theorems slice_simps \<open>slices of concatenations and of updated buffers\<close>

section \<open>Results\<close>

text \<open>Rust's \<open>Result<T, E>\<close> is \<open>'e + 'a\<close>; \<open>res_bind\<close> is the \<open>?\<close> operator.\<close>

definition res_bind :: "'e + 'a \<Rightarrow> ('a \<Rightarrow> 'e + 'b) \<Rightarrow> 'e + 'b" where
  "res_bind r f = (case r of Inl e \<Rightarrow> Inl e | Inr x \<Rightarrow> f x)"

lemma res_bind_simps [simp]:
  "res_bind (Inl e) f = Inl e"
  "res_bind (Inr x) f = f x"
  by (simp_all add: res_bind_def)

lemma res_bind_Inr_iff: "res_bind r f = Inr y \<longleftrightarrow> (\<exists>x. r = Inr x \<and> f x = Inr y)"
  by (cases r) auto

lemma res_bind_Inl_iff: "res_bind r f = Inl e \<longleftrightarrow> r = Inl e \<or> (\<exists>x. r = Inr x \<and> f x = Inl e)"
  by (cases r) auto

text \<open>The same for code that also changes a state: an error stops it and keeps the changes so far.\<close>

definition then_do :: "('e + 'a) \<times> 's \<Rightarrow> ('a \<Rightarrow> 's \<Rightarrow> ('e + 'b) \<times> 's) \<Rightarrow> ('e + 'b) \<times> 's" where
  "then_do r f = (case r of (Inl e, s) \<Rightarrow> (Inl e, s) | (Inr x, s) \<Rightarrow> f x s)"

lemma then_do_simps [simp]:
  "then_do (Inl e, s) f = (Inl e, s)"
  "then_do (Inr x, s) f = f x s"
  by (simp_all add: then_do_def)

lemma then_do_Inr_iff: "then_do r f = (Inr y, s') \<longleftrightarrow> (\<exists>x s. r = (Inr x, s) \<and> f x s = (Inr y, s'))"
  by (auto simp: then_do_def split: prod.splits sum.splits)

section \<open>Bounded search\<close>

lemma ex_le_Suc_iff: "(\<exists>i \<le> Suc n. P i) \<longleftrightarrow> P 0 \<or> (\<exists>i \<le> n. P (Suc i))"
  by (metis Suc_le_mono le0 not0_implies_Suc)

lemma ex_shift_iff:
  fixes a n :: nat
  assumes "a \<le> n"
  shows "(\<exists>k. a \<le> k \<and> k \<le> n \<and> P k) \<longleftrightarrow> (\<exists>i \<le> n - a. P (i + a))"
proof
  assume "\<exists>k. a \<le> k \<and> k \<le> n \<and> P k"
  then obtain k where "a \<le> k" "k \<le> n" "P k" by blast
  then show "\<exists>i \<le> n - a. P (i + a)" by (intro exI [of _ "k - a"]) simp
next
  assume "\<exists>i \<le> n - a. P (i + a)"
  then obtain i where "i \<le> n - a" "P (i + a)" by blast
  with assms show "\<exists>k. a \<le> k \<and> k \<le> n \<and> P k" by (intro exI [of _ "i + a"]) simp
qed

section \<open>Little-endian integers\<close>

text \<open>
  \<open>to_le n x\<close> is the low \<open>n\<close> bytes of \<open>x\<close>, least significant first: what
  \<open>(x as uN).to_le_bytes()\<close> yields, including the truncation of the cast.
\<close>

fun to_le :: "nat \<Rightarrow> nat \<Rightarrow> bytes" where
  "to_le 0 x = []"
| "to_le (Suc n) x = word_of_nat (x mod 256) # to_le n (x div 256)"

fun from_le :: "bytes \<Rightarrow> nat" where
  "from_le [] = 0"
| "from_le (b # bs) = unat b + 256 * from_le bs"

lemma length_to_le [simp]: "length (to_le n x) = n"
  by (induction n arbitrary: x) auto

lemma to_le_numeral: "to_le (numeral k) x = word_of_nat (x mod 256) # to_le (pred_numeral k) (x div 256)"
  by (simp only: numeral_eq_Suc [of k] to_le.simps)

lemma from_le_to_le_mod [codec_simps]: "from_le (to_le n x) = x mod 256 ^ n"
proof (induction n arbitrary: x)
  case 0
  then show ?case by simp
next
  case (Suc n)
  have "x mod 256 ^ Suc n = x mod 256 + 256 * (x div 256 mod 256 ^ n)"
    by (simp add: mod_mult2_eq)
  then show ?case
    by (simp add: Suc.IH unat_of_nat)
qed

lemma from_le_to_le: "x < 256 ^ n \<Longrightarrow> from_le (to_le n x) = x"
  by (simp add: codec_simps)

lemma from_le_bound: "from_le bs < 256 ^ length bs"
proof (induction bs)
  case (Cons b bs)
  have "unat b < 256" using unsigned_less [of b, where ?'a = nat] by simp
  with Cons show ?case by simp
qed simp

definition u64_le :: "u64 \<Rightarrow> bytes" where
  "u64_le w = to_le 8 (unat w)"

definition u64_from_le :: "bytes \<Rightarrow> u64" where
  "u64_from_le bs = word_of_nat (from_le bs)"

lemma length_u64_le [simp]: "length (u64_le w) = 8"
  by (simp add: u64_le_def)

lemma u64_from_le_u64_le [simp]: "u64_from_le (u64_le w) = w"
proof -
  have "unat w < 256 ^ 8" using unsigned_less [of w, where ?'a = nat] by simp
  then show ?thesis
    by (simp add: u64_from_le_def u64_le_def from_le_to_le)
qed

section \<open>Slices and buffers\<close>

text \<open>\<open>buf[off..off + len]\<close>, used only under the bounds check the source has.\<close>

definition slice_of :: "nat \<Rightarrow> nat \<Rightarrow> 'a list \<Rightarrow> 'a list" where
  "slice_of off len xs = take len (drop off xs)"

text \<open>\<open>buf[off..off + src.len()].copy_from_slice(src)\<close>.\<close>

definition blit :: "nat \<Rightarrow> 'a list \<Rightarrow> 'a list \<Rightarrow> 'a list" where
  "blit off src dst = take off dst @ src @ drop (off + length src) dst"

lemma length_slice_of: "off + len \<le> length xs \<Longrightarrow> length (slice_of off len xs) = len"
  by (simp add: slice_of_def)

lemma slice_of_prefix [slice_simps]: "slice_of 0 (length xs) (xs @ ys) = xs"
  by (simp add: slice_of_def)

lemma slice_of_skip [slice_simps]:
  "length xs \<le> off \<Longrightarrow> slice_of off len (xs @ ys) = slice_of (off - length xs) len ys"
  by (simp add: slice_of_def)

lemma slice_of_mid: "slice_of (length xs) (length ys) (xs @ ys @ zs) = ys"
  by (simp add: slice_of_def)

lemma slice_of_append_left: "off + len \<le> length xs \<Longrightarrow> slice_of off len (xs @ ys) = slice_of off len xs"
  by (simp add: slice_of_def)

lemma length_blit [simp]: "off + length src \<le> length dst \<Longrightarrow> length (blit off src dst) = length dst"
  by (simp add: blit_def)

lemma slice_of_blit_same:
  "off + length src \<le> length dst \<Longrightarrow> slice_of off (length src) (blit off src dst) = src"
  by (simp add: slice_of_def blit_def)

lemma slice_of_blit_before:
  assumes "i + len \<le> off" and "off \<le> length dst"
  shows "slice_of i len (blit off src dst) = slice_of i len dst"
proof -
  have "slice_of i len (blit off src dst) = slice_of i len (take off dst)"
    using assms by (simp add: blit_def slice_of_append_left)
  also have "\<dots> = slice_of i len dst"
    using assms by (simp add: slice_of_def drop_take take_take min_absorb1)
  finally show ?thesis .
qed

lemma take_blit: "off \<le> length dst \<Longrightarrow> take off (blit off src dst) = take off dst"
  by (simp add: blit_def)

section \<open>Ordered maps\<close>

text \<open>
  A \<open>BTreeMap\<close> is an association list whose keys are strictly increasing.
  \<open>map_of\<close> is \<open>get\<close>, the list itself is the iteration order.
\<close>

type_synonym ('k, 'v) btree = "('k \<times> 'v) list"

definition bt_ok :: "('k::linorder, 'v) btree \<Rightarrow> bool" where
  "bt_ok m \<longleftrightarrow> sorted_wrt (<) (map fst m)"

fun bt_insert :: "'k::linorder \<Rightarrow> 'v \<Rightarrow> ('k, 'v) btree \<Rightarrow> ('k, 'v) btree" where
  "bt_insert k v [] = [(k, v)]"
| "bt_insert k v ((k', v') # m) =
     (if k < k' then (k, v) # (k', v') # m
      else if k = k' then (k, v) # m
      else (k', v') # bt_insert k v m)"

definition bt_last_key :: "('k, 'v) btree \<Rightarrow> 'k option" where
  "bt_last_key m = (if m = [] then None else Some (fst (last m)))"

definition bt_first_key :: "('k, 'v) btree \<Rightarrow> 'k option" where
  "bt_first_key m = (case m of [] \<Rightarrow> None | kv # _ \<Rightarrow> Some (fst kv))"

lemma bt_ok_Nil [simp]: "bt_ok []"
  by (simp add: bt_ok_def)

lemma bt_ok_Cons: "bt_ok ((k, v) # m) \<longleftrightarrow> (\<forall>k' \<in> fst ` set m. k < k') \<and> bt_ok m"
  by (auto simp: bt_ok_def)

lemma bt_insert_keys: "fst ` set (bt_insert k v m) = insert k (fst ` set m)"
  by (induction k v m rule: bt_insert.induct) auto

lemma bt_ok_insert [intro]: "bt_ok m \<Longrightarrow> bt_ok (bt_insert k v m)"
  by (induction k v m rule: bt_insert.induct) (auto simp: bt_ok_Cons bt_insert_keys)

lemma bt_get_insert [bt_simps]: "map_of (bt_insert k v m) k' = (if k' = k then Some v else map_of m k')"
  by (induction k v m rule: bt_insert.induct) auto

lemma bt_ok_distinct: "bt_ok m \<Longrightarrow> distinct (map fst m)"
  unfolding bt_ok_def by (rule strict_sorted_iff [THEN iffD1, THEN conjunct2])

lemma bt_ok_filter: "bt_ok m \<Longrightarrow> bt_ok (filter P m)"
  by (induction m) (auto simp: bt_ok_Cons)

lemma bt_insert_last: "(\<forall>k' \<in> fst ` set m. k' < k) \<Longrightarrow> bt_insert k v m = m @ [(k, v)]"
  by (induction k v m rule: bt_insert.induct) (auto simp: order.asym)

section \<open>Texts\<close>

text \<open>\<open>to_string\<close> of an unsigned integer and \<open>to_ascii_lowercase\<close> of a string of bytes.\<close>

fun show_nat :: "nat \<Rightarrow> string" where
  "show_nat n = (if n < 10 then [char_of (48 + n)] else show_nat (n div 10) @ [char_of (48 + n mod 10)])"

declare show_nat.simps [simp del]

text \<open>\<open>str::parse::<u64>()\<close>: an optional plus sign, then digits without overflow.\<close>

definition digit_step :: "nat \<Rightarrow> char \<Rightarrow> nat option" where
  "digit_step acc c = (let d = (of_char c :: nat) in
     if 48 \<le> d \<and> d \<le> 57 \<and> acc * 10 + (d - 48) < 2 ^ 64 then Some (acc * 10 + (d - 48)) else None)"

fun parse_digits :: "string \<Rightarrow> nat \<Rightarrow> nat option" where
  "parse_digits [] acc = Some acc"
| "parse_digits (c # cs) acc = Option.bind (digit_step acc c) (parse_digits cs)"

definition parse_u64 :: "string \<Rightarrow> u64 option" where
  "parse_u64 s = map_option word_of_nat (case s of
      [] \<Rightarrow> None
    | c # cs \<Rightarrow> if c = CHR ''+'' then (if cs = [] then None else parse_digits cs 0) else parse_digits s 0)"

lemma parse_digits_append: "parse_digits (s @ t) acc = Option.bind (parse_digits s acc) (parse_digits t)"
proof (induction s arbitrary: acc)
  case (Cons c s)
  show ?case by (cases "digit_step acc c") (simp_all add: Cons.IH)
qed simp

lemma of_char_digit: "n < 10 \<Longrightarrow> (of_char (char_of (48 + n) :: char) :: nat) = 48 + n"
  by simp

lemma digit_step_digit: "n < 10 \<Longrightarrow> acc * 10 + n < 2 ^ 64 \<Longrightarrow> digit_step acc (char_of (48 + n)) = Some (acc * 10 + n)"
  by (simp add: digit_step_def Let_def)

lemma parse_digits_show_nat: "n < 2 ^ 64 \<Longrightarrow> parse_digits (show_nat n) 0 = Some n"
proof (induction n rule: show_nat.induct)
  case (1 n)
  show ?case
  proof (cases "n < 10")
    case True
    then show ?thesis using digit_step_digit [of n 0] by (simp add: show_nat.simps)
  next
    case False
    have "n div 10 < 2 ^ 64" using 1(2) by simp
    then have "parse_digits (show_nat (n div 10)) 0 = Some (n div 10)" using 1(1) False by simp
    moreover have "n div 10 * 10 + n mod 10 = n" by simp
    ultimately show ?thesis
      using False 1(2) digit_step_digit [of "n mod 10" "n div 10"] by (subst show_nat.simps) (simp add: parse_digits_append)
  qed
qed

lemma show_nat_digit: "c \<in> set (show_nat n) \<Longrightarrow> 48 \<le> (of_char c :: nat) \<and> (of_char c :: nat) \<le> 57"
proof (induction n rule: show_nat.induct)
  case (1 n)
  then show ?case
    using of_char_digit [of n] of_char_digit [of "n mod 10"]
    by (subst (asm) (2) show_nat.simps) (auto split: if_splits)
qed

lemma show_nat_nonempty: "show_nat n \<noteq> []"
  by (subst show_nat.simps) simp

lemma parse_u64_show: "parse_u64 (show_nat (unat i)) = Some i"
proof -
  have "unat i < 2 ^ 64" using unsigned_less [of i, where ?'a = nat] by simp
  moreover obtain c cs where c: "show_nat (unat i) = c # cs" using show_nat_nonempty by (cases "show_nat (unat i)") auto
  moreover have "c \<noteq> CHR ''+''" using show_nat_digit [of c "unat i"] c by auto
  ultimately show ?thesis using parse_digits_show_nat [of "unat i"] by (simp add: parse_u64_def)
qed

lemma show_u64_inj: "show_nat (unat i) = show_nat (unat j) \<Longrightarrow> i = (j :: u64)"
  by (metis option.inject parse_u64_show)

text \<open>\<open>strip_prefix\<close> and \<open>strip_suffix\<close>.\<close>

definition strip_prefix :: "string \<Rightarrow> string \<Rightarrow> string option" where
  "strip_prefix p s = (if take (length p) s = p then Some (drop (length p) s) else None)"

definition strip_suffix :: "string \<Rightarrow> string \<Rightarrow> string option" where
  "strip_suffix p s = (if length p \<le> length s \<and> drop (length s - length p) s = p
     then Some (take (length s - length p) s) else None)"

lemma strip_prefix_append [simp]: "strip_prefix p (p @ s) = Some s"
  by (simp add: strip_prefix_def)

lemma strip_suffix_append [simp]: "strip_suffix p (s @ p) = Some s"
  by (simp add: strip_suffix_def)

definition ascii_lower :: "char \<Rightarrow> char" where
  "ascii_lower c = (let n = (of_char c :: nat) in if 65 \<le> n \<and> n \<le> 90 then char_of (n + 32) else c)"

text \<open>
  \<open>s.trim().is_empty()\<close>: the string is made of Unicode white space only.  The table
  holds the UTF-8 encodings of the characters with the \<open>White_Space\<close> property.
\<close>

definition white_space :: "string list" where
  "white_space =
    [[CHR 0x09], [CHR 0x0A], [CHR 0x0B], [CHR 0x0C], [CHR 0x0D], [CHR 0x20], [CHR 0xC2, CHR 0x85],
     [CHR 0xC2, CHR 0xA0], [CHR 0xE1, CHR 0x9A, CHR 0x80], [CHR 0xE2, CHR 0x80, CHR 0x80],
     [CHR 0xE2, CHR 0x80, CHR 0x81], [CHR 0xE2, CHR 0x80, CHR 0x82], [CHR 0xE2, CHR 0x80, CHR 0x83],
     [CHR 0xE2, CHR 0x80, CHR 0x84], [CHR 0xE2, CHR 0x80, CHR 0x85], [CHR 0xE2, CHR 0x80, CHR 0x86],
     [CHR 0xE2, CHR 0x80, CHR 0x87], [CHR 0xE2, CHR 0x80, CHR 0x88], [CHR 0xE2, CHR 0x80, CHR 0x89],
     [CHR 0xE2, CHR 0x80, CHR 0x8A], [CHR 0xE2, CHR 0x80, CHR 0xA8], [CHR 0xE2, CHR 0x80, CHR 0xA9],
     [CHR 0xE2, CHR 0x80, CHR 0xAF], [CHR 0xE2, CHR 0x81, CHR 0x9F], [CHR 0xE3, CHR 0x80, CHR 0x80]]"

lemma white_space_nonempty: "w \<in> set white_space \<Longrightarrow> w \<noteq> []"
  by (auto simp: white_space_def)

function is_blank :: "string \<Rightarrow> bool" where
  "is_blank s = (if s = [] then True
     else \<exists>w \<in> set white_space. take (length w) s = w \<and> is_blank (drop (length w) s))"
  by pat_completeness auto
termination
  by (relation "measure length") (auto dest: white_space_nonempty)

declare is_blank.simps [simp del]

lemma is_blank_Nil [simp]: "is_blank []"
  by (simp add: is_blank.simps)

lemma is_blank_Cons:
  assumes "(of_char c :: nat) \<notin> {9, 10, 11, 12, 13, 32, 194, 225, 226, 227}"
  shows "\<not> is_blank (c # s)"
proof
  have first: "(of_char (hd w) :: nat) \<in> {9, 10, 11, 12, 13, 32, 194, 225, 226, 227}" if "w \<in> set white_space" for w
    using that by (auto simp: white_space_def)
  assume "is_blank (c # s)"
  then obtain w where w: "w \<in> set white_space" "take (length w) (c # s) = w"
    by (auto simp: is_blank.simps [of "c # s"])
  from w(2) have "hd w = c" using white_space_nonempty [OF w(1)] by (cases w) auto
  with first [OF w(1)] assms show False by simp
qed

lemma find_white_space: "find P white_space = Some w \<Longrightarrow> 0 < length w"
  using white_space_nonempty [of w] by (auto simp: find_Some_iff dest: nth_mem)

text \<open>\<open>str::trim\<close>: strip white space at both ends.\<close>

function trim_start :: "string \<Rightarrow> string" where
  "trim_start s = (case find (\<lambda>w. take (length w) s = w) white_space of
      None \<Rightarrow> s
    | Some w \<Rightarrow> if s = [] then s else trim_start (drop (length w) s))"
  by pat_completeness auto
termination
  by (relation "measure length") (auto dest!: find_white_space)

function trim_end :: "string \<Rightarrow> string" where
  "trim_end s = (case find (\<lambda>w. length w \<le> length s \<and> drop (length s - length w) s = w) white_space of
      None \<Rightarrow> s
    | Some w \<Rightarrow> if s = [] then s else trim_end (take (length s - length w) s))"
  by pat_completeness auto
termination
  by (relation "measure length") (auto dest!: find_white_space)

declare trim_start.simps [simp del] trim_end.simps [simp del]

definition trim :: "string \<Rightarrow> string" where
  "trim s = trim_end (trim_start s)"

lemma trim_Nil [simp]: "trim [] = []"
proof -
  have "trim_start [] = []" by (simp add: trim_start.simps split: option.splits)
  moreover have "trim_end [] = []" by (simp add: trim_end.simps split: option.splits)
  ultimately show ?thesis by (simp add: trim_def)
qed

lemma white_space_ends:
  assumes "w \<in> set white_space"
  shows "(of_char (hd w) :: nat) \<in> {9, 10, 11, 12, 13, 32, 194, 225, 226, 227}"
    and "(of_char (last w) :: nat) < 33 \<or> 127 < (of_char (last w) :: nat)"
  using assms by (auto simp: white_space_def)

lemma trim_start_visible:
  assumes "s \<noteq> []" and "(of_char (hd s) :: nat) \<notin> {9, 10, 11, 12, 13, 32, 194, 225, 226, 227}"
  shows "trim_start s = s"
proof -
  have "find (\<lambda>w. take (length w) s = w) white_space = None"
  proof (unfold find_None_iff, intro notI, elim exE conjE)
    fix w assume w: "w \<in> set white_space" "take (length w) s = w"
    then have "hd w = hd s" using white_space_nonempty [OF w(1)] assms(1) by (metis hd_take length_greater_0_conv)
    with white_space_ends(1) [OF w(1)] assms(2) show False by simp
  qed
  then show ?thesis by (simp add: trim_start.simps)
qed

lemma trim_end_visible:
  assumes "s \<noteq> []" and "33 \<le> (of_char (last s) :: nat)" and "(of_char (last s) :: nat) \<le> 127"
  shows "trim_end s = s"
proof -
  have "find (\<lambda>w. length w \<le> length s \<and> drop (length s - length w) s = w) white_space = None"
  proof (unfold find_None_iff, intro notI, elim exE conjE)
    fix w assume w: "w \<in> set white_space" "length w \<le> length s" "drop (length s - length w) s = w"
    then have "last w = last s"
      using white_space_nonempty [OF w(1)] assms(1) by (metis drop_eq_Nil last_drop not_le)
    with white_space_ends(2) [OF w(1)] assms(2,3) show False by simp
  qed
  then show ?thesis by (simp add: trim_end.simps)
qed

lemma trim_visible:
  "s \<noteq> [] \<Longrightarrow> (of_char (hd s) :: nat) \<notin> {9, 10, 11, 12, 13, 32, 194, 225, 226, 227}
   \<Longrightarrow> 33 \<le> (of_char (last s) :: nat) \<Longrightarrow> (of_char (last s) :: nat) \<le> 127 \<Longrightarrow> trim s = s"
  by (simp add: trim_def trim_start_visible trim_end_visible)

text \<open>\<open>str::split\<close> at a separator byte: one more piece than there are separators.\<close>

fun split_on :: "char \<Rightarrow> string \<Rightarrow> string list" where
  "split_on c [] = [[]]"
| "split_on c (x # xs) = (if x = c then [] # split_on c xs
     else (case split_on c xs of [] \<Rightarrow> [[x]] | p # ps \<Rightarrow> (x # p) # ps))"

fun join_with :: "char \<Rightarrow> string list \<Rightarrow> string" where
  "join_with c [] = []"
| "join_with c [p] = p"
| "join_with c (p # q # ps) = p @ c # join_with c (q # ps)"

lemma split_on_nonempty [simp]: "split_on c s \<noteq> []"
  by (induction s) (auto split: list.splits)

lemma join_split_on: "join_with c (split_on c s) = s"
proof (induction s)
  case (Cons x xs)
  obtain p ps where "split_on c xs = p # ps" by (cases "split_on c xs") auto
  with Cons show ?case by (cases ps) auto
qed simp

lemma split_on_inj: "split_on c s = split_on c t \<Longrightarrow> s = t"
  by (metis join_split_on)

lemma split_on_sep_free: "p \<in> set (split_on c s) \<Longrightarrow> c \<notin> set p"
  by (induction s arbitrary: p) (auto split: list.splits if_splits)

lemma split_on_append_sep: "split_on c (s @ c # t) = split_on c s @ split_on c t"
proof (induction s)
  case (Cons x xs)
  obtain p ps where "split_on c xs = p # ps" by (cases "split_on c xs") auto
  with Cons show ?case by auto
qed simp

lemma split_on_no_sep: "c \<notin> set s \<Longrightarrow> split_on c s = [s]"
  by (induction s) auto

text \<open>\<open>contains\<close> of a text.\<close>

definition contains_str :: "string \<Rightarrow> string \<Rightarrow> bool" where
  "contains_str p s \<longleftrightarrow> (\<exists>i \<le> length s. take (length p) (drop i s) = p)"

end
