(* ===== verification/Glob.thy ===== *)
theory Glob
  imports Prelude
begin

text \<open>
  The glob matcher of \<open>src/policy/glob.rs\<close>: \<open>*\<close> stands for any run of bytes,
  \<open>?\<close> for exactly one.  \<open>match_inner\<close> is the iterative matcher with one
  backtracking point; \<open>glob\<close> is the declarative meaning it is measured against.
  A Rust string is its list of bytes.
\<close>

section \<open>The matcher\<close>

text \<open>The second loop of the source: skip the trailing stars of the pattern.\<close>

function skip_stars :: "string \<Rightarrow> nat \<Rightarrow> nat" where
  "skip_stars p pi = (if pi < length p \<and> p ! pi = CHR ''*'' then skip_stars p (Suc pi) else pi)"
  by pat_completeness auto
termination
  by (relation "measure (\<lambda>(p, pi). length p - pi)") auto

text \<open>
  The first loop.  Its state is the pattern cursor, the text cursor, the position of
  the last star and the text position that star was tried at.
\<close>

definition star_rank :: "nat option \<Rightarrow> nat" where
  "star_rank sp = (case sp of None \<Rightarrow> 0 | Some s \<Rightarrow> Suc s)"

definition star_behind :: "nat \<Rightarrow> nat \<Rightarrow> nat option \<Rightarrow> nat \<Rightarrow> bool" where
  "star_behind pi ti sp st = (case sp of None \<Rightarrow> True | Some s \<Rightarrow> s < pi \<and> st \<le> ti)"

function match_loop :: "string \<Rightarrow> nat \<Rightarrow> string \<Rightarrow> nat \<Rightarrow> nat option \<Rightarrow> nat \<Rightarrow> bool" where
  "match_loop p pi t ti star_p star_t =
     (if ti < length t then
        if pi < length p \<and> (p ! pi = CHR ''?'' \<or> p ! pi = t ! ti) then
          match_loop p (Suc pi) t (Suc ti) star_p star_t
        else if pi < length p \<and> p ! pi = CHR ''*'' then
          match_loop p (Suc pi) t ti (Some pi) ti
        else (case star_p of
            Some sp \<Rightarrow> match_loop p (Suc sp) t (Suc star_t) (Some sp) (Suc star_t)
          | None \<Rightarrow> False)
      else skip_stars p pi = length p)"
  by pat_completeness auto
termination
  by (relation "measures
        [\<lambda>(p, pi, t, ti, sp, st). if star_behind pi ti sp st then 0 else 1,
         \<lambda>(p, pi, t, ti, sp, st). length p - star_rank sp,
         \<lambda>(p, pi, t, ti, sp, st). length t - st,
         \<lambda>(p, pi, t, ti, sp, st). length t - ti]")
     (auto simp: star_behind_def star_rank_def split: option.splits)

definition match_inner :: "string \<Rightarrow> nat \<Rightarrow> string \<Rightarrow> nat \<Rightarrow> bool" where
  "match_inner p pi t ti = match_loop p pi t ti None 0"

definition glob_match :: "string \<Rightarrow> string \<Rightarrow> bool" where
  "glob_match pattern s = match_inner pattern 0 s 0"

declare skip_stars.simps [simp del] match_loop.simps [simp del]

section \<open>The meaning of a pattern\<close>

fun glob :: "string \<Rightarrow> string \<Rightarrow> bool" where
  "glob [] t = (t = [])"
| "glob (c # p) t =
     (if c = CHR ''*'' then glob p t \<or> (case t of [] \<Rightarrow> False | x # xs \<Rightarrow> glob (c # p) xs)
      else (case t of [] \<Rightarrow> False | x # xs \<Rightarrow> (c = CHR ''?'' \<or> c = x) \<and> glob p xs))"

declare glob.simps(2) [simp del]

lemma glob_lit:
  "c \<noteq> CHR ''*'' \<Longrightarrow>
   glob (c # p) t = (case t of [] \<Rightarrow> False | x # xs \<Rightarrow> (c = CHR ''?'' \<or> c = x) \<and> glob p xs)"
  by (simp add: glob.simps(2))

lemma glob_star: "glob (CHR ''*'' # p) t \<longleftrightarrow> (\<exists>i \<le> length t. glob p (drop i t))"
proof (induction t)
  case Nil
  then show ?case by (simp add: glob.simps(2))
next
  case (Cons x xs)
  have "glob (CHR ''*'' # p) (x # xs) \<longleftrightarrow> glob p (x # xs) \<or> (\<exists>i \<le> length xs. glob p (drop i xs))"
    using Cons.IH by (simp add: glob.simps(2))
  also have "\<dots> \<longleftrightarrow> (\<exists>i \<le> Suc (length xs). glob p (drop i (x # xs)))"
    by (simp add: ex_le_Suc_iff)
  finally show ?case by simp
qed

lemma glob_star_only [simp]: "glob ''*'' t"
  by (auto simp: glob_star intro: exI [of _ "length t"])

lemma glob_empty_text: "glob p [] \<longleftrightarrow> (\<forall>c \<in> set p. c = CHR ''*'')"
  by (induction p) (auto simp: glob.simps(2))

lemma glob_star_free_prefix:
  assumes "CHR ''*'' \<notin> set mid" and "glob (mid @ q) t"
  shows "length mid \<le> length t \<and> glob q (drop (length mid) t)"
  using assms
proof (induction mid arbitrary: t)
  case (Cons c mid)
  then show ?case by (cases t) (auto simp: glob_lit)
qed simp

section \<open>Correctness of the iterative matcher\<close>

lemma skip_stars_end:
  "pi \<le> length p \<Longrightarrow> skip_stars p pi = length p \<longleftrightarrow> (\<forall>c \<in> set (drop pi p). c = CHR ''*'')"
proof (induction p pi rule: skip_stars.induct)
  case (1 p pi)
  show ?case
  proof (cases "pi < length p")
    case True
    then have d: "drop pi p = p ! pi # drop (Suc pi) p" by (rule Cons_nth_drop_Suc [symmetric])
    with True 1 show ?thesis
      by (cases "p ! pi = CHR ''*''") (simp_all add: skip_stars.simps [of p pi])
  next
    case False
    with "1.prems" have "pi = length p" by simp
    then show ?thesis by (simp add: skip_stars.simps)
  qed
qed

text \<open>
  What holds at the head of the loop: since the last star the matcher has consumed a
  star-free piece of the pattern against an equally long piece of the text.
\<close>

definition loop_inv :: "string \<Rightarrow> nat \<Rightarrow> string \<Rightarrow> nat \<Rightarrow> nat option \<Rightarrow> nat \<Rightarrow> bool" where
  "loop_inv p pi t ti sp st \<longleftrightarrow> pi \<le> length p \<and> ti \<le> length t \<and>
     (case sp of None \<Rightarrow> True
      | Some s \<Rightarrow> st \<le> ti \<and> pi = Suc s + (ti - st) \<and>
          CHR ''*'' \<notin> set (take (ti - st) (drop (Suc s) p)))"

text \<open>The matches still open to the last star: those that start later in the text.\<close>

definition retry :: "string \<Rightarrow> string \<Rightarrow> nat option \<Rightarrow> nat \<Rightarrow> bool" where
  "retry p t sp st = (case sp of None \<Rightarrow> False
     | Some s \<Rightarrow> \<exists>k. st < k \<and> k \<le> length t \<and> glob (drop (Suc s) p) (drop k t))"

lemma retry_prefix:
  assumes "loop_inv p pi t ti (Some s) st" and "k \<le> length t" and "glob (drop (Suc s) p) (drop k t)"
  shows "k + (ti - st) \<le> length t \<and> glob (drop pi p) (drop (k + (ti - st)) t)"
proof -
  let ?mid = "take (ti - st) (drop (Suc s) p)"
  have inv: "pi = Suc s + (ti - st)" "CHR ''*'' \<notin> set ?mid" "pi \<le> length p"
    using assms(1) by (auto simp: loop_inv_def)
  have len: "length ?mid = ti - st" using inv by simp
  have "drop pi p = drop (ti - st) (drop (Suc s) p)" by (simp add: inv(1) add.commute)
  then have "drop (Suc s) p = ?mid @ drop pi p" by (metis append_take_drop_id)
  then have "glob (?mid @ drop pi p) (drop k t)" using assms(3) by simp
  from glob_star_free_prefix [OF inv(2) this] len assms(2) show ?thesis
    by (auto simp: add.commute)
qed

lemma loop_inv_step:
  assumes "loop_inv p pi t ti sp st" and "pi < length p" and "ti < length t" and "p ! pi \<noteq> CHR ''*''"
  shows "loop_inv p (Suc pi) t (Suc ti) sp st"
proof (cases sp)
  case (Some s)
  with assms(1) have sp: "st \<le> ti" "pi = Suc s + (ti - st)"
    and mid: "CHR ''*'' \<notin> set (take (ti - st) (drop (Suc s) p))"
    by (simp_all add: loop_inv_def)
  have "take (Suc (ti - st)) (drop (Suc s) p) = take (ti - st) (drop (Suc s) p) @ [p ! pi]"
    using sp(2) assms(2) by (simp add: take_Suc_conv_app_nth)
  with Some sp mid assms show ?thesis by (simp add: loop_inv_def Suc_diff_le)
qed (use assms in \<open>simp add: loop_inv_def\<close>)

lemma retry_next:
  assumes "st < length t"
  shows "retry p t (Some s) st \<longleftrightarrow> glob (drop (Suc s) p) (drop (Suc st) t) \<or> retry p t (Some s) (Suc st)"
  using assms unfolding retry_def by (auto dest: Suc_lessD) (metis Suc_lessI Suc_leI)

lemma match_loop_correct:
  assumes "loop_inv p pi t ti sp st" and "CHR ''*'' \<notin> set t"
  shows "match_loop p pi t ti sp st \<longleftrightarrow> glob (drop pi p) (drop ti t) \<or> retry p t sp st"
  using assms
proof (induction p pi t ti sp st rule: match_loop.induct)
  case (1 p pi t ti sp st)
  note inv = 1(4) and nostar = 1(5) and unfold = match_loop.simps [of p pi t ti sp st]
  show ?case
  proof (cases "ti < length t")
    case False
    then have end_t: "drop ti t = []" by simp
    have "\<not> retry p t sp st"
    proof
      assume "retry p t sp st"
      then obtain s k where "sp = Some s" "st < k" "k \<le> length t" "glob (drop (Suc s) p) (drop k t)"
        by (auto simp: retry_def split: option.splits)
      with retry_prefix [of p pi t ti s st k] inv False show False
        by (auto simp: loop_inv_def)
    qed
    moreover have "match_loop p pi t ti sp st \<longleftrightarrow> skip_stars p pi = length p"
      using unfold False by simp
    ultimately show ?thesis
      using inv end_t by (simp add: glob_empty_text skip_stars_end loop_inv_def)
  next
    case True
    then have dt: "drop ti t = t ! ti # drop (Suc ti) t" by (rule Cons_nth_drop_Suc [symmetric])
    have tstar: "t ! ti \<noteq> CHR ''*''" using nostar True by (metis nth_mem)
    consider (lit) "pi < length p" "p ! pi = CHR ''?'' \<or> p ! pi = t ! ti"
      | (star) "pi < length p" "p ! pi = CHR ''*''"
      | (miss) "\<not> (pi < length p \<and> (p ! pi = CHR ''?'' \<or> p ! pi = t ! ti))"
          "\<not> (pi < length p \<and> p ! pi = CHR ''*'')"
      by blast
    then show ?thesis
    proof cases
      case lit
      then have ns: "p ! pi \<noteq> CHR ''*''" using tstar by auto
      have dp: "drop pi p = p ! pi # drop (Suc pi) p" using lit(1) by (rule Cons_nth_drop_Suc [symmetric])
      have "match_loop p (Suc pi) t (Suc ti) sp st
              \<longleftrightarrow> glob (drop (Suc pi) p) (drop (Suc ti) t) \<or> retry p t sp st"
        using 1(1) True lit loop_inv_step [OF inv lit(1) True ns] nostar by simp
      moreover have "match_loop p pi t ti sp st = match_loop p (Suc pi) t (Suc ti) sp st"
        using unfold True lit by simp
      ultimately show ?thesis
        using lit ns dt dp by (simp add: glob_lit)
    next
      case star
      have dp: "drop pi p = CHR ''*'' # drop (Suc pi) p"
        using star Cons_nth_drop_Suc [of pi p] by simp
      have "loop_inv p (Suc pi) t ti (Some pi) ti" using star True by (simp add: loop_inv_def)
      then have "match_loop p pi t ti sp st
          \<longleftrightarrow> glob (drop (Suc pi) p) (drop ti t) \<or> retry p t (Some pi) ti"
        using 1(2) True star tstar nostar unfold by auto
      also have "\<dots> \<longleftrightarrow> glob (drop pi p) (drop ti t)"
      proof -
        have "(\<exists>k. ti \<le> k \<and> k \<le> length t \<and> glob (drop (Suc pi) p) (drop k t))
            \<longleftrightarrow> (\<exists>i \<le> length (drop ti t). glob (drop (Suc pi) p) (drop i (drop ti t)))"
          using ex_shift_iff [of ti "length t" "\<lambda>k. glob (drop (Suc pi) p) (drop k t)"] True by simp
        then show ?thesis
          unfolding dp glob_star retry_def using True by (auto simp: le_less)
      qed
      also have "\<dots> \<longleftrightarrow> glob (drop pi p) (drop ti t) \<or> retry p t sp st"
      proof -
        have "glob (drop pi p) (drop ti t)" if r: "retry p t sp st"
        proof -
          from r obtain s k where s: "sp = Some s" "st < k" "k \<le> length t" "glob (drop (Suc s) p) (drop k t)"
            by (auto simp: retry_def split: option.splits)
          let ?j = "k + (ti - st)"
          have j: "?j \<le> length t" "glob (drop pi p) (drop ?j t)" "ti \<le> ?j"
            using retry_prefix [of p pi t ti s st k] s inv by (auto simp: loop_inv_def)
          from j(2) dp obtain i where "i \<le> length t - ?j" "glob (drop (Suc pi) p) (drop (i + ?j) t)"
            by (auto simp: glob_star)
          with j show ?thesis
            unfolding dp glob_star by (auto intro!: exI [of _ "i + ?j - ti"])
        qed
        then show ?thesis by blast
      qed
      finally show ?thesis .
    next
      case miss
      have no: "\<not> glob (drop pi p) (drop ti t)"
      proof (cases "pi < length p")
        case True
        with miss show ?thesis
          using Cons_nth_drop_Suc [of pi p] by (simp add: dt glob_lit flip: Cons_nth_drop_Suc)
      next
        case False
        then show ?thesis by (simp add: dt)
      qed
      show ?thesis
      proof (cases sp)
        case None
        with no miss True unfold show ?thesis by (auto simp: retry_def)
      next
        case (Some s)
        have "loop_inv p (Suc s) t (Suc st) (Some s) (Suc st)" and st: "st < length t"
          using inv Some True by (auto simp: loop_inv_def)
        then have "match_loop p pi t ti sp st
            \<longleftrightarrow> glob (drop (Suc s) p) (drop (Suc st) t) \<or> retry p t (Some s) (Suc st)"
          using 1(3) True miss Some nostar unfold by auto
        with no Some retry_next [OF st] show ?thesis by simp
      qed
    qed
  qed
qed

lemma glob_match_iff: "CHR ''*'' \<notin> set s \<Longrightarrow> glob_match pat s \<longleftrightarrow> glob pat s"
  using match_loop_correct [of pat 0 s 0 None 0]
  by (simp add: glob_match_def match_inner_def loop_inv_def retry_def)

text \<open>C33: the iterative matcher with its single backtracking point decides the declarative
  meaning of a pattern (a star is any run, a question mark any one byte, every other byte
  itself) on every text that holds no star byte; it always ends.\<close>

theorem glob_match_correct:
  assumes "CHR ''*'' \<notin> set s"
  shows "glob_match pat s \<longleftrightarrow> glob pat s"
  using assms by (rule glob_match_iff)

theorem glob_match_correct_witness:
  "CHR ''*'' \<notin> set ''abcbc'' \<and> glob_match ''a*b?'' ''abcbc'' \<and> \<not> glob_match ''a*b'' ''abcbc''"
  using glob_match_correct [of "''abcbc''" "''a*b?''"] glob_match_correct [of "''abcbc''" "''a*b''"]
  by (simp add: glob.simps)

end
