(* ===== verification/Metadata.thy ===== *)
theory Metadata
  imports Prelude
begin

text \<open>
  The records of \<open>src/storage/metadata.rs\<close>: what is stored beside the shards of an
  object, what a listing returns, and the settings of a bucket.  A \<open>HashMap\<close> is a finite
  map; a \<open>usize\<close> is a natural number.
\<close>

section \<open>JSON values\<close>

text \<open>
  A parsed JSON document, as the settings of a bucket carry one.  Numbers are never
  inspected and are kept as their text; an object is the list of its members with distinct
  names, so that \<open>map_of\<close> is its lookup.
\<close>

datatype json = JNull | JBool bool | JNumber string | JString string
  | JArray "json list" | JObject "(string \<times> json) list"

section \<open>Object metadata\<close>

record erasure_meta =
  em_ftt :: nat
  em_index :: nat
  em_epoch_id :: u64
  em_volume_ids :: "string list"

text \<open>\<open>data()\<close> subtracts unsigned integers: it panics when the object lists fewer volumes
  than it tolerates failures (in a build with overflow checks).\<close>

definition em_data :: "erasure_meta \<Rightarrow> nat option" where
  "em_data e = (if em_ftt e \<le> length (em_volume_ids e) then Some (length (em_volume_ids e) - em_ftt e) else None)"

definition em_parity :: "erasure_meta \<Rightarrow> nat" where
  "em_parity e = em_ftt e"

record part_entry =
  pe_number :: int
  pe_size :: u64
  pe_etag :: string
  pe_erasure :: erasure_meta
  pe_checksum :: string

record object_meta =
  om_size :: u64
  om_etag :: string
  om_content_type :: string
  om_created_at :: u64
  om_erasure :: erasure_meta
  om_checksum :: string
  om_user_metadata :: "string \<rightharpoonup> string"
  om_tags :: "string \<rightharpoonup> string"
  om_version_id :: string
  om_is_latest :: bool
  om_is_delete_marker :: bool
  om_parts :: "part_entry list"
  om_inline_data :: "string option"

record object_meta_file =
  mf_bucket :: string
  mf_key :: string
  mf_versions :: "object_meta list"

definition is_multipart :: "object_meta \<Rightarrow> bool" where
  "is_multipart m = (om_parts m \<noteq> [])"

definition quorum_eq :: "object_meta \<Rightarrow> object_meta \<Rightarrow> bool" where
  "quorum_eq a b \<longleftrightarrow>
     om_size a = om_size b \<and> om_etag a = om_etag b \<and> om_content_type a = om_content_type b
     \<and> om_created_at a = om_created_at b
     \<and> em_ftt (om_erasure a) = em_ftt (om_erasure b)
     \<and> em_epoch_id (om_erasure a) = em_epoch_id (om_erasure b)
     \<and> em_volume_ids (om_erasure a) = em_volume_ids (om_erasure b)
     \<and> om_user_metadata a = om_user_metadata b \<and> om_tags a = om_tags b"

lemma quorum_eq_refl [simp]: "quorum_eq a a"
  and quorum_eq_sym: "quorum_eq a b \<Longrightarrow> quorum_eq b a"
  and quorum_eq_trans: "quorum_eq a b \<Longrightarrow> quorum_eq b c \<Longrightarrow> quorum_eq a c"
  by (auto simp: quorum_eq_def)

text \<open>Metadata that agree for the quorum describe the same erasure layout.\<close>

lemma quorum_eq_layout: "quorum_eq a b \<Longrightarrow> em_data (om_erasure a) = em_data (om_erasure b)"
  by (simp add: quorum_eq_def em_data_def)

section \<open>Listings, options and settings\<close>

record object_info =
  oi_bucket :: string
  oi_key :: string
  oi_size :: u64
  oi_etag :: string
  oi_content_type :: string
  oi_created_at :: u64
  oi_user_metadata :: "string \<rightharpoonup> string"
  oi_tags :: "string \<rightharpoonup> string"
  oi_version_id :: string
  oi_is_delete_marker :: bool

record bucket_info =
  bi_name :: string
  bi_created_at :: u64

record list_options =
  lo_prefix :: string
  lo_delimiter :: string
  lo_start_after :: string
  lo_max_keys :: nat
  lo_continuation_token :: string

record list_result =
  lr_objects :: "object_info list"
  lr_common_prefixes :: "string list"
  lr_is_truncated :: bool
  lr_next_continuation_token :: string

record put_options =
  po_content_type :: string
  po_user_metadata :: "string \<rightharpoonup> string"
  po_tags :: "string \<rightharpoonup> string"
  po_ec_ftt :: "nat option"
  po_precomputed_etag :: "string option"
  po_skip_md5 :: bool

record bucket_settings =
  bs_versioning :: "string option"
  bs_ftt :: "nat option"
  bs_tags :: "(string \<rightharpoonup> string) option"
  bs_policy :: "json option"
  bs_lifecycle :: "string option"

definition default_settings :: bucket_settings where
  "default_settings = \<lparr> bs_versioning = None, bs_ftt = None, bs_tags = None, bs_policy = None, bs_lifecycle = None \<rparr>"

end
