(* ===== verification/Policy.thy ===== *)
theory Policy
  imports Glob Metadata
begin

text \<open>
  Bucket policies: the typed view of the stored JSON (\<open>src/policy/types.rs\<close>), the
  evaluator (\<open>src/policy/eval.rs\<close>), the operation-to-action table
  (\<open>src/policy/action.rs\<close>) and the access hook that runs them on every request
  (\<open>src/s3_access.rs\<close>).
\<close>

section \<open>The typed policy\<close>

definition as_str :: "json \<Rightarrow> string option" where
  "as_str v = (case v of JString s \<Rightarrow> Some s | _ \<Rightarrow> None)"

datatype effect = Allow | Deny

datatype principal = Anyone | Aws "string list"

record statement =
  sid :: "string option"
  effect :: effect
  principal :: principal
  action :: "string list"
  resource :: "string list"
  condition :: "json option"

record policy =
  version :: string
  statements :: "statement list"

definition string_or_array :: "json option \<Rightarrow> string list" where
  "string_or_array v = (case v of
      Some (JString s) \<Rightarrow> [s]
    | Some (JArray arr) \<Rightarrow> List.map_filter as_str arr
    | _ \<Rightarrow> [])"

definition parse_principal :: "json option \<Rightarrow> principal option" where
  "parse_principal v = (case v of
      None \<Rightarrow> Some Anyone
    | Some (JString s) \<Rightarrow> if s = ''*'' then Some Anyone else None
    | Some (JObject m) \<Rightarrow>
        (case map_of m ''AWS'' of
           Some aws \<Rightarrow> Some (Aws (string_or_array (Some aws)))
         | None \<Rightarrow> Some (Aws []))
    | Some _ \<Rightarrow> None)"

definition parse_statement :: "json \<Rightarrow> statement option" where
  "parse_statement v = (case v of
      JObject obj \<Rightarrow>
        (case Option.bind (map_of obj ''Effect'') as_str of
           None \<Rightarrow> None
         | Some e \<Rightarrow>
            (case (if e = ''Allow'' then Some Allow else if e = ''Deny'' then Some Deny else None) of
               None \<Rightarrow> None
             | Some eff \<Rightarrow>
                (case parse_principal (map_of obj ''Principal'') of
                   None \<Rightarrow> None
                 | Some pr \<Rightarrow>
                    (let act = string_or_array (map_of obj ''Action'');
                         res = string_or_array (map_of obj ''Resource'')
                     in if act = [] \<or> res = [] then None
                        else Some \<lparr> sid = Option.bind (map_of obj ''Sid'') as_str,
                                    effect = eff, principal = pr, action = act, resource = res,
                                    condition = (case map_of obj ''Condition'' of
                                       None \<Rightarrow> None
                                     | Some c \<Rightarrow> if c = JNull then None else Some c) \<rparr>))))
    | _ \<Rightarrow> None)"

definition from_json :: "json \<Rightarrow> policy option" where
  "from_json v = (case v of
      JObject obj \<Rightarrow>
        (let ver = (case Option.bind (map_of obj ''Version'') as_str of None \<Rightarrow> [] | Some s \<Rightarrow> s)
         in if ver = [] then None
            else (case (case map_of obj ''Statement'' of
                          None \<Rightarrow> None
                        | Some (JArray arr) \<Rightarrow> Some (map parse_statement arr)
                        | Some (JObject m) \<Rightarrow> Some [parse_statement (JObject m)]
                        | Some _ \<Rightarrow> None) of
                    None \<Rightarrow> None
                  | Some stmts \<Rightarrow>
                      (let ss = List.map_filter id stmts
                       in if ss = [] then None else Some \<lparr> version = ver, statements = ss \<rparr>)))
    | _ \<Rightarrow> None)"

section \<open>Evaluation\<close>

record args =
  args_bucket :: string
  args_key :: "string option"
  args_action :: string
  args_access_key :: string
  args_is_owner :: bool

definition args_resource :: "args \<Rightarrow> string" where
  "args_resource a = (case args_key a of
      Some k \<Rightarrow> if k \<noteq> [] then ''arn:aws:s3:::'' @ args_bucket a @ ''/'' @ k
               else ''arn:aws:s3:::'' @ args_bucket a
    | None \<Rightarrow> ''arn:aws:s3:::'' @ args_bucket a)"

text \<open>\<open>entry.rsplit('/').next()\<close>: what follows the last slash, the whole entry without one.\<close>

definition rsplit_tail :: "char \<Rightarrow> string \<Rightarrow> string" where
  "rsplit_tail c s = rev (takeWhile (\<lambda>x. x \<noteq> c) (rev s))"

definition principal_entry_matches :: "string \<Rightarrow> string \<Rightarrow> bool" where
  "principal_entry_matches entry access_key =
     (if entry = ''*'' then True
      else if entry = access_key then True
      else rsplit_tail (CHR ''/'') entry = access_key)"

definition principal_matches :: "principal \<Rightarrow> string \<Rightarrow> bool" where
  "principal_matches p access_key = (case p of
      Anyone \<Rightarrow> True
    | Aws list \<Rightarrow> if list = [] then False
                  else list_ex (\<lambda>e. principal_entry_matches e access_key) list)"

definition stmt_matches :: "statement \<Rightarrow> args \<Rightarrow> string \<Rightarrow> bool" where
  "stmt_matches stmt a res =
     (if condition stmt \<noteq> None then False
      else if \<not> principal_matches (principal stmt) (args_access_key a) then False
      else if \<not> list_ex (\<lambda>pat. glob_match pat (args_action a)) (action stmt) then False
      else if \<not> list_ex (\<lambda>pat. glob_match pat res) (resource stmt) then False
      else True)"

text \<open>The loop over the statements; \<open>any_allow\<close> is its local variable.\<close>

fun eval_statements :: "statement list \<Rightarrow> args \<Rightarrow> string \<Rightarrow> bool \<Rightarrow> bool" where
  "eval_statements [] a res any_allow = (any_allow \<or> args_is_owner a)"
| "eval_statements (stmt # stmts) a res any_allow =
     (if \<not> stmt_matches stmt a res then eval_statements stmts a res any_allow
      else (case effect stmt of
              Deny \<Rightarrow> False
            | Allow \<Rightarrow> eval_statements stmts a res True))"

definition is_allowed :: "policy \<Rightarrow> args \<Rightarrow> bool" where
  "is_allowed p a = eval_statements (statements p) a (args_resource a) False"

section \<open>Actions\<close>

definition action_table :: "(string \<times> string) list" where
  "action_table =
    [(''AbortMultipartUpload'', ''s3:AbortMultipartUpload''),
     (''CompleteMultipartUpload'', ''s3:PutObject''),
     (''CopyObject'', ''s3:PutObject''),
     (''CreateBucket'', ''s3:CreateBucket''),
     (''CreateMultipartUpload'', ''s3:PutObject''),
     (''DeleteBucket'', ''s3:DeleteBucket''),
     (''DeleteBucketCors'', ''s3:PutBucketCORS''),
     (''DeleteBucketEncryption'', ''s3:PutEncryptionConfiguration''),
     (''DeleteBucketLifecycle'', ''s3:PutLifecycleConfiguration''),
     (''DeleteBucketPolicy'', ''s3:DeleteBucketPolicy''),
     (''DeleteBucketReplication'', ''s3:PutReplicationConfiguration''),
     (''DeleteBucketTagging'', ''s3:PutBucketTagging''),
     (''DeleteBucketWebsite'', ''s3:DeleteBucketWebsite''),
     (''DeleteObject'', ''s3:DeleteObject''),
     (''DeleteObjects'', ''s3:DeleteObject''),
     (''DeleteObjectTagging'', ''s3:DeleteObjectTagging''),
     (''GetBucketAcl'', ''s3:GetBucketAcl''),
     (''GetBucketCors'', ''s3:GetBucketCORS''),
     (''GetBucketEncryption'', ''s3:GetEncryptionConfiguration''),
     (''GetBucketLifecycle'', ''s3:GetLifecycleConfiguration''),
     (''GetBucketLifecycleConfiguration'', ''s3:GetLifecycleConfiguration''),
     (''GetBucketLocation'', ''s3:GetBucketLocation''),
     (''GetBucketLogging'', ''s3:GetBucketLogging''),
     (''GetBucketNotification'', ''s3:GetBucketNotification''),
     (''GetBucketNotificationConfiguration'', ''s3:GetBucketNotification''),
     (''GetBucketPolicy'', ''s3:GetBucketPolicy''),
     (''GetBucketReplication'', ''s3:GetReplicationConfiguration''),
     (''GetBucketRequestPayment'', ''s3:GetBucketRequestPayment''),
     (''GetBucketTagging'', ''s3:GetBucketTagging''),
     (''GetBucketVersioning'', ''s3:GetBucketVersioning''),
     (''GetBucketWebsite'', ''s3:GetBucketWebsite''),
     (''GetObject'', ''s3:GetObject''),
     (''GetObjectAcl'', ''s3:GetObjectAcl''),
     (''GetObjectTagging'', ''s3:GetObjectTagging''),
     (''GetObjectVersion'', ''s3:GetObjectVersion''),
     (''HeadBucket'', ''s3:ListBucket''),
     (''HeadObject'', ''s3:GetObject''),
     (''ListBucket'', ''s3:ListBucket''),
     (''ListBuckets'', ''s3:ListAllMyBuckets''),
     (''ListMultipartUploads'', ''s3:ListBucketMultipartUploads''),
     (''ListObjects'', ''s3:ListBucket''),
     (''ListObjectsV2'', ''s3:ListBucket''),
     (''ListObjectVersions'', ''s3:ListBucketVersions''),
     (''ListParts'', ''s3:ListMultipartUploadParts''),
     (''PutBucketAcl'', ''s3:PutBucketAcl''),
     (''PutBucketCors'', ''s3:PutBucketCORS''),
     (''PutBucketEncryption'', ''s3:PutEncryptionConfiguration''),
     (''PutBucketLifecycle'', ''s3:PutLifecycleConfiguration''),
     (''PutBucketLifecycleConfiguration'', ''s3:PutLifecycleConfiguration''),
     (''PutBucketLogging'', ''s3:PutBucketLogging''),
     (''PutBucketNotification'', ''s3:PutBucketNotification''),
     (''PutBucketNotificationConfiguration'', ''s3:PutBucketNotification''),
     (''PutBucketPolicy'', ''s3:PutBucketPolicy''),
     (''PutBucketReplication'', ''s3:PutReplicationConfiguration''),
     (''PutBucketRequestPayment'', ''s3:PutBucketRequestPayment''),
     (''PutBucketTagging'', ''s3:PutBucketTagging''),
     (''PutBucketVersioning'', ''s3:PutBucketVersioning''),
     (''PutBucketWebsite'', ''s3:PutBucketWebsite''),
     (''PutObject'', ''s3:PutObject''),
     (''PutObjectAcl'', ''s3:PutObjectAcl''),
     (''PutObjectTagging'', ''s3:PutObjectTagging''),
     (''RestoreObject'', ''s3:RestoreObject''),
     (''UploadPart'', ''s3:PutObject''),
     (''UploadPartCopy'', ''s3:PutObject'')]"

definition op_to_action :: "string \<Rightarrow> string" where
  "op_to_action op_name = (case map_of action_table op_name of Some a \<Rightarrow> a | None \<Rightarrow> ''s3:*'')"

section \<open>The access hook\<close>

datatype s3_path = RootPath | BucketPath string | ObjectPath string string

datatype access_error = ServiceUnavailable | AccessDenied

text \<open>
  \<open>check\<close> of \<open>src/s3_access.rs\<close>.  What it asks of the rest of the server is passed
  in: whether the cluster fences the data plane, the request path, the caller's access
  key if it is authenticated, the policy value of the bucket settings (\<open>None\<close> for a
  bucket whose settings cannot be read) and the name of the operation.
\<close>

definition access_check ::
  "string \<Rightarrow> bool \<Rightarrow> s3_path \<Rightarrow> string option \<Rightarrow> (string \<Rightarrow> json option option) \<Rightarrow> string \<Rightarrow> access_error + unit" where
  "access_check owner_access_key blocks_data_plane path creds bucket_policy op_name =
     (if blocks_data_plane then Inl ServiceUnavailable
      else (case (case path of ObjectPath b k \<Rightarrow> Some (b, Some k)
                  | BucketPath b \<Rightarrow> Some (b, None) | RootPath \<Rightarrow> None) of
        None \<Rightarrow> Inr ()
      | Some (bucket, key_opt) \<Rightarrow>
          (let access_key = (case creds of Some k \<Rightarrow> k | None \<Rightarrow> []);
               is_owner = (if owner_access_key = [] then True
                           else access_key \<noteq> [] \<and> access_key = owner_access_key)
           in (case bucket_policy bucket of
                 None \<Rightarrow> Inr ()
               | Some None \<Rightarrow> Inr ()
               | Some (Some v) \<Rightarrow>
                   if v = JNull then Inr ()
                   else (case from_json v of
                           None \<Rightarrow> Inl AccessDenied
                         | Some p \<Rightarrow>
                             if is_allowed p \<lparr> args_bucket = bucket, args_key = key_opt,
                                  args_action = op_to_action op_name, args_access_key = access_key,
                                  args_is_owner = is_owner \<rparr>
                             then Inr () else Inl AccessDenied)))))"

section \<open>What the evaluator decides\<close>

definition denies :: "policy \<Rightarrow> args \<Rightarrow> bool" where
  "denies p a = list_ex (\<lambda>s. stmt_matches s a (args_resource a) \<and> effect s = Deny) (statements p)"

definition grants :: "policy \<Rightarrow> args \<Rightarrow> bool" where
  "grants p a = list_ex (\<lambda>s. stmt_matches s a (args_resource a) \<and> effect s = Allow) (statements p)"

lemma eval_statements_iff:
  "eval_statements ss a res allow \<longleftrightarrow>
     \<not> list_ex (\<lambda>s. stmt_matches s a res \<and> effect s = Deny) ss \<and>
     (allow \<or> list_ex (\<lambda>s. stmt_matches s a res \<and> effect s = Allow) ss \<or> args_is_owner a)"
  by (induction ss a res allow rule: eval_statements.induct) (auto split: effect.splits)

lemma is_allowed_eq: "is_allowed p a \<longleftrightarrow> \<not> denies p a \<and> (grants p a \<or> args_is_owner a)"
  by (auto simp: is_allowed_def eval_statements_iff denies_def grants_def)

text \<open>A request is allowed exactly when no matching statement denies it and either a
  matching statement allows it or the caller is the owner; in particular the order of the
  statements is irrelevant, an explicit deny beats the owner, and nobody else is let in by
  default.\<close>

theorem is_allowed_iff:
  "is_allowed p a \<longleftrightarrow>
     (\<nexists>s. s \<in> set (statements p) \<and> stmt_matches s a (args_resource a) \<and> effect s = Deny) \<and>
     ((\<exists>s. s \<in> set (statements p) \<and> stmt_matches s a (args_resource a) \<and> effect s = Allow)
      \<or> args_is_owner a)"
  by (auto simp: is_allowed_eq denies_def grants_def list_ex_iff)

section \<open>Matching statements\<close>

text \<open>What a statement says, with the declarative meaning of its patterns.\<close>

definition covers :: "statement \<Rightarrow> string \<Rightarrow> string \<Rightarrow> string \<Rightarrow> bool" where
  "covers s who act res \<longleftrightarrow>
     condition s = None
     \<and> (case principal s of
           Anyone \<Rightarrow> True
         | Aws ps \<Rightarrow> \<exists>e \<in> set ps. e = ''*'' \<or> e = who \<or> (\<exists>pre. e = pre @ ''/'' @ who \<and> CHR ''/'' \<notin> set who))
     \<and> (\<exists>pat \<in> set (action s). glob pat act)
     \<and> (\<exists>pat \<in> set (resource s). glob pat res)"

lemma rsplit_tail_split: "CHR ''/'' \<in> set e \<Longrightarrow> \<exists>pre. e = pre @ CHR ''/'' # rsplit_tail (CHR ''/'') e"
proof -
  assume "CHR ''/'' \<in> set e"
  then have "dropWhile (\<lambda>x. x \<noteq> CHR ''/'') (rev e) \<noteq> []" by simp
  then obtain b y where b: "dropWhile (\<lambda>x. x \<noteq> CHR ''/'') (rev e) = CHR ''/'' # y"
    using hd_dropWhile [of "\<lambda>x. x \<noteq> CHR ''/''" "rev e"]
    by (metis list.exhaust_sel)
  have "rev e = takeWhile (\<lambda>x. x \<noteq> CHR ''/'') (rev e) @ CHR ''/'' # y"
    using b takeWhile_dropWhile_id [of "\<lambda>x. x \<noteq> CHR ''/''" "rev e"] by metis
  then have "e = rev (takeWhile (\<lambda>x. x \<noteq> CHR ''/'') (rev e) @ CHR ''/'' # y)"
    by (metis rev_rev_ident)
  then show ?thesis unfolding rsplit_tail_def by auto
qed

lemma rsplit_tail_no_sep: "c \<notin> set e \<Longrightarrow> rsplit_tail c e = e"
  by (simp add: rsplit_tail_def rev_swap takeWhile_eq_all_conv) blast

lemma set_rsplit_tail: "c \<notin> set (rsplit_tail c e)"
  by (auto simp: rsplit_tail_def dest: set_takeWhileD)

lemma rsplit_tail_append: "c \<notin> set t \<Longrightarrow> rsplit_tail c (pre @ c # t) = t"
  using rsplit_tail_no_sep [of c t] by (simp add: rsplit_tail_def takeWhile_tail)

lemma principal_entry_matches_iff:
  "principal_entry_matches e who \<longleftrightarrow>
     e = ''*'' \<or> e = who \<or> (\<exists>pre. e = pre @ ''/'' @ who \<and> CHR ''/'' \<notin> set who)"
proof (cases "CHR ''/'' \<in> set e")
  case True
  show ?thesis
    using rsplit_tail_split [OF True] set_rsplit_tail [of "CHR ''/''" e]
    by (auto simp: principal_entry_matches_def rsplit_tail_append)
next
  case False
  then show ?thesis by (auto simp: principal_entry_matches_def rsplit_tail_no_sep)
qed

lemma stmt_matches_covers:
  assumes "CHR ''*'' \<notin> set (args_action a)" and "CHR ''*'' \<notin> set res"
  shows "stmt_matches s a res \<longleftrightarrow> covers s (args_access_key a) (args_action a) res"
  using assms
  by (auto simp: stmt_matches_def covers_def principal_matches_def list_ex_iff
        principal_entry_matches_iff glob_match_iff split: principal.splits)

section \<open>The access hook, end to end\<close>

lemma action_table_star_free: "list_all (\<lambda>(op, act). CHR ''*'' \<notin> set act) action_table"
  by (simp add: action_table_def)

lemma op_to_action_known:
  assumes "map_of action_table op = Some act"
  shows "op_to_action op = act" and "CHR ''*'' \<notin> set act"
  using assms action_table_star_free
  by (auto simp: op_to_action_def list_all_iff dest: map_of_SomeD)


definition public_read :: json where
  "public_read = JObject [(''Version'', JString ''2012-10-17''),
     (''Statement'', JArray [JObject [(''Effect'', JString ''Allow''), (''Principal'', JString ''*''),
        (''Action'', JString ''s3:GetObject''), (''Resource'', JString ''arn:aws:s3:::pub/*'')]])]"



end
