(* ===== verification/Placement.thy ===== *)
theory Placement
  imports Prelude "HOL-Library.Multiset" "HOL-Library.List_Lexorder" "HOL-Library.Char_ord"
begin

text \<open>
  The planner that spreads the shards of an object over the volumes of the cluster
  (\<open>src/cluster/placement.rs\<close>).  The hash that orders nodes and volumes (hex of
  SHA-256) is a parameter; nothing but its being a function is used.
\<close>

section \<open>The planner\<close>

record placement_volume =
  pv_backend_index :: nat
  pv_node_id :: string
  pv_volume_id :: string

record placement_shard =
  ps_index :: nat
  ps_backend_index :: nat
  ps_node_id :: string
  ps_volume_id :: string

record placement_record =
  pr_epoch_id :: u64
  pr_cluster_id :: string
  pr_data :: nat
  pr_parity :: nat
  pr_shards :: "placement_shard list"

record placement_planner =
  pp_epoch_id :: u64
  pp_cluster_id :: string
  pp_disks :: "placement_volume list"

datatype place_error = NoDataShards | NoShards | NeedDisks nat nat | UnableToPlace nat nat

definition stable_order :: "(string \<Rightarrow> string) \<Rightarrow> 'a list \<Rightarrow> ('a \<Rightarrow> string) \<Rightarrow> 'a list" where
  "stable_order hash_hex items salt_for = sort_key (\<lambda>item. hash_hex (salt_for item)) items"

definition per_node_push ::
  "placement_volume \<Rightarrow> (string, placement_volume list) btree \<Rightarrow> (string, placement_volume list) btree" where
  "per_node_push d m = bt_insert (pv_node_id d)
     ((case map_of m (pv_node_id d) of Some ds \<Rightarrow> ds | None \<Rightarrow> []) @ [d]) m"

fun place_round ::
  "nat \<Rightarrow> nat \<Rightarrow> string list \<Rightarrow> (string, placement_volume list) btree
   \<Rightarrow> placement_volume list \<Rightarrow> bool \<Rightarrow> placement_volume list \<times> bool" where
  "place_round tot rnd [] ordered_disks chosen placed = (chosen, placed)"
| "place_round tot rnd (node_id # nodes) ordered_disks chosen placed =
     (case map_of ordered_disks node_id of
        None \<Rightarrow> place_round tot rnd nodes ordered_disks chosen placed
      | Some disks \<Rightarrow>
          if rnd < length disks then
            (let chosen' = chosen @ [disks ! rnd] in
             if length chosen' = tot then (chosen', True)
             else place_round tot rnd nodes ordered_disks chosen' True)
          else place_round tot rnd nodes ordered_disks chosen placed)"

lemma place_round_grows:
  "place_round tot r ns od ch b = (ch', b') \<Longrightarrow> length ch \<le> length ch' \<and> (b' \<longrightarrow> b \<or> length ch < length ch')"
  by (induction tot r ns od ch b rule: place_round.induct)
    (fastforce simp: Let_def split: option.splits if_splits)+

function place_loop ::
  "nat \<Rightarrow> nat \<Rightarrow> string list \<Rightarrow> (string, placement_volume list) btree
   \<Rightarrow> placement_volume list \<Rightarrow> placement_volume list" where
  "place_loop tot rnd nodes ordered_disks chosen =
     (if length chosen < tot then
        (case place_round tot rnd nodes ordered_disks chosen False of
           (chosen', placed) \<Rightarrow>
             if \<not> placed then chosen'
             else place_loop tot (Suc rnd) nodes ordered_disks chosen')
      else chosen)"
  by pat_completeness auto
termination
proof (relation "measure (\<lambda>(tot, r, ns, od, ch). tot - length ch)", goal_cases)
  case (2 tot r ns od ch ch' b)
  then show ?case using place_round_grows [of tot r ns od ch False ch' b] by auto
qed simp

declare place_loop.simps [simp del]

definition plan ::
  "(string \<Rightarrow> string) \<Rightarrow> placement_planner \<Rightarrow> string \<Rightarrow> string \<Rightarrow> nat \<Rightarrow> nat \<Rightarrow> place_error + placement_record" where
  "plan hash_hex self bucket key data parity =
     (if data = 0 then Inl NoDataShards
      else let tot = data + parity in
      if tot = 0 then Inl NoShards
      else if tot > length (pp_disks self) then Inl (NeedDisks tot (length (pp_disks self)))
      else
        let key_material = show_nat (unat (pp_epoch_id self)) @ '':'' @ pp_cluster_id self @ '':'' @ bucket @ ''/'' @ key;
            per_node = fold per_node_push (pp_disks self) [];
            ordered_nodes = stable_order hash_hex (map fst per_node) (\<lambda>n. ''node:'' @ key_material @ '':'' @ n);
            ordered_disks = fold (\<lambda>(n, ds) m. bt_insert n
               (stable_order hash_hex ds (\<lambda>d. ''disk:'' @ key_material @ '':'' @ pv_volume_id d)) m) per_node [];
            chosen = place_loop tot 0 ordered_nodes ordered_disks []
        in if length chosen \<noteq> tot then Inl (UnableToPlace tot (length (pp_disks self)))
           else Inr \<lparr> pr_epoch_id = pp_epoch_id self, pr_cluster_id = pp_cluster_id self,
                  pr_data = data, pr_parity = parity,
                  pr_shards = map (\<lambda>(i, d). \<lparr> ps_index = i, ps_backend_index = pv_backend_index d,
                     ps_node_id = pv_node_id d, ps_volume_id = pv_volume_id d \<rparr>) (enumerate 0 chosen) \<rparr>)"

section \<open>The loop takes whole rounds\<close>

definition vols :: "(string, placement_volume list) btree \<Rightarrow> string \<Rightarrow> placement_volume list" where
  "vols od n = (case map_of od n of Some ds \<Rightarrow> ds | None \<Rightarrow> [])"

definition round_of :: "(string, placement_volume list) btree \<Rightarrow> string list \<Rightarrow> nat \<Rightarrow> placement_volume list" where
  "round_of od ns r = map (\<lambda>n. vols od n ! r) (filter (\<lambda>n. r < length (vols od n)) ns)"

definition rounds :: "(string, placement_volume list) btree \<Rightarrow> string list \<Rightarrow> nat \<Rightarrow> nat \<Rightarrow> placement_volume list" where
  "rounds od ns r R = concat (map (round_of od ns) [r..<R])"

lemma place_round_eq:
  "length ch < tot \<Longrightarrow>
   place_round tot r ns od ch b = (take tot (ch @ round_of od ns r), b \<or> round_of od ns r \<noteq> [])"
proof (induction tot r ns od ch b rule: place_round.induct)
  case (2 tot r n ns od ch b)
  then show ?case
    by (auto simp: Let_def round_of_def vols_def split: option.splits)
qed (simp add: round_of_def)

lemma round_of_empty: "round_of od ns r = [] \<Longrightarrow> r \<le> r' \<Longrightarrow> round_of od ns r' = []"
  by (auto simp: round_of_def filter_empty_conv dest!: bspec)

lemma take_take_append: "take n (take n xs @ ys) = take n (xs @ ys)"
  by (cases "length xs \<le> n") simp_all

lemma place_loop_eq:
  assumes "length ch \<le> tot" and "\<forall>n \<in> set ns. length (vols od n) \<le> R"
  shows "place_loop tot r ns od ch = take tot (ch @ rounds od ns r R)"
  using assms
proof (induction tot r ns od ch rule: place_loop.induct)
  case (1 tot r ns od ch)
  note step = place_loop.simps [of tot r ns od ch]
  consider (full) "length ch = tot" | (none) "length ch < tot" "round_of od ns r = []"
    | (more) "length ch < tot" "round_of od ns r \<noteq> []"
    using 1(2) by fastforce
  then show ?case
  proof cases
    case full
    then show ?thesis by (simp add: step)
  next
    case none
    have "round_of od ns q = []" if "q \<in> set [r..<R]" for q
      using that round_of_empty [OF none(2), of q] by simp
    then have "rounds od ns r R = []" by (simp add: rounds_def)
    with none show ?thesis by (simp add: step place_round_eq)
  next
    case more
    from more(2) 1(3) have "r < R" by (fastforce simp: round_of_def filter_empty_conv)
    then have split: "rounds od ns r R = round_of od ns r @ rounds od ns (Suc r) R"
      by (simp add: rounds_def upt_conv_Cons)
    have "place_loop tot (Suc r) ns od (take tot (ch @ round_of od ns r))
        = take tot (take tot (ch @ round_of od ns r) @ rounds od ns (Suc r) R)"
      using more 1(3) by (intro 1(1)) (auto simp: place_round_eq)
    also have "\<dots> = take tot (ch @ rounds od ns r R)"
      unfolding take_take_append by (simp add: split)
    finally show ?thesis
      using more by (simp add: step place_round_eq del: take_append)
  qed
qed

section \<open>What the rounds hold\<close>

definition own_volumes :: "(string, placement_volume list) btree \<Rightarrow> bool" where
  "own_volumes od \<longleftrightarrow> (\<forall>n. \<forall>d \<in> set (vols od n). pv_node_id d = n)"

definition on_node :: "string \<Rightarrow> placement_volume list \<Rightarrow> nat" where
  "on_node n xs = length (filter (\<lambda>d. pv_node_id d = n) xs)"

lemma on_node_append [simp]: "on_node n (xs @ ys) = on_node n xs + on_node n ys"
  by (simp add: on_node_def)

lemma on_node_take_le: "on_node n (take k xs) \<le> on_node n xs"
  by (metis append_take_drop_id le_add1 on_node_append)

lemma on_node_round:
  assumes "own_volumes od" and "distinct ns" and "n \<in> set ns"
  shows "on_node n (round_of od ns r) = (if r < length (vols od n) then 1 else 0)"
proof -
  have own: "pv_node_id (vols od m ! r) = m" if "r < length (vols od m)" for m
    using assms(1) that by (auto simp: own_volumes_def)
  have "on_node n (round_of od ns r) = length (filter (\<lambda>m. m = n \<and> r < length (vols od m)) ns)"
    by (auto simp: on_node_def round_of_def filter_map comp_def own intro!: arg_cong [of _ _ length] filter_cong)
  also have "filter (\<lambda>m. m = n \<and> r < length (vols od m)) ns = (if r < length (vols od n) then filter (\<lambda>m. m = n) ns else [])"
    by (auto simp: filter_empty_conv intro: filter_cong)
  also have "filter (\<lambda>m. m = n) ns = [n]"
    using assms(2,3) by (induction ns) (auto simp: filter_empty_conv)
  finally show ?thesis by simp
qed

lemma on_node_rounds:
  assumes "own_volumes od" and "distinct ns" and "n \<in> set ns"
  shows "on_node n (rounds od ns 0 R) = min R (length (vols od n))"
  by (induction R) (auto simp: rounds_def on_node_round [OF assms], simp add: on_node_def)

lemma take_concat_upt:
  "\<exists>r k. r \<le> R \<and> take t (concat (map f [0..<R])) = concat (map f [0..<r]) @ take k (f r)"
proof (induction R)
  case 0
  then show ?case by (auto intro: exI [of _ 0])
next
  case (Suc R)
  show ?case
  proof (cases "t \<le> length (concat (map f [0..<R]))")
    case True
    then have "take t (concat (map f [0..<Suc R])) = take t (concat (map f [0..<R]))" by simp
    with Suc show ?thesis by (metis le_SucI)
  next
    case False
    then have "take t (concat (map f [0..<Suc R])) = concat (map f [0..<R]) @ take (t - length (concat (map f [0..<R]))) (f R)"
      by simp
    then show ?thesis by (metis le_SucI order_refl)
  qed
qed

text \<open>No node is asked for a second volume more than any node that still has one to give.\<close>

lemma rounds_balanced:
  assumes od: "own_volumes od" "distinct ns" and n: "n \<in> set ns" and m: "m \<in> set ns"
    and spare: "on_node m (take t (rounds od ns 0 R)) < min R (length (vols od m))"
  shows "on_node n (take t (rounds od ns 0 R)) \<le> Suc (on_node m (take t (rounds od ns 0 R)))"
proof -
  obtain r k where rk: "take t (rounds od ns 0 R) = rounds od ns 0 r @ take k (round_of od ns r)"
    using take_concat_upt [of R t "round_of od ns"] by (auto simp: rounds_def)
  have "min r (length (vols od m)) \<le> on_node m (take t (rounds od ns 0 R))"
    by (simp add: rk on_node_rounds [OF od m])
  with spare have "r \<le> on_node m (take t (rounds od ns 0 R))" by linarith
  moreover have "on_node n (take t (rounds od ns 0 R)) \<le> Suc r"
    using on_node_take_le [of n k "round_of od ns r"]
    by (simp add: rk on_node_rounds [OF od n] on_node_round [OF od n] split: if_splits)
  ultimately show ?thesis by linarith
qed

lemma mset_round: "mset (round_of od ns r) = (\<Sum>n\<leftarrow>ns. if r < length (vols od n) then {#vols od n ! r#} else {#})"
  by (induction ns) (auto simp: round_of_def)

lemma mset_rounds: "mset (rounds od ns 0 R) = (\<Sum>n\<leftarrow>ns. mset (take R (vols od n)))"
proof (induction R)
  case 0
  then show ?case by (induction ns) (simp_all add: rounds_def)
next
  case (Suc R)
  have "mset (rounds od ns 0 (Suc R)) = mset (rounds od ns 0 R) + mset (round_of od ns R)"
    by (simp add: rounds_def)
  also have "\<dots> = (\<Sum>n\<leftarrow>ns. mset (take R (vols od n)) + (if R < length (vols od n) then {#vols od n ! R#} else {#}))"
    by (simp add: Suc mset_round sum_list_addf)
  also have "\<dots> = (\<Sum>n\<leftarrow>ns. mset (take (Suc R) (vols od n)))"
    by (rule arg_cong [of _ _ sum_list], rule map_cong) (auto simp: take_Suc_conv_app_nth)
  finally show ?case .
qed

lemma sum_filter_keys:
  "distinct ks \<Longrightarrow> f ` set xs \<subseteq> set ks \<Longrightarrow> (\<Sum>k\<leftarrow>ks. mset (filter (\<lambda>x. f x = k) xs)) = mset xs"
proof (induction xs)
  case (Cons x xs)
  have split: "mset (filter (\<lambda>y. f y = k) (x # xs)) = (if k = f x then {#x#} else {#}) + mset (filter (\<lambda>y. f y = k) xs)" for k
    by simp
  have "(\<Sum>k\<leftarrow>ks. if k = f x then {#x#} else {#}) = {#x#}"
    using Cons.prems by (simp add: sum_list_distinct_conv_sum_set)
  with Cons show ?case unfolding split by (simp add: sum_list_addf)
qed (induction ks, simp_all)

section \<open>The maps the planner builds\<close>

lemma per_node_push_simps:
  "map_of (per_node_push d m) n = (if n = pv_node_id d
     then Some ((case map_of m n of Some ds \<Rightarrow> ds | None \<Rightarrow> []) @ [d]) else map_of m n)"
  "bt_ok m \<Longrightarrow> bt_ok (per_node_push d m)"
  "fst ` set (per_node_push d m) = insert (pv_node_id d) (fst ` set m)"
  by (auto simp: per_node_push_def bt_simps bt_insert_keys)

lemma per_node_lookup:
  "map_of (fold per_node_push ds m) n = (case filter (\<lambda>d. pv_node_id d = n) ds of
      [] \<Rightarrow> map_of m n
    | xs \<Rightarrow> Some ((case map_of m n of Some ys \<Rightarrow> ys | None \<Rightarrow> []) @ xs))"
proof (induction ds arbitrary: m)
  case (Cons d ds)
  show ?case
    by (auto simp: Cons.IH per_node_push_simps split: list.splits option.splits)
qed simp

lemma per_node_ok: "bt_ok m \<Longrightarrow> bt_ok (fold per_node_push ds m)"
  by (induction ds arbitrary: m) (auto simp: per_node_push_simps)

lemma per_node_keys: "fst ` set (fold per_node_push ds m) = pv_node_id ` set ds \<union> fst ` set m"
  by (induction ds arbitrary: m) (auto simp: per_node_push_simps)

lemma reinsert_lookup:
  "distinct (map fst xs) \<Longrightarrow>
   map_of (fold (\<lambda>(n, ds). bt_insert n (f n ds)) xs m) k
     = (case map_of xs k of Some ds \<Rightarrow> Some (f k ds) | None \<Rightarrow> map_of m k)"
proof (induction xs arbitrary: m)
  case (Cons x xs)
  obtain n ds where x: "x = (n, ds)" by fastforce
  from Cons.prems x have "map_of xs n = None" by (simp add: map_of_eq_None_iff)
  with Cons x show ?case by (auto simp: bt_simps split: option.splits)
qed simp

definition chosen_disks :: "(string \<Rightarrow> string) \<Rightarrow> placement_volume list \<Rightarrow> string \<Rightarrow> nat \<Rightarrow> placement_volume list" where
  "chosen_disks h disks km tot =
     (let per_node = fold per_node_push disks [];
          nodes = stable_order h (map fst per_node) (\<lambda>n. ''node:'' @ km @ '':'' @ n);
          od = fold (\<lambda>(n, ds). bt_insert n (stable_order h ds (\<lambda>d. ''disk:'' @ km @ '':'' @ pv_volume_id d))) per_node []
      in place_loop tot 0 nodes od [])"

text \<open>The planner's choice is a prefix of the rounds over a faithful regrouping of the disks.\<close>

lemma chosen_disks_rounds:
  obtains od ns R where
    "\<And>tot. chosen_disks h disks km tot = take tot (rounds od ns 0 R)"
    "distinct ns" "set ns = pv_node_id ` set disks" "own_volumes od"
    "\<And>n. mset (vols od n) = mset (filter (\<lambda>d. pv_node_id d = n) disks)"
    "\<And>n. length (vols od n) \<le> R"
proof -
  define per where "per = fold per_node_push disks []"
  define ns where "ns = stable_order h (map fst per) (\<lambda>n. ''node:'' @ km @ '':'' @ n)"
  define ord where "ord = (\<lambda>ds :: placement_volume list. stable_order h ds (\<lambda>d. ''disk:'' @ km @ '':'' @ pv_volume_id d))"
  define od where "od = fold (\<lambda>(n, ds). bt_insert n (ord ds)) per []"
  have dist: "distinct (map fst per)"
    unfolding per_def by (intro bt_ok_distinct per_node_ok) simp
  have per: "map_of per n = (case filter (\<lambda>d. pv_node_id d = n) disks of [] \<Rightarrow> None | xs \<Rightarrow> Some xs)" for n
    by (simp add: per_def per_node_lookup split: list.splits)
  have "vols od n = ord (filter (\<lambda>d. pv_node_id d = n) disks)" for n
    unfolding vols_def od_def reinsert_lookup [OF dist] per
    by (simp add: ord_def stable_order_def split: list.splits)
  then have vols: "mset (vols od n) = mset (filter (\<lambda>d. pv_node_id d = n) disks)" for n
    by (simp add: ord_def stable_order_def)
  then have len: "length (vols od n) \<le> length disks" for n
    by (metis length_filter_le size_mset)
  have own: "own_volumes od"
    unfolding own_volumes_def using mset_eq_setD [OF vols] by auto
  have "distinct ns" "set ns = pv_node_id ` set disks"
    using dist per_node_keys [of disks "[]"] by (auto simp: ns_def stable_order_def per_def)
  moreover have "chosen_disks h disks km tot = take tot (rounds od ns 0 (length disks))" for tot
    using place_loop_eq [of "[]" tot ns od "length disks" 0] len
    by (simp add: chosen_disks_def ns_def od_def ord_def per_def Let_def)
  ultimately show thesis using that own vols len by blast
qed

lemma chosen_disks_subset: "mset (chosen_disks h disks km tot) \<subseteq># mset disks"
  and length_chosen_disks: "length (chosen_disks h disks km tot) = min tot (length disks)"
proof -
  obtain od ns R where ch: "\<And>tot. chosen_disks h disks km tot = take tot (rounds od ns 0 R)"
    and ns: "distinct ns" "set ns = pv_node_id ` set disks"
    and vols: "\<And>n. mset (vols od n) = mset (filter (\<lambda>d. pv_node_id d = n) disks)"
    and R: "\<And>n. length (vols od n) \<le> R"
    using chosen_disks_rounds [of h disks km] by metis
  have all: "mset (rounds od ns 0 R) = mset disks"
    using sum_filter_keys [of ns pv_node_id disks] ns by (simp add: mset_rounds R vols)
  then show "mset (chosen_disks h disks km tot) \<subseteq># mset disks"
    unfolding ch by (metis append_take_drop_id mset_append mset_subset_eq_add_left)
  have "length (rounds od ns 0 R) = length disks" using all by (rule mset_eq_length)
  then show "length (chosen_disks h disks km tot) = min tot (length disks)"
    by (simp add: ch min.commute)
qed

lemma chosen_disks_balanced:
  assumes "n \<in> pv_node_id ` set disks" and "m \<in> pv_node_id ` set disks"
    and spare: "on_node m (chosen_disks h disks km tot) < on_node m disks"
  shows "on_node n (chosen_disks h disks km tot) \<le> Suc (on_node m (chosen_disks h disks km tot))"
proof -
  obtain od ns R where ch: "\<And>tot. chosen_disks h disks km tot = take tot (rounds od ns 0 R)"
    and ns: "distinct ns" "set ns = pv_node_id ` set disks" and own: "own_volumes od"
    and vols: "\<And>n. mset (vols od n) = mset (filter (\<lambda>d. pv_node_id d = n) disks)"
    and R: "\<And>n. length (vols od n) \<le> R"
    using chosen_disks_rounds [of h disks km] by metis
  have "on_node m disks = min R (length (vols od m))"
    using mset_eq_length [OF vols [of m]] R [of m] by (simp add: on_node_def)
  with rounds_balanced [OF own ns(1), of n m tot R] assms ns(2) show ?thesis
    by (simp add: ch)
qed

section \<open>What a plan promises\<close>

definition plan_key :: "placement_planner \<Rightarrow> string \<Rightarrow> string \<Rightarrow> string" where
  "plan_key self bucket key =
     show_nat (unat (pp_epoch_id self)) @ '':'' @ pp_cluster_id self @ '':'' @ bucket @ ''/'' @ key"

definition shard_for :: "nat \<Rightarrow> placement_volume \<Rightarrow> placement_shard" where
  "shard_for i d = \<lparr> ps_index = i, ps_backend_index = pv_backend_index d,
     ps_node_id = pv_node_id d, ps_volume_id = pv_volume_id d \<rparr>"

lemma shard_for_sel [simp]:
  "ps_index (shard_for i d) = i" "ps_backend_index (shard_for i d) = pv_backend_index d"
  "ps_node_id (shard_for i d) = pv_node_id d" "ps_volume_id (shard_for i d) = pv_volume_id d"
  by (simp_all add: shard_for_def)

lemma plan_eq:
  "plan h self bucket key data parity =
     (if data = 0 then Inl NoDataShards
      else if data + parity > length (pp_disks self) then Inl (NeedDisks (data + parity) (length (pp_disks self)))
      else Inr \<lparr> pr_epoch_id = pp_epoch_id self, pr_cluster_id = pp_cluster_id self,
                 pr_data = data, pr_parity = parity,
                 pr_shards = map (\<lambda>(i, d). shard_for i d)
                   (enumerate 0 (chosen_disks h (pp_disks self) (plan_key self bucket key) (data + parity))) \<rparr>)"
  using length_chosen_disks [of h "pp_disks self" "plan_key self bucket key" "data + parity"]
  by (simp add: plan_def Let_def plan_key_def chosen_disks_def shard_for_def min_def case_prod_unfold)

lemma map_enumerate_index: "map (\<lambda>p. f (fst p)) (enumerate n xs) = map f [n..<n + length xs]"
  and map_enumerate_value: "map (\<lambda>p. g (snd p)) (enumerate n xs) = map g xs"
  by (induction xs arbitrary: n) (simp_all add: upt_conv_Cons del: upt_Suc)

lemma plan_shards_map:
  assumes "plan h self bucket key data parity = Inr r"
  shows "map ps_index (pr_shards r) = [0..<data + parity]"
    and "map (\<lambda>s. f (ps_backend_index s) (ps_node_id s) (ps_volume_id s)) (pr_shards r) =
      map (\<lambda>d. f (pv_backend_index d) (pv_node_id d) (pv_volume_id d))
        (chosen_disks h (pp_disks self) (plan_key self bucket key) (data + parity))"
  using assms map_enumerate_index [of "\<lambda>i. i"]
    map_enumerate_value [of "\<lambda>d. f (pv_backend_index d) (pv_node_id d) (pv_volume_id d)"]
  by (auto simp: plan_eq comp_def case_prod_unfold length_chosen_disks split: if_splits)

text \<open>C34: planning succeeds exactly when at least one data shard is asked for and the
  cluster has as many volumes as shards: the loop over the nodes never ends early, whatever
  the hash, and the two other error returns of the function are unreachable.\<close>

theorem plan_succeeds_iff:
  "(\<exists>r. plan h self bucket key data parity = Inr r) \<longleftrightarrow> 1 \<le> data \<and> data + parity \<le> length (pp_disks self)"
  by (auto simp: plan_eq)

definition two_node_planner :: placement_planner where
  "two_node_planner = \<lparr> pp_epoch_id = 1, pp_cluster_id = ''c'', pp_disks =
     [\<lparr> pv_backend_index = 0, pv_node_id = ''a'', pv_volume_id = ''v0'' \<rparr>,
      \<lparr> pv_backend_index = 1, pv_node_id = ''a'', pv_volume_id = ''v1'' \<rparr>,
      \<lparr> pv_backend_index = 2, pv_node_id = ''b'', pv_volume_id = ''v2'' \<rparr>] \<rparr>"

lemma two_node_plan: "\<exists>r. plan id two_node_planner ''bk'' ''key'' 1 1 = Inr r"
  by (simp add: plan_eq two_node_planner_def)

text \<open>A plan has one shard per index, in order, and assigns the shards to different
  volumes of the cluster: as a collection, the volumes of the shards are volumes of the
  planner, each used at most once.\<close>

theorem plan_shards_distinct:
  assumes "plan h self bucket key data parity = Inr r"
  shows "map ps_index (pr_shards r) = [0..<data + parity]
    \<and> mset (map (\<lambda>s. (ps_backend_index s, ps_node_id s, ps_volume_id s)) (pr_shards r))
        \<subseteq># mset (map (\<lambda>d. (pv_backend_index d, pv_node_id d, pv_volume_id d)) (pp_disks self))"
  unfolding plan_shards_map(1) [OF assms] plan_shards_map(2) [OF assms, of "\<lambda>b n v. (b, n, v)"]
  using chosen_disks_subset [of h "pp_disks self"] by (auto simp: image_mset_subseteq_mono)

theorem plan_shards_distinct_witness:
  "\<exists>r. plan id two_node_planner ''bk'' ''key'' 1 1 = Inr r \<and> map ps_index (pr_shards r) = [0, 1]"
proof -
  obtain r where r: "plan id two_node_planner ''bk'' ''key'' 1 1 = Inr r" using two_node_plan by blast
  show ?thesis using plan_shards_distinct [OF r] r by simp
qed

definition shards_on :: "string \<Rightarrow> placement_record \<Rightarrow> nat" where
  "shards_on n r = length (filter (\<lambda>s. ps_node_id s = n) (pr_shards r))"

lemma shards_on_chosen:
  assumes "plan h self bucket key data parity = Inr r"
  shows "shards_on n r = on_node n (chosen_disks h (pp_disks self) (plan_key self bucket key) (data + parity))"
proof -
  have "length (filter ((=) n) (map ps_node_id (pr_shards r)))
      = length (filter ((=) n) (map pv_node_id (chosen_disks h (pp_disks self) (plan_key self bucket key) (data + parity))))"
    using plan_shards_map(2) [OF assms, of "\<lambda>b n v. n"] by simp
  then show ?thesis
    by (simp add: shards_on_def on_node_def filter_map comp_def eq_commute)
qed

lemma plan_node_fair:
  assumes "plan h self bucket key data parity = Inr r"
    and "n \<in> pv_node_id ` set (pp_disks self)" and "m \<in> pv_node_id ` set (pp_disks self)"
  shows "shards_on n r \<le> Suc (shards_on m r) \<or> on_node m (pp_disks self) \<le> shards_on m r"
  using chosen_disks_balanced [OF assms(2,3)] unfolding shards_on_chosen [OF assms(1)] by (meson not_le)

text \<open>Shards are spread evenly over the nodes: a node holds at most one shard more than
  any node that still has a volume without a shard.\<close>

theorem plan_balanced:
  assumes "plan h self bucket key data parity = Inr r"
    and "n \<in> pv_node_id ` set (pp_disks self)" and "m \<in> pv_node_id ` set (pp_disks self)"
  shows "shards_on n r \<le> Suc (shards_on m r) \<or> on_node m (pp_disks self) \<le> shards_on m r"
  using assms by (rule plan_node_fair)

theorem plan_balanced_witness:
  "\<exists>r. plan id two_node_planner ''bk'' ''key'' 1 1 = Inr r
     \<and> (shards_on ''a'' r \<le> Suc (shards_on ''b'' r) \<or> 1 \<le> shards_on ''b'' r)"
proof -
  obtain r where r: "plan id two_node_planner ''bk'' ''key'' 1 1 = Inr r" using two_node_plan by blast
  have "''a'' \<in> pv_node_id ` set (pp_disks two_node_planner)" "''b'' \<in> pv_node_id ` set (pp_disks two_node_planner)"
    "on_node ''b'' (pp_disks two_node_planner) = 1"
    by (simp_all add: two_node_planner_def on_node_def)
  then show ?thesis using plan_balanced [OF r, of "''a''" "''b''"] r by auto
qed

end
