(* ===== verification/Topology.thy ===== *)
theory Topology
  imports Placement
begin

text \<open>
  The static cluster topology: its validation, the volumes it offers to the planner and
  the checks of the local node against it (\<open>src/cluster/topology.rs\<close>).
\<close>

section \<open>Topology\<close>

record topology_volume =
  tv_volume_id :: string
  tv_path :: string

record topology_node =
  tn_node_id :: string
  tn_advertise_s3 :: string
  tn_advertise_cluster :: string
  tn_volumes :: "topology_volume list"

record static_topology =
  st_cluster_id :: string
  st_epoch_id :: u64
  st_nodes :: "topology_node list"

datatype topology_error = EmptyClusterId | ZeroEpoch | NoNodes | EmptyNodeId | DuplicateNodeId string
  | NoVolumes string | EmptyVolumeId | DuplicateVolumeId string | DuplicatePath string
  | NodeMissing string | DisksMismatch string

definition normalize_path :: "string \<Rightarrow> string" where
  "normalize_path path = map ascii_lower (map (\<lambda>c. if c = CHR 0x5C then CHR ''/'' else c) path)"

text \<open>The two nested loops of \<open>validate\<close>; the sets are its local variables.\<close>

fun validate_volumes ::
  "topology_volume list \<Rightarrow> string set \<Rightarrow> string set \<Rightarrow> topology_error + (string set \<times> string set)" where
  "validate_volumes [] vids paths = Inr (vids, paths)"
| "validate_volumes (d # ds) vids paths =
     (if is_blank (tv_volume_id d) then Inl EmptyVolumeId
      else if tv_volume_id d \<in> vids then Inl (DuplicateVolumeId (tv_volume_id d))
      else let path = normalize_path (tv_path d) in
        if path \<in> paths then Inl (DuplicatePath path)
        else validate_volumes ds (insert (tv_volume_id d) vids) (insert path paths))"

fun validate_nodes ::
  "topology_node list \<Rightarrow> string set \<Rightarrow> string set \<Rightarrow> string set \<Rightarrow> topology_error + unit" where
  "validate_nodes [] nids vids paths = Inr ()"
| "validate_nodes (n # ns) nids vids paths =
     (if is_blank (tn_node_id n) then Inl EmptyNodeId
      else if tn_node_id n \<in> nids then Inl (DuplicateNodeId (tn_node_id n))
      else if tn_volumes n = [] then Inl (NoVolumes (tn_node_id n))
      else res_bind (validate_volumes (tn_volumes n) vids paths)
             (\<lambda>(vids', paths'). validate_nodes ns (insert (tn_node_id n) nids) vids' paths'))"

definition validate :: "static_topology \<Rightarrow> topology_error + unit" where
  "validate t =
     (if is_blank (st_cluster_id t) then Inl EmptyClusterId
      else if st_epoch_id t = 0 then Inl ZeroEpoch
      else if st_nodes t = [] then Inl NoNodes
      else validate_nodes (st_nodes t) {} {} {})"

definition node :: "static_topology \<Rightarrow> string \<Rightarrow> topology_node option" where
  "node t node_id = find (\<lambda>n. tn_node_id n = node_id) (st_nodes t)"

definition peers_for :: "static_topology \<Rightarrow> string \<Rightarrow> string list" where
  "peers_for t node_id = map tn_advertise_cluster (filter (\<lambda>n. tn_node_id n \<noteq> node_id) (st_nodes t))"

definition validate_local_node :: "static_topology \<Rightarrow> string \<Rightarrow> string list \<Rightarrow> topology_error + unit" where
  "validate_local_node t node_id disk_paths = (case node t node_id of
      None \<Rightarrow> Inl (NodeMissing node_id)
    | Some n \<Rightarrow>
        if set (map (\<lambda>d. normalize_path (tv_path d)) (tn_volumes n)) \<noteq> set (map normalize_path disk_paths)
        then Inl (DisksMismatch node_id) else Inr ())"

text \<open>\<open>placement_volumes\<close>: the vector grows as its own length numbers the entries.\<close>

definition push_volume :: "topology_node \<Rightarrow> topology_volume \<Rightarrow> placement_volume list \<Rightarrow> placement_volume list" where
  "push_volume n d disks = disks @
     [\<lparr> pv_backend_index = length disks, pv_node_id = tn_node_id n, pv_volume_id = tv_volume_id d \<rparr>]"

definition placement_volumes :: "static_topology \<Rightarrow> placement_volume list" where
  "placement_volumes t = fold (\<lambda>n. fold (push_volume n) (tn_volumes n)) (st_nodes t) []"

section \<open>A validated topology\<close>

abbreviation vol_path :: "topology_volume \<Rightarrow> string" where
  "vol_path d \<equiv> normalize_path (tv_path d)"

definition topology_volumes :: "topology_node list \<Rightarrow> topology_volume list" where
  "topology_volumes ns = concat (map tn_volumes ns)"

lemma topology_volumes_simps [simp]:
  "topology_volumes [] = []" "topology_volumes (n # ns) = tn_volumes n @ topology_volumes ns"
  by (simp_all add: topology_volumes_def)

lemma validate_volumes_iff:
  "validate_volumes ds vids paths = Inr r \<longleftrightarrow>
     r = (set (map tv_volume_id ds) \<union> vids, set (map vol_path ds) \<union> paths)
     \<and> (\<forall>d \<in> set ds. \<not> is_blank (tv_volume_id d) \<and> tv_volume_id d \<notin> vids \<and> vol_path d \<notin> paths)
     \<and> distinct (map tv_volume_id ds) \<and> distinct (map vol_path ds)"
proof (induction ds arbitrary: vids paths)
  case (Cons d ds)
  show ?case by (simp add: Let_def Cons.IH image_iff ball_conj_distrib)
      (intro impI iffI; elim conjE; intro conjI; (assumption | fastforce))
qed auto

lemma validate_nodes_iff:
  "validate_nodes ns nids vids paths = Inr () \<longleftrightarrow>
     (\<forall>n \<in> set ns. \<not> is_blank (tn_node_id n) \<and> tn_volumes n \<noteq> [] \<and> tn_node_id n \<notin> nids)
     \<and> distinct (map tn_node_id ns)
     \<and> (\<forall>d \<in> set (topology_volumes ns).
          \<not> is_blank (tv_volume_id d) \<and> tv_volume_id d \<notin> vids \<and> vol_path d \<notin> paths)
     \<and> distinct (map tv_volume_id (topology_volumes ns))
     \<and> distinct (map vol_path (topology_volumes ns))"
proof (induction ns arbitrary: nids vids paths)
  case (Cons n ns)
  let ?v = "tv_volume_id ` set (tn_volumes n)" and ?p = "vol_path ` set (tn_volumes n)"
  have step: "validate_nodes (n # ns) nids vids paths = Inr () \<longleftrightarrow>
    \<not> is_blank (tn_node_id n) \<and> tn_node_id n \<notin> nids \<and> tn_volumes n \<noteq> []
    \<and> (\<forall>d \<in> set (tn_volumes n). \<not> is_blank (tv_volume_id d) \<and> tv_volume_id d \<notin> vids \<and> vol_path d \<notin> paths)
    \<and> distinct (map tv_volume_id (tn_volumes n)) \<and> distinct (map vol_path (tn_volumes n))
    \<and> validate_nodes ns (insert (tn_node_id n) nids) (?v \<union> vids) (?p \<union> paths) = Inr ()"
    by (simp add: res_bind_Inr_iff validate_volumes_iff)
  show ?case unfolding step Cons.IH
    by (simp add: ball_Un disjoint_iff image_iff ball_conj_distrib)
      (intro impI iffI; elim conjE; intro conjI; (assumption | fastforce))
qed simp

definition topology_ok :: "static_topology \<Rightarrow> bool" where
  "topology_ok t \<longleftrightarrow> \<not> is_blank (st_cluster_id t) \<and> st_epoch_id t \<noteq> 0 \<and> st_nodes t \<noteq> []
     \<and> (\<forall>n \<in> set (st_nodes t). \<not> is_blank (tn_node_id n) \<and> tn_volumes n \<noteq> [])
     \<and> distinct (map tn_node_id (st_nodes t))
     \<and> (\<forall>d \<in> set (topology_volumes (st_nodes t)). \<not> is_blank (tv_volume_id d))
     \<and> distinct (map tv_volume_id (topology_volumes (st_nodes t)))
     \<and> distinct (map vol_path (topology_volumes (st_nodes t)))"

lemma validate_ok_iff: "validate t = Inr () \<longleftrightarrow> topology_ok t"
  by (auto simp: validate_def topology_ok_def validate_nodes_iff)

text \<open>The loader accepts a topology exactly when the cluster id is not blank, the epoch
  is at least one, there is a node, every node has an id that is not blank and a volume, and
  node ids, volume ids (over the whole cluster) and volume paths (up to case and slashes)
  are pairwise different.\<close>

theorem validate_accepts_iff: "validate t = Inr () \<longleftrightarrow> topology_ok t"
  by (rule validate_ok_iff)

lemma push_volume_proj:
  "length (push_volume n d acc) = Suc (length acc)"
  "map pv_backend_index (push_volume n d acc) = map pv_backend_index acc @ [length acc]"
  "map pv_volume_id (push_volume n d acc) = map pv_volume_id acc @ [tv_volume_id d]"
  "map pv_node_id (push_volume n d acc) = map pv_node_id acc @ [tn_node_id n]"
  by (simp_all add: push_volume_def)

lemma fold_push_volume:
  "length (fold (push_volume n) ds acc) = length acc + length ds"
  "map pv_backend_index (fold (push_volume n) ds acc) = map pv_backend_index acc @ [length acc..<length acc + length ds]"
  "map pv_volume_id (fold (push_volume n) ds acc) = map pv_volume_id acc @ map tv_volume_id ds"
  "map pv_node_id (fold (push_volume n) ds acc) = map pv_node_id acc @ replicate (length ds) (tn_node_id n)"
proof (induction ds arbitrary: acc)
  case (Cons d ds)
  { case 1 then show ?case by (simp add: Cons push_volume_proj)
  next
    case 2
    have "[length acc..<length acc + length (d # ds)] = length acc # [Suc (length acc)..<Suc (length acc) + length ds]"
      by (simp add: upt_conv_Cons del: upt_Suc)
    then show ?case by (simp add: Cons push_volume_proj del: upt_Suc)
  next
    case 3 then show ?case by (simp add: Cons push_volume_proj)
  next
    case 4 then show ?case by (simp add: Cons push_volume_proj) }
qed simp_all

lemma placement_volumes_acc:
  fixes f defines "f \<equiv> \<lambda>n. fold (push_volume n) (tn_volumes n)"
  shows "map pv_backend_index (fold f ns acc) = map pv_backend_index acc @ [length acc..<length acc + length (topology_volumes ns)]"
    and "map pv_volume_id (fold f ns acc) = map pv_volume_id acc @ map tv_volume_id (topology_volumes ns)"
    and "set (map pv_node_id (fold f ns acc)) =
           set (map pv_node_id acc) \<union> {tn_node_id n | n. n \<in> set ns \<and> tn_volumes n \<noteq> []}"
proof (induction ns arbitrary: acc)
  case (Cons n ns)
  have step: "length (f n acc) = length acc + length (tn_volumes n)"
    "map pv_backend_index (f n acc) = map pv_backend_index acc @ [length acc..<length acc + length (tn_volumes n)]"
    "map pv_volume_id (f n acc) = map pv_volume_id acc @ map tv_volume_id (tn_volumes n)"
    "map pv_node_id (f n acc) = map pv_node_id acc @ replicate (length (tn_volumes n)) (tn_node_id n)" for acc
    by (simp_all add: f_def fold_push_volume)
  { case 1
    have "[length acc..<length acc + length (tn_volumes n)] @
        [length acc + length (tn_volumes n)..<length acc + length (tn_volumes n) + length (topology_volumes ns)]
      = [length acc..<length acc + (length (tn_volumes n) + length (topology_volumes ns))]"
      using upt_add_eq_append [of "length acc" "length acc + length (tn_volumes n)" "length (topology_volumes ns)"]
      by (simp add: add.assoc)
    then show ?case using Cons(1) [of "f n acc"] by (simp add: step)
  next
    case 2 then show ?case using Cons(2) [of "f n acc"] by (simp add: step)
  next
    case 3 
    have "set (map pv_node_id (f n acc)) = set (map pv_node_id acc) \<union> (if tn_volumes n = [] then {} else {tn_node_id n})"
      unfolding step by auto
    then show ?case using Cons(3) [of "f n acc"] by (auto split: if_splits) }
qed auto

lemma placement_volumes_index:
  "map pv_backend_index (placement_volumes t) = [0..<length (placement_volumes t)]"
proof -
  have "map pv_backend_index (placement_volumes t) = [0..<length (topology_volumes (st_nodes t))]"
    using placement_volumes_acc(1) [of "st_nodes t" "[]"] by (simp add: placement_volumes_def)
  then show ?thesis by (metis length_map length_upt diff_zero)
qed

lemma placement_volumes_ids:
  "map pv_volume_id (placement_volumes t) = map tv_volume_id (topology_volumes (st_nodes t))"
  using placement_volumes_acc(2) [of "st_nodes t" "[]"] by (simp add: placement_volumes_def)

lemma placement_volumes_nodes:
  "topology_ok t \<Longrightarrow> set (map pv_node_id (placement_volumes t)) = set (map tn_node_id (st_nodes t))"
  using placement_volumes_acc(3) [of "st_nodes t" "[]"]
  by (auto simp: placement_volumes_def topology_ok_def)

section \<open>Plans over a validated topology\<close>

definition topology_planner :: "static_topology \<Rightarrow> placement_planner" where
  "topology_planner t = \<lparr> pp_epoch_id = st_epoch_id t, pp_cluster_id = st_cluster_id t,
     pp_disks = placement_volumes t \<rparr>"

lemma sum_shards_on:
  "distinct ns \<Longrightarrow> ps_node_id ` set (pr_shards r) \<subseteq> set ns \<Longrightarrow> (\<Sum>n\<leftarrow>ns. shards_on n r) = length (pr_shards r)"
proof -
  assume "distinct ns" "ps_node_id ` set (pr_shards r) \<subseteq> set ns"
  then have "size (\<Sum>n\<leftarrow>ns. mset (filter (\<lambda>s. ps_node_id s = n) (pr_shards r))) = length (pr_shards r)"
    by (subst sum_filter_keys) simp_all
  moreover have "size (\<Sum>n\<leftarrow>ns. mset (filter (\<lambda>s. ps_node_id s = n) (pr_shards r))) = (\<Sum>n\<leftarrow>ns. shards_on n r)" for ns
    by (induction ns) (simp_all add: shards_on_def del: mset_filter)
  ultimately show ?thesis by simp
qed

lemma distinct_subset_mset: "mset xs \<subseteq># mset ys \<Longrightarrow> distinct ys \<Longrightarrow> distinct xs"
proof -
  assume "mset xs \<subseteq># mset ys" and d: "distinct ys"
  then obtain zs where "mset ys = mset (xs @ zs)"
    by (metis ex_mset mset_append subset_mset.le_iff_add)
  with d mset_eq_imp_distinct_iff [of ys "xs @ zs"] show "distinct xs" by simp
qed

lemma distinct_if_count_le_1:
  "(\<And>n. length (filter (\<lambda>x. f x = n) xs) \<le> 1) \<Longrightarrow> distinct (map f xs)"
proof (induction xs)
  case (Cons x xs)
  have "length (filter (\<lambda>y. f y = n) xs) \<le> 1" for n
    using Cons.prems [of n] by (auto split: if_splits)
  moreover have "filter (\<lambda>y. f y = f x) xs = []"
    using Cons.prems [of "f x"] by simp
  ultimately show ?case using Cons.IH by (force simp: filter_empty_conv)
qed simp

lemma plan_disks_subset:
  assumes "plan h self b k data parity = Inr r"
  shows "mset (map (\<lambda>s. f (ps_backend_index s) (ps_node_id s) (ps_volume_id s)) (pr_shards r))
    \<subseteq># mset (map (\<lambda>d. f (pv_backend_index d) (pv_node_id d) (pv_volume_id d)) (pp_disks self))"
  unfolding plan_shards_map(2) [OF assms]
  using chosen_disks_subset [of h "pp_disks self"] by (auto simp: image_mset_subseteq_mono)

lemma plan_within_nodes:
  assumes ok: "topology_ok t" and r: "plan h (topology_planner t) b k data parity = Inr r"
    and few: "data + parity \<le> length (st_nodes t)" and n: "n \<in> tn_node_id ` set (st_nodes t)"
  shows "shards_on n r \<le> 1"
proof (rule ccontr)
  assume "\<not> shards_on n r \<le> 1"
  then have two: "2 \<le> shards_on n r" by simp
  let ?ns = "map tn_node_id (st_nodes t)"
  have nodes: "pv_node_id ` set (pp_disks (topology_planner t)) = set ?ns"
    using placement_volumes_nodes [OF ok] by (simp add: topology_planner_def)
  have pos: "1 \<le> shards_on m r" if "m \<in> set ?ns" for m
  proof -
    have "1 \<le> on_node m (pp_disks (topology_planner t))"
    proof -
      have "m \<in> pv_node_id ` set (pp_disks (topology_planner t))" using that unfolding nodes .
      then obtain d where "d \<in> set (pp_disks (topology_planner t))" "pv_node_id d = m" by auto
      then have "filter (\<lambda>d. pv_node_id d = m) (pp_disks (topology_planner t)) \<noteq> []"
        by (auto simp: filter_empty_conv)
      then show ?thesis by (simp add: on_node_def Suc_le_eq)
    qed
    then show ?thesis
      using plan_node_fair [OF r, of n m] two n that nodes by auto
  qed
  have "set (map ps_node_id (pr_shards r)) \<subseteq> set ?ns"
    using set_mset_mono [OF plan_disks_subset [OF r, of "\<lambda>b n v. n"]] nodes by auto
  then have total: "(\<Sum>m\<leftarrow>?ns. shards_on m r) = data + parity"
    using sum_shards_on [of ?ns r] ok plan_shards_map(1) [OF r]
    by (simp add: topology_ok_def) (metis length_map length_upt diff_zero)
  have "(\<Sum>m\<leftarrow>ks. shards_on m r) \<ge> Suc (length ks)"
    if "n \<in> set ks" "set ks \<subseteq> set ?ns" for ks
    using that
  proof (induction ks)
    case (Cons m ks)
    have "(\<Sum>m\<leftarrow>js. shards_on m r) \<ge> length js" if "set js \<subseteq> set ?ns" for js
      using that
    proof (induction js)
      case (Cons j js)
      have "1 \<le> shards_on j r" using pos Cons.prems by (simp add: image_iff)
      with Cons show ?case by simp
    qed simp
    moreover have "1 \<le> shards_on m r" using pos Cons.prems by (simp add: image_iff)
    ultimately show ?case using Cons two by fastforce
  qed simp
  from this [of ?ns] total few n show False by simp
qed

text \<open>C25: over a validated topology a plan puts no two shards on the same volume, addresses
  each volume by the position it has in the pool, and puts no two shards on the same node
  whenever the cluster has at least as many nodes as the object has shards.\<close>

theorem topology_plan_spreads:
  assumes "validate t = Inr ()" and r: "plan h (topology_planner t) b k data parity = Inr r"
  shows "distinct (map ps_volume_id (pr_shards r))
    \<and> distinct (map ps_backend_index (pr_shards r))
    \<and> (\<forall>s \<in> set (pr_shards r). ps_backend_index s < length (placement_volumes t)
         \<and> pv_volume_id (placement_volumes t ! ps_backend_index s) = ps_volume_id s
         \<and> pv_node_id (placement_volumes t ! ps_backend_index s) = ps_node_id s)
    \<and> (data + parity \<le> length (st_nodes t) \<longrightarrow> distinct (map ps_node_id (pr_shards r)))"
proof -
  from assms(1) have ok: "topology_ok t" by (simp add: validate_ok_iff)
  have disks: "pp_disks (topology_planner t) = placement_volumes t" by (simp add: topology_planner_def)
  have "distinct (map ps_volume_id (pr_shards r))"
    using distinct_subset_mset [OF plan_disks_subset [OF r, of "\<lambda>b n v. v"]] ok
    by (simp add: disks placement_volumes_ids topology_ok_def)
  moreover have "distinct (map ps_backend_index (pr_shards r))"
    using distinct_subset_mset [OF plan_disks_subset [OF r, of "\<lambda>b n v. b"]]
    by (simp add: disks placement_volumes_index)
  moreover have "ps_backend_index s < length (placement_volumes t)
         \<and> pv_volume_id (placement_volumes t ! ps_backend_index s) = ps_volume_id s
         \<and> pv_node_id (placement_volumes t ! ps_backend_index s) = ps_node_id s"
    if "s \<in> set (pr_shards r)" for s
  proof -
    have "(ps_backend_index s, ps_node_id s, ps_volume_id s)
        \<in> set (map (\<lambda>d. (pv_backend_index d, pv_node_id d, pv_volume_id d)) (placement_volumes t))"
      using set_mset_mono [OF plan_disks_subset [OF r, of "\<lambda>b n v. (b, n, v)"]] that by (auto simp: disks)
    then obtain i where "i < length (placement_volumes t)"
      "ps_backend_index s = pv_backend_index (placement_volumes t ! i)"
      "ps_node_id s = pv_node_id (placement_volumes t ! i)" "ps_volume_id s = pv_volume_id (placement_volumes t ! i)"
      by (auto simp: in_set_conv_nth)
    moreover from this have "pv_backend_index (placement_volumes t ! i) = i"
      using placement_volumes_index [of t] by (metis add_0 nth_map nth_upt)
    ultimately show ?thesis by simp
  qed
  moreover have "distinct (map ps_node_id (pr_shards r))" if "data + parity \<le> length (st_nodes t)"
  proof -
    have "set (map ps_node_id (pr_shards r)) \<subseteq> tn_node_id ` set (st_nodes t)"
      using set_mset_mono [OF plan_disks_subset [OF r, of "\<lambda>b n v. n"]] placement_volumes_nodes [OF ok]
      by (auto simp: disks)
    then have "filter (\<lambda>s. ps_node_id s = n) (pr_shards r) = []" if "n \<notin> tn_node_id ` set (st_nodes t)" for n
      using that by (force simp: filter_empty_conv)
    then have "shards_on n r \<le> 1" for n
      using plan_within_nodes [OF ok r that, of n] by (fastforce simp: shards_on_def)
    then show ?thesis by (intro distinct_if_count_le_1) (simp add: shards_on_def)
  qed
  ultimately show ?thesis by blast
qed

definition three_node_topology :: static_topology where
  "three_node_topology = \<lparr> st_cluster_id = ''c'', st_epoch_id = 1, st_nodes =
     [\<lparr> tn_node_id = ''n0'', tn_advertise_s3 = ''s0'', tn_advertise_cluster = ''c0'',
        tn_volumes = [\<lparr> tv_volume_id = ''v0'', tv_path = ''/a'' \<rparr>, \<lparr> tv_volume_id = ''v1'', tv_path = ''/b'' \<rparr>] \<rparr>,
      \<lparr> tn_node_id = ''n1'', tn_advertise_s3 = ''s1'', tn_advertise_cluster = ''c1'',
        tn_volumes = [\<lparr> tv_volume_id = ''v2'', tv_path = ''/c'' \<rparr>] \<rparr>,
      \<lparr> tn_node_id = ''n2'', tn_advertise_s3 = ''s2'', tn_advertise_cluster = ''c2'',
        tn_volumes = [\<lparr> tv_volume_id = ''v3'', tv_path = ''/d'' \<rparr>] \<rparr>] \<rparr>"

lemma three_node_topology_valid: "validate three_node_topology = Inr ()"
  by (simp add: three_node_topology_def validate_def normalize_path_def ascii_lower_def Let_def is_blank_Cons)

theorem topology_plan_spreads_witness:
  "\<exists>r. validate three_node_topology = Inr ()
     \<and> plan id (topology_planner three_node_topology) ''bk'' ''key'' 2 1 = Inr r
     \<and> distinct (map ps_node_id (pr_shards r))"
proof -
  have "length (placement_volumes three_node_topology) = 4" "length (st_nodes three_node_topology) = 3"
    by (simp_all add: placement_volumes_def three_node_topology_def push_volume_def)
  moreover from this obtain r where r: "plan id (topology_planner three_node_topology) ''bk'' ''key'' 2 1 = Inr r"
    by (auto simp: plan_eq topology_planner_def)
  ultimately show ?thesis
    using topology_plan_spreads [OF three_node_topology_valid r] three_node_topology_valid by auto
qed

end
