(* ===== verification/Raft_Log.thy ===== *)
theory Raft_Log
  imports Prelude
begin

text \<open>
  The append-only log of the control plane (\<open>src/raft/storage/log.rs\<close>): the record
  format, the file with its in-memory index, and every operation of \<open>LogStore\<close>.  The
  file is the list of its bytes; reads past its end give \<open>UnexpectedEof\<close>.  Other I/O
  errors (a full disk, a failed sync) are not modelled, offsets are natural numbers.
\<close>

section \<open>Records and the store\<close>

definition HEADER_LEN :: nat where
  "HEADER_LEN = 8 + 8 + 4"

record log_entry =
  le_index :: u64
  le_term :: u64
  le_op_bytes :: bytes

datatype log_error = UnexpectedEof | IndexMismatch nat u64 u64 | EntryTooLarge
  | NotFound u64 | NonMonotonic u64 u64

record log_store =
  ls_file :: bytes
  ls_index :: "(u64, nat \<times> u64) btree"
  ls_file_len :: nat

definition header_of :: "log_entry \<Rightarrow> bytes" where
  "header_of e = u64_le (le_index e) @ u64_le (le_term e) @ to_le 4 (length (le_op_bytes e))"

definition parse_header :: "bytes \<Rightarrow> u64 \<times> u64 \<times> nat" where
  "parse_header h = (u64_from_le (slice_of 0 8 h), u64_from_le (slice_of 8 8 h), from_le (slice_of 16 4 h))"

section \<open>Operations\<close>

text \<open>\<open>read_exact\<close> of \<open>n\<close> bytes at a position.\<close>

definition read_exact :: "bytes \<Rightarrow> nat \<Rightarrow> nat \<Rightarrow> log_error + bytes" where
  "read_exact file off n = (if off + n \<le> length file then Inr (slice_of off n file) else Inl UnexpectedEof)"

function rebuild_loop :: "bytes \<Rightarrow> nat \<Rightarrow> (u64, nat \<times> u64) btree \<Rightarrow> (u64, nat \<times> u64) btree \<times> nat" where
  "rebuild_loop file offset ix =
     (if offset + HEADER_LEN \<le> length file then
        (case parse_header (slice_of offset HEADER_LEN file) of
           (index, trm, len) \<Rightarrow> rebuild_loop file (offset + HEADER_LEN + len) (bt_insert index (offset, trm) ix))
      else (ix, offset))"
  by pat_completeness auto
termination
  by (relation "measure (\<lambda>(file, offset, ix). length file - offset)") (auto simp: HEADER_LEN_def)

declare rebuild_loop.simps [simp del]

definition rebuild_index :: "log_store \<Rightarrow> log_store" where
  "rebuild_index ls = (case rebuild_loop (ls_file ls) 0 (ls_index ls) of
     (ix, offset) \<Rightarrow> ls\<lparr> ls_index := ix, ls_file_len := offset \<rparr>)"

text \<open>\<open>LogStore::open\<close> on a directory whose \<open>log.dat\<close> holds the given bytes.\<close>

definition log_open :: "bytes \<Rightarrow> log_store" where
  "log_open file = rebuild_index \<lparr> ls_file = file, ls_index = [], ls_file_len = 0 \<rparr>"

definition last_log_index :: "log_store \<Rightarrow> u64 option" where
  "last_log_index ls = bt_last_key (ls_index ls)"

definition last_log_term :: "log_store \<Rightarrow> u64 option" where
  "last_log_term ls = (if ls_index ls = [] then None else Some (snd (snd (last (ls_index ls)))))"

definition first_log_index :: "log_store \<Rightarrow> u64 option" where
  "first_log_index ls = bt_first_key (ls_index ls)"

definition entry_count :: "log_store \<Rightarrow> nat" where
  "entry_count ls = length (ls_index ls)"

definition unwrap_or_0 :: "u64 option \<Rightarrow> u64" where
  "unwrap_or_0 x = (case x of Some i \<Rightarrow> i | None \<Rightarrow> 0)"

text \<open>
  The loop of \<open>append\<close>: every record is written at the end of the file and indexed as
  it goes; \<open>file_len\<close> is only stored after the last one.
\<close>

fun append_loop :: "log_entry list \<Rightarrow> u64 \<Rightarrow> nat \<Rightarrow> log_store \<Rightarrow> (log_error + unit) \<times> log_store" where
  "append_loop [] prev offset ls = (Inr (), ls\<lparr> ls_file_len := offset \<rparr>)"
| "append_loop (e # es) prev offset ls =
     (if prev \<noteq> 0 \<and> le_index e \<le> prev then (Inl (NonMonotonic prev (le_index e)), ls)
      else if length (le_op_bytes e) > 2 ^ 32 - 1 then (Inl EntryTooLarge, ls)
      else append_loop es (le_index e) (offset + HEADER_LEN + length (le_op_bytes e))
        (ls\<lparr> ls_file := ls_file ls @ header_of e @ le_op_bytes e,
             ls_index := bt_insert (le_index e) (offset, le_term e) (ls_index ls) \<rparr>))"

definition log_append :: "log_entry list \<Rightarrow> log_store \<Rightarrow> (log_error + unit) \<times> log_store" where
  "log_append entries ls = append_loop entries (unwrap_or_0 (last_log_index ls)) (ls_file_len ls) ls"

definition log_read :: "u64 \<Rightarrow> log_store \<Rightarrow> log_error + log_entry" where
  "log_read index ls = (case map_of (ls_index ls) index of
      None \<Rightarrow> Inl (NotFound index)
    | Some (offset, _) \<Rightarrow>
        res_bind (read_exact (ls_file ls) offset HEADER_LEN) (\<lambda>header.
          (case parse_header header of (got_index, trm, len) \<Rightarrow>
             if got_index \<noteq> index then Inl (IndexMismatch offset index got_index)
             else res_bind (read_exact (ls_file ls) (offset + HEADER_LEN) len) (\<lambda>op_bytes.
               Inr \<lparr> le_index = index, le_term = trm, le_op_bytes = op_bytes \<rparr>))))"

fun read_all :: "u64 list \<Rightarrow> log_store \<Rightarrow> log_error + log_entry list" where
  "read_all [] ls = Inr []"
| "read_all (i # is) ls =
     res_bind (log_read i ls) (\<lambda>e. res_bind (read_all is ls) (\<lambda>es. Inr (e # es)))"

definition read_range :: "u64 \<Rightarrow> u64 \<Rightarrow> log_store \<Rightarrow> log_error + log_entry list" where
  "read_range start end ls =
     (if end < start then Inr []
      else read_all (filter (\<lambda>i. map_of (ls_index ls) i \<noteq> None) (map word_of_nat [unat start..<Suc (unat end)])) ls)"

definition truncate_after :: "u64 \<Rightarrow> log_store \<Rightarrow> (log_error + unit) \<times> log_store" where
  "truncate_after last_kept ls =
     (let cut = (\<lambda>cut_offset. (Inr (), ls\<lparr> ls_file := take cut_offset (ls_file ls), ls_file_len := cut_offset,
                   ls_index := filter (\<lambda>(i, _). i \<le> last_kept) (ls_index ls) \<rparr>))
      in case map_of (ls_index ls) last_kept of
           Some (off, _) \<Rightarrow>
             (case log_read last_kept ls of
                Inl e \<Rightarrow> (Inl e, ls)
              | Inr entry \<Rightarrow> cut (off + HEADER_LEN + length (le_op_bytes entry)))
         | None \<Rightarrow>
             if unwrap_or_0 (last_log_index ls) \<le> last_kept then (Inr (), ls) else cut 0)"

text \<open>The rewrite loop of \<open>purge_before\<close>: the temporary file, the new index, its offset.\<close>

fun purge_loop ::
  "u64 list \<Rightarrow> log_store \<Rightarrow> bytes \<Rightarrow> (u64, nat \<times> u64) btree \<Rightarrow> nat
   \<Rightarrow> log_error + (bytes \<times> (u64, nat \<times> u64) btree \<times> nat)" where
  "purge_loop [] ls tmp offsets new_offset = Inr (tmp, offsets, new_offset)"
| "purge_loop (i # is) ls tmp offsets new_offset =
     res_bind (log_read i ls) (\<lambda>entry.
       purge_loop is ls (tmp @ header_of entry @ le_op_bytes entry)
         (bt_insert (le_index entry) (new_offset, le_term entry) offsets)
         (new_offset + HEADER_LEN + length (le_op_bytes entry)))"

definition purge_before :: "u64 \<Rightarrow> log_store \<Rightarrow> (log_error + unit) \<times> log_store" where
  "purge_before first_kept ls =
     (let kept = filter (\<lambda>i. first_kept \<le> i) (map fst (ls_index ls)) in
      if kept = [] \<and> ls_index ls = [] then (Inr (), ls)
      else if length kept = length (ls_index ls) then (Inr (), ls)
      else (case purge_loop kept ls [] [] 0 of
              Inl e \<Rightarrow> (Inl e, ls)
            | Inr (tmp, offsets, new_offset) \<Rightarrow>
                (Inr (), ls\<lparr> ls_file := tmp, ls_index := offsets, ls_file_len := new_offset \<rparr>)))"

section \<open>The log a store represents\<close>

definition fits :: "log_entry \<Rightarrow> bool" where
  "fits e \<longleftrightarrow> length (le_op_bytes e) < 2 ^ 32"

definition rec_of :: "log_entry \<Rightarrow> bytes" where
  "rec_of e = header_of e @ le_op_bytes e"

definition recs_of :: "log_entry list \<Rightarrow> bytes" where
  "recs_of es = concat (map rec_of es)"

fun index_from :: "nat \<Rightarrow> log_entry list \<Rightarrow> (u64, nat \<times> u64) btree" where
  "index_from off [] = []"
| "index_from off (e # es) = (le_index e, (off, le_term e)) # index_from (off + length (rec_of e)) es"

abbreviation increasing :: "log_entry list \<Rightarrow> bool" where
  "increasing es \<equiv> sorted_wrt (<) (map le_index es)"

text \<open>The store holds exactly these entries, in file and index.\<close>

definition holds :: "log_entry list \<Rightarrow> log_store \<Rightarrow> bool" where
  "holds es ls \<longleftrightarrow> increasing es \<and> list_all fits es
     \<and> ls_file ls = recs_of es \<and> ls_index ls = index_from 0 es \<and> ls_file_len ls = length (recs_of es)"

named_theorems log_simps \<open>lengths and decompositions of log records\<close>

lemma length_header_of [simp, log_simps]: "length (header_of e) = HEADER_LEN"
  by (simp add: header_of_def HEADER_LEN_def)

lemma length_rec_of [log_simps]: "length (rec_of e) = HEADER_LEN + length (le_op_bytes e)"
  by (simp add: rec_of_def)

lemma recs_of_simps [simp, log_simps]:
  "recs_of [] = []" "recs_of (e # es) = rec_of e @ recs_of es" "recs_of (xs @ ys) = recs_of xs @ recs_of ys"
  by (simp_all add: recs_of_def)

lemma index_from_append [log_simps]:
  "index_from off (xs @ ys) = index_from off xs @ index_from (off + length (recs_of xs)) ys"
  by (induction xs arbitrary: off) (simp_all add: add.assoc)

lemma map_fst_index_from [simp, log_simps]: "map fst (index_from off es) = map le_index es"
  by (induction es arbitrary: off) simp_all

lemma fst_set_index_from [simp]: "fst ` set (index_from off es) = le_index ` set es"
  by (metis list.set_map map_fst_index_from)

lemma length_index_from [simp]: "length (index_from off es) = length es"
  by (metis length_map map_fst_index_from)

lemma index_from_eq_Nil [simp]: "index_from off es = [] \<longleftrightarrow> es = []"
  by (cases es) simp_all

lemma parse_header_of: "fits e \<Longrightarrow> parse_header (header_of e) = (le_index e, le_term e, length (le_op_bytes e))"
  by (simp add: parse_header_def header_of_def slice_of_def fits_def from_le_to_le)

lemma slice_header: "slice_of (length pre) HEADER_LEN (pre @ rec_of e @ post) = header_of e"
  using slice_of_mid [of pre "header_of e" "le_op_bytes e @ post"] by (simp add: rec_of_def)

lemma slice_body:
  "slice_of (length pre + HEADER_LEN) (length (le_op_bytes e)) (pre @ rec_of e @ post) = le_op_bytes e"
  using slice_of_mid [of "pre @ header_of e" "le_op_bytes e" post] by (simp add: rec_of_def)

section \<open>Opening a log file\<close>

lemma rebuild_loop_recs:
  assumes "list_all fits es" and "length rest < HEADER_LEN"
  shows "rebuild_loop (pre @ recs_of es @ rest) (length pre) ix
    = (fold (\<lambda>(i, v). bt_insert i v) (index_from (length pre) es) ix, length pre + length (recs_of es))"
  using assms
proof (induction es arbitrary: pre ix)
  case Nil
  then show ?case by (simp add: rebuild_loop.simps)
next
  case (Cons e es)
  have step: "rebuild_loop (pre @ recs_of (e # es) @ rest) (length pre) ix
      = rebuild_loop ((pre @ rec_of e) @ recs_of es @ rest) (length (pre @ rec_of e)) (bt_insert (le_index e) (length pre, le_term e) ix)"
    using Cons.prems slice_header [of pre e "recs_of es @ rest"]
    by (subst rebuild_loop.simps) (simp add: parse_header_of length_rec_of add.assoc)
  show ?case
    unfolding step using Cons.prems by (subst Cons.IH) simp_all
qed

lemma fold_insert_sorted:
  "sorted_wrt (<) (map fst xs) \<Longrightarrow> (\<forall>k \<in> fst ` set ix. \<forall>k' \<in> fst ` set xs. k < k') \<Longrightarrow>
   fold (\<lambda>(i, v). bt_insert i v) xs ix = ix @ xs"
proof (induction xs arbitrary: ix)
  case (Cons x xs)
  obtain i v where x: "x = (i, v)" by fastforce
  have "bt_insert i v ix = ix @ [(i, v)]"
    using Cons.prems x by (intro bt_insert_last) auto
  then show ?case using Cons.prems Cons.IH [of "ix @ [(i, v)]"] x by auto
qed simp

text \<open>Opening a file of complete records recovers exactly the entries it was built from.\<close>

lemma log_open_holds:
  assumes "increasing es" and "list_all fits es"
  shows "holds es (log_open (recs_of es))"
  using rebuild_loop_recs [OF assms(2), of "[]" "[]" "[]"] fold_insert_sorted [of "index_from 0 es" "[]"] assms
  by (simp add: log_open_def rebuild_index_def holds_def HEADER_LEN_def log_simps del: map_map)

lemma holds_unique: "holds es ls \<Longrightarrow> holds es ls' \<Longrightarrow> ls = (ls' :: log_store)"
  by (simp add: holds_def)

lemma holds_reopen:
  assumes "holds es ls"
  shows "log_open (ls_file ls) = ls"
proof -
  have "holds es (log_open (recs_of es))"
    using assms by (intro log_open_holds) (simp_all add: holds_def)
  moreover have "ls_file ls = recs_of es" using assms by (simp add: holds_def)
  ultimately show ?thesis using holds_unique assms by metis
qed

section \<open>Reading\<close>

lemma increasing_index_from: "increasing es \<Longrightarrow> bt_ok (index_from off es)"
  by (simp add: bt_ok_def log_simps del: map_map)

lemma map_of_index_from:
  assumes "increasing es" and "es = xs @ e # ys"
  shows "map_of (index_from off es) (le_index e) = Some (off + length (recs_of xs), le_term e)"
proof (rule map_of_is_SomeI)
  show "distinct (map fst (index_from off es))"
    using bt_ok_distinct [OF increasing_index_from [OF assms(1)]] .
  show "(le_index e, off + length (recs_of xs), le_term e) \<in> set (index_from off es)"
    by (simp add: assms(2) log_simps)
qed

lemma map_of_index_from_None: "map_of (index_from off es) i = None \<longleftrightarrow> i \<notin> le_index ` set es"
  by (simp add: map_of_eq_None_iff)

lemma log_read_member:
  assumes "holds es ls" and "e \<in> set es"
  shows "log_read (le_index e) ls = Inr e"
proof -
  obtain xs ys where es: "es = xs @ e # ys" using split_list [OF assms(2)] by blast
  have h: "increasing es" "ls_file ls = recs_of xs @ rec_of e @ recs_of ys" "ls_index ls = index_from 0 es" "fits e"
    using assms es by (auto simp: holds_def)
  show ?thesis
    using map_of_index_from [OF h(1) es, of 0] h slice_header [of "recs_of xs" e "recs_of ys"]
      slice_body [of "recs_of xs" e "recs_of ys"]
    by (simp add: log_read_def read_exact_def parse_header_of length_rec_of)
qed

lemma log_read_missing: "holds es ls \<Longrightarrow> i \<notin> le_index ` set es \<Longrightarrow> log_read i ls = Inl (NotFound i)"
  by (simp add: log_read_def holds_def map_of_index_from_None [THEN iffD2])

lemma read_all_members: "holds es ls \<Longrightarrow> set xs \<subseteq> set es \<Longrightarrow> read_all (map le_index xs) ls = Inr xs"
  by (induction xs) (simp_all add: log_read_member)

lemma sorted_filter_range:
  fixes ks :: "u64 list"
  assumes "sorted_wrt (<) ks" and "start \<le> end"
  shows "filter (\<lambda>i. i \<in> set ks) (map word_of_nat [unat start..<Suc (unat end)]) = filter (\<lambda>i. start \<le> i \<and> i \<le> end) ks"
    (is "?l = ?r")
proof (rule strict_sorted_equal)
  have bound: "unat end < 2 ^ 64" using unsigned_less [of "end", where ?'a = nat] by simp
  have "sorted_wrt (<) (map (word_of_nat :: nat \<Rightarrow> u64) [unat start..<Suc (unat end)])"
    unfolding sorted_wrt_map
    by (rule sorted_wrt_mono_rel [OF _ sorted_wrt_upt [of "unat start" "Suc (unat end)"]])
      (use bound in \<open>simp add: word_less_nat_alt unat_of_nat del: upt_Suc\<close>)
  then show "sorted_wrt (<) ?l" by (rule sorted_wrt_filter)
  show "sorted_wrt (<) ?r" using assms(1) by (rule sorted_wrt_filter)
  have "i \<in> word_of_nat ` {unat start..unat end} \<longleftrightarrow> start \<le> i \<and> i \<le> end" for i :: u64
  proof
    assume "i \<in> word_of_nat ` {unat start..unat end}"
    then obtain n where "unat start \<le> n" "n \<le> unat end" "i = word_of_nat n" by auto
    with bound show "start \<le> i \<and> i \<le> end" by (simp add: word_le_nat_alt unat_of_nat)
  next
    assume "start \<le> i \<and> i \<le> end"
    then have "unat i \<in> {unat start..unat end}" by (simp add: word_le_nat_alt)
    then show "i \<in> word_of_nat ` {unat start..unat end}" by (rule rev_image_eqI) simp
  qed
  moreover have "set (map (word_of_nat :: nat \<Rightarrow> u64) [unat start..<Suc (unat end)]) = word_of_nat ` {unat start..unat end}"
    by (simp add: atLeastLessThanSuc_atLeastAtMost del: upt_Suc)
  ultimately show "set ?l = set ?r" by (auto simp del: upt_Suc)
qed

lemma read_range_holds:
  assumes "holds es ls"
  shows "read_range start end ls = Inr (filter (\<lambda>e. start \<le> le_index e \<and> le_index e \<le> end) es)"
proof (cases "end < start")
  case True
  then have "filter (\<lambda>e. start \<le> le_index e \<and> le_index e \<le> end) es = []"
    by (auto simp: filter_empty_conv)
  with True show ?thesis by (simp add: read_range_def)
next
  case False
  have "filter (\<lambda>i. map_of (ls_index ls) i \<noteq> None) (map word_of_nat [unat start..<Suc (unat end)])
      = map le_index (filter (\<lambda>e. start \<le> le_index e \<and> le_index e \<le> end) es)"
    using sorted_filter_range [of "map le_index es" start "end"] False assms
    by (simp add: holds_def map_of_index_from_None filter_map comp_def not_less del: upt_Suc)
  then show ?thesis
    using False read_all_members [OF assms, of "filter (\<lambda>e. start \<le> le_index e \<and> le_index e \<le> end) es"]
    by (simp add: read_range_def del: upt_Suc)
qed

section \<open>Appending, truncating, purging\<close>

lemma last_index_from: "es \<noteq> [] \<Longrightarrow> fst (last (index_from off es)) = le_index (last es)"
  by (metis index_from_eq_Nil last_map map_fst_index_from)

lemma holds_last: "holds es ls \<Longrightarrow> last_log_index ls = (if es = [] then None else Some (le_index (last es)))"
  by (simp add: last_log_index_def bt_last_key_def holds_def last_index_from)

text \<open>What \<open>append\<close> accepts: an index of zero only guards against nothing.\<close>

definition appendable :: "log_entry list \<Rightarrow> log_entry list \<Rightarrow> bool" where
  "appendable es new \<longleftrightarrow> increasing (es @ new) \<and> list_all fits new"

lemma append_loop_holds:
  assumes "increasing (es @ new)" and "list_all fits (es @ new)"
    and "ls_file ls = recs_of es" and "ls_index ls = index_from 0 es"
    and "prev = (if es = [] then 0 else le_index (last es))"
  shows "\<exists>ls'. append_loop new prev (length (recs_of es)) ls = (Inr (), ls') \<and> holds (es @ new) ls'"
  using assms
proof (induction new arbitrary: es prev ls)
  case Nil
  then show ?case by (simp add: holds_def)
next
  case (Cons e new)
  have mono: "\<not> (prev \<noteq> 0 \<and> le_index e \<le> prev)"
  proof (cases "es = []")
    case False
    then have "le_index (last es) < le_index e"
      using Cons.prems(1) by (simp add: sorted_wrt_append)
    with False Cons.prems(5) show ?thesis by (simp add: not_le)
  qed (simp add: Cons.prems(5))
  have fits: "\<not> length (le_op_bytes e) > 2 ^ 32 - 1"
    using Cons.prems(2) by (simp add: fits_def)
  let ?ls = "ls\<lparr> ls_file := ls_file ls @ header_of e @ le_op_bytes e,
     ls_index := bt_insert (le_index e) (length (recs_of es), le_term e) (ls_index ls) \<rparr>"
  have ins: "bt_insert (le_index e) (length (recs_of es), le_term e) (ls_index ls) = index_from 0 (es @ [e])"
    using Cons.prems(1,4) by (subst bt_insert_last) (auto simp: sorted_wrt_append log_simps)
  have "\<exists>ls'. append_loop new (le_index e) (length (recs_of (es @ [e]))) ?ls = (Inr (), ls') \<and> holds ((es @ [e]) @ new) ls'"
    using Cons.prems ins by (intro Cons.IH) (simp_all add: rec_of_def)
  then show ?case using mono fits by (simp add: log_simps add.assoc)
qed

lemma log_append_holds:
  assumes "holds es ls" and "appendable es new"
  shows "\<exists>ls'. log_append new ls = (Inr (), ls') \<and> holds (es @ new) ls'"
proof -
  have "unwrap_or_0 (last_log_index ls) = (if es = [] then 0 else le_index (last es))"
    by (simp add: holds_last [OF assms(1)] unwrap_or_0_def)
  moreover have "ls_file_len ls = length (recs_of es)" using assms by (simp add: holds_def)
  ultimately show ?thesis
    using append_loop_holds [of es new ls "unwrap_or_0 (last_log_index ls)"] assms
    unfolding log_append_def by (simp add: holds_def appendable_def)
qed

lemma increasing_split_le:
  assumes "increasing (xs @ e # ys)"
  shows "filter (\<lambda>x. le_index x \<le> le_index e) (xs @ e # ys) = xs @ [e]"
proof -
  have "\<forall>x \<in> set xs. le_index x \<le> le_index e" "\<forall>y \<in> set ys. \<not> le_index y \<le> le_index e"
    using assms by (auto simp: sorted_wrt_append not_le less_imp_le)
  then show ?thesis by (simp add: filter_empty_conv)
qed

lemma filter_index_from_prefix:
  "increasing (xs @ ys) \<Longrightarrow> \<forall>x \<in> set xs. le_index x \<le> k \<Longrightarrow> \<forall>y \<in> set ys. k < le_index y \<Longrightarrow>
   filter (\<lambda>(i, _). i \<le> k) (index_from 0 (xs @ ys)) = index_from 0 xs"
proof -
  assume a: "\<forall>x \<in> set xs. le_index x \<le> k" "\<forall>y \<in> set ys. k < le_index y"
  have "filter (\<lambda>(i, _). i \<le> k) (index_from off xs) = index_from off xs" for off
    using a(1) by (induction xs arbitrary: off) auto
  moreover have "filter (\<lambda>(i, _). i \<le> k) (index_from off ys) = []" for off
    using a(2) by (induction ys arbitrary: off) auto
  ultimately show ?thesis by (simp add: log_simps)
qed

text \<open>No index is missing between the first and the last entry.\<close>

definition gapless :: "log_entry list \<Rightarrow> bool" where
  "gapless es \<longleftrightarrow> (\<forall>i. (\<exists>e \<in> set es. le_index e \<le> i) \<and> (\<exists>e \<in> set es. i \<le> le_index e) \<longrightarrow> i \<in> le_index ` set es)"

lemma gapless_cases:
  assumes "gapless es"
  obtains (mem) e where "e \<in> set es" "le_index e = k"
    | (past) "k \<notin> le_index ` set es" "\<forall>e \<in> set es. le_index e \<le> k"
    | (before) "k \<notin> le_index ` set es" "es \<noteq> []" "\<forall>e \<in> set es. k < le_index e"
proof (cases "k \<in> le_index ` set es")
  case True
  then show thesis using mem by blast
next
  case False
  with assms have "\<not> ((\<exists>e \<in> set es. le_index e \<le> k) \<and> (\<exists>e \<in> set es. k \<le> le_index e))"
    unfolding gapless_def by blast
  then have "(\<forall>e \<in> set es. k < le_index e) \<or> (\<forall>e \<in> set es. le_index e < k)" by (auto simp: not_le)
  then show thesis
    using False past before by (cases "es = []") (auto simp: less_imp_le)
qed

lemma truncate_after_holds:
  assumes h: "holds es ls" and gap: "gapless es"
  shows "\<exists>ls'. truncate_after k ls = (Inr (), ls') \<and> holds (filter (\<lambda>e. le_index e \<le> k) es) ls'"
proof -
  consider (mem) e where "e \<in> set es" "le_index e = k"
    | (past) "k \<notin> le_index ` set es" "\<forall>e \<in> set es. le_index e \<le> k"
    | (before) "k \<notin> le_index ` set es" "es \<noteq> []" "\<forall>e \<in> set es. k < le_index e"
    using gap by (rule gapless_cases)
  then show ?thesis
  proof cases
    case mem
    obtain xs ys where es: "es = xs @ e # ys" using split_list [OF mem(1)] by blast
    have inc: "increasing (xs @ e # ys)" using h es by (simp add: holds_def)
    have look: "map_of (ls_index ls) k = Some (length (recs_of xs), le_term e)"
      using map_of_index_from [of es xs e ys 0] h es mem(2) by (simp add: holds_def)
    have ix: "filter (\<lambda>(i, _). i \<le> k) (ls_index ls) = index_from 0 (xs @ [e])"
      using filter_index_from_prefix [of "xs @ [e]" ys k] h es inc mem(2)
      by (auto simp: holds_def sorted_wrt_append less_imp_le)
    have fl: "filter (\<lambda>e. le_index e \<le> k) es = xs @ [e]"
      using increasing_split_le [OF inc] es mem(2) by simp
    have cut: "take (length (recs_of xs) + HEADER_LEN + length (le_op_bytes e)) (ls_file ls) = recs_of (xs @ [e])"
      using h es by (simp add: holds_def rec_of_def)
    have "holds (xs @ [e]) (ls\<lparr> ls_file := recs_of (xs @ [e]),
        ls_file_len := length (recs_of xs) + HEADER_LEN + length (le_op_bytes e), ls_index := index_from 0 (xs @ [e]) \<rparr>)"
      using h es inc by (simp add: holds_def log_simps sorted_wrt_append)
    then show ?thesis
      using log_read_member [OF h mem(1)] mem(2) look ix fl cut by (simp add: truncate_after_def)
  next
    case past
    have "map_of (ls_index ls) k = None" using h past by (simp add: holds_def map_of_index_from_None)
    moreover have "unwrap_or_0 (last_log_index ls) \<le> k"
      using past(2) by (simp add: holds_last [OF h] unwrap_or_0_def)
    moreover have "filter (\<lambda>e. le_index e \<le> k) es = es" using past(2) by simp
    ultimately show ?thesis using h by (simp add: truncate_after_def)
  next
    case before
    have "map_of (ls_index ls) k = None" using h before by (simp add: holds_def map_of_index_from_None)
    moreover have "\<not> unwrap_or_0 (last_log_index ls) \<le> k"
      using before by (simp add: holds_last [OF h] unwrap_or_0_def not_le)
    moreover have "filter (\<lambda>e. le_index e \<le> k) es = []" using before(3) by (auto simp: filter_empty_conv)
    moreover have "filter (\<lambda>(i, _). i \<le> k) (ls_index ls) = []"
      using filter_index_from_prefix [of "[]" es k] h before(3) by (simp add: holds_def)
    ultimately show ?thesis by (simp add: truncate_after_def holds_def)
  qed
qed

lemma purge_loop_holds:
  assumes "holds es ls" and "set xs \<subseteq> set es" and "increasing (ys @ xs)"
  shows "purge_loop (map le_index xs) ls (recs_of ys) (index_from 0 ys) (length (recs_of ys))
    = Inr (recs_of (ys @ xs), index_from 0 (ys @ xs), length (recs_of (ys @ xs)))"
  using assms(2,3)
proof (induction xs arbitrary: ys)
  case (Cons x xs)
  have ins: "bt_insert (le_index x) (length (recs_of ys), le_term x) (index_from 0 ys) = index_from 0 (ys @ [x])"
    using Cons.prems(2) by (subst bt_insert_last) (auto simp: sorted_wrt_append log_simps)
  have "purge_loop (map le_index (x # xs)) ls (recs_of ys) (index_from 0 ys) (length (recs_of ys))
      = purge_loop (map le_index xs) ls (recs_of (ys @ [x])) (index_from 0 (ys @ [x])) (length (recs_of (ys @ [x])))"
    using log_read_member [OF assms(1), of x] Cons.prems(1) by (simp add: ins rec_of_def add.assoc)
  also have "\<dots> = Inr (recs_of (ys @ x # xs), index_from 0 (ys @ x # xs), length (recs_of (ys @ x # xs)))"
    using Cons.IH [of "ys @ [x]"] Cons.prems by simp
  finally show ?case .
qed simp

lemma purge_before_holds:
  assumes h: "holds es ls"
  shows "\<exists>ls'. purge_before k ls = (Inr (), ls') \<and> holds (filter (\<lambda>e. k \<le> le_index e) es) ls'"
proof -
  let ?keep = "filter (\<lambda>e. k \<le> le_index e) es"
  have kept: "filter (\<lambda>i. k \<le> i) (map fst (ls_index ls)) = map le_index ?keep"
    using h by (simp add: holds_def filter_map comp_def)
  show ?thesis
  proof (cases "length ?keep = length es")
    case True
    then have "?keep = es" by (metis filter_id_conv length_filter_less less_irrefl)
    then have "purge_before k ls = (Inr (), ls)"
      unfolding purge_before_def Let_def kept using h by (simp add: holds_def)
    then show ?thesis using \<open>?keep = es\<close> h by simp
  next
    case False
    have inc: "increasing ?keep" "list_all fits ?keep"
      using h by (auto simp: holds_def sorted_wrt_map list_all_iff intro: sorted_wrt_filter)
    have ne: "es \<noteq> []" using False by auto
    have "purge_before k ls = (Inr (), ls\<lparr> ls_file := recs_of ?keep, ls_index := index_from 0 ?keep,
        ls_file_len := length (recs_of ?keep) \<rparr>)"
      unfolding purge_before_def Let_def kept using purge_loop_holds [OF h, of ?keep "[]"] inc False ne h
      by (simp add: holds_def)
    moreover have "holds ?keep (ls\<lparr> ls_file := recs_of ?keep, ls_index := index_from 0 ?keep,
        ls_file_len := length (recs_of ?keep) \<rparr>)"
      using inc by (simp add: holds_def)
    ultimately show ?thesis by blast
  qed
qed

section \<open>Consecutive logs\<close>

text \<open>The log of a Raft node: indexes count up by one.\<close>

definition consecutive :: "log_entry list \<Rightarrow> bool" where
  "consecutive es \<longleftrightarrow> (case es of [] \<Rightarrow> True
     | e # _ \<Rightarrow> map (\<lambda>x. unat (le_index x)) es = [unat (le_index e)..<unat (le_index e) + length es])"

lemma consecutive_iff:
  "consecutive es \<longleftrightarrow> (\<exists>s. map (\<lambda>x. unat (le_index x)) es = [s..<s + length es])"
proof (cases es)
  case (Cons e ys)
  have "s = unat (le_index e)" if "map (\<lambda>x. unat (le_index x)) es = [s..<s + length es]" for s
    using that Cons by (simp add: upt_conv_Cons del: upt_Suc)
  then show ?thesis using Cons by (auto simp: consecutive_def simp del: upt_Suc)
qed (simp add: consecutive_def)

lemma consecutive_increasing: "consecutive es \<Longrightarrow> increasing es"
proof -
  assume "consecutive es"
  then have "sorted_wrt (<) (map (\<lambda>x. unat (le_index x)) es)"
    by (auto simp: consecutive_iff simp del: map_map)
  then show ?thesis by (simp add: sorted_wrt_map word_less_nat_alt)
qed

lemma consecutive_gapless: "consecutive es \<Longrightarrow> gapless es"
proof -
  assume "consecutive es"
  then obtain s where "map (\<lambda>x. unat (le_index x)) es = [s..<s + length es]" by (auto simp: consecutive_iff)
  then have eq: "(\<lambda>x. unat (le_index x)) ` set es = {s..<s + length es}"
    by (metis list.set_map set_upt)
  show ?thesis unfolding gapless_def
  proof (intro allI impI)
    fix i assume "(\<exists>e \<in> set es. le_index e \<le> i) \<and> (\<exists>e \<in> set es. i \<le> le_index e)"
    then obtain a b where ab: "a \<in> set es" "le_index a \<le> i" "b \<in> set es" "i \<le> le_index b" by blast
    have "unat (le_index a) \<in> {s..<s + length es}" "unat (le_index b) \<in> {s..<s + length es}"
      using ab eq by blast+
    with ab have "unat i \<in> (\<lambda>x. unat (le_index x)) ` set es"
      unfolding eq by (simp add: word_le_nat_alt)
    then show "i \<in> le_index ` set es" by (auto simp flip: word_unat_eq_iff)
  qed
qed

lemma consecutive_appendD:
  assumes "consecutive (xs @ ys)"
  shows "consecutive xs" and "consecutive ys"
proof -
  obtain s where s: "map (\<lambda>x. unat (le_index x)) xs @ map (\<lambda>x. unat (le_index x)) ys = [s..<s + length xs + length ys]"
    using assms by (auto simp: consecutive_iff add.assoc)
  have "[s..<s + length xs + length ys] = [s..<s + length xs] @ [s + length xs..<s + length xs + length ys]"
    by (rule upt_add_eq_append) simp
  with s have "map (\<lambda>x. unat (le_index x)) xs = [s..<s + length xs]"
    "map (\<lambda>x. unat (le_index x)) ys = [s + length xs..<s + length xs + length ys]"
    by (simp_all add: append_eq_append_conv)
  then show "consecutive xs" and "consecutive ys" unfolding consecutive_iff by blast+
qed

lemma consecutive_filter:
  assumes "consecutive es"
  shows "consecutive (filter (\<lambda>e. le_index e \<le> k) es)" and "consecutive (filter (\<lambda>e. k \<le> le_index e) es)"
proof -
  have inc: "increasing es" using assms by (rule consecutive_increasing)
  have "filter (\<lambda>e. le_index e \<le> k) es = takeWhile (\<lambda>e. le_index e \<le> k) es"
    using inc by (induction es) (fastforce simp: takeWhile_eq_Nil_iff dest: hd_in_set)+
  then show "consecutive (filter (\<lambda>e. le_index e \<le> k) es)"
    using assms consecutive_appendD(1) by (metis takeWhile_dropWhile_id)
  have "filter (\<lambda>e. k \<le> le_index e) es = dropWhile (\<lambda>e. \<not> k \<le> le_index e) es"
    using inc
  proof (induction es)
    case (Cons a es)
    show ?case
    proof (cases "k \<le> le_index a")
      case True
      with Cons.prems have "\<forall>x \<in> set es. k \<le> le_index x" by (auto intro: order_trans less_imp_le)
      with True show ?thesis by (simp add: filter_id_conv)
    qed (use Cons in simp)
  qed simp
  then show "consecutive (filter (\<lambda>e. k \<le> le_index e) es)"
    using assms consecutive_appendD(2) by (metis takeWhile_dropWhile_id)
qed

section \<open>The contract of a log\<close>

text \<open>What the callers of a log rely on, over the list of entries it holds.\<close>

locale raft_log =
  fixes inv :: "'s \<Rightarrow> bool" and contents :: "'s \<Rightarrow> log_entry list"
    and append :: "log_entry list \<Rightarrow> 's \<Rightarrow> (log_error + unit) \<times> 's"
    and truncate :: "u64 \<Rightarrow> 's \<Rightarrow> (log_error + unit) \<times> 's"
    and purge :: "u64 \<Rightarrow> 's \<Rightarrow> (log_error + unit) \<times> 's"
    and range_of :: "u64 \<Rightarrow> u64 \<Rightarrow> 's \<Rightarrow> log_error + log_entry list"
    and last_of :: "'s \<Rightarrow> u64 option"
  assumes contents_consecutive: "inv s \<Longrightarrow> consecutive (contents s)"
    and append_law: "inv s \<Longrightarrow> consecutive (contents s @ new) \<Longrightarrow> list_all fits new
      \<Longrightarrow> \<exists>s'. append new s = (Inr (), s') \<and> inv s' \<and> contents s' = contents s @ new"
    and truncate_law: "inv s
      \<Longrightarrow> \<exists>s'. truncate k s = (Inr (), s') \<and> inv s' \<and> contents s' = filter (\<lambda>e. le_index e \<le> k) (contents s)"
    and purge_law: "inv s
      \<Longrightarrow> \<exists>s'. purge k s = (Inr (), s') \<and> inv s' \<and> contents s' = filter (\<lambda>e. k \<le> le_index e) (contents s)"
    and range_law: "inv s
      \<Longrightarrow> range_of a b s = Inr (filter (\<lambda>e. a \<le> le_index e \<and> le_index e \<le> b) (contents s))"
    and last_law: "inv s
      \<Longrightarrow> last_of s = (if contents s = [] then None else Some (le_index (last (contents s))))"

text \<open>Sequences of commands and what they mean for the entries.\<close>

datatype log_cmd = Append "log_entry list" | TruncateAfter u64 | PurgeBefore u64

fun spec_exec :: "log_cmd \<Rightarrow> log_entry list \<Rightarrow> log_entry list option" where
  "spec_exec (Append new) es = (if consecutive (es @ new) \<and> list_all fits new then Some (es @ new) else None)"
| "spec_exec (TruncateAfter k) es = Some (filter (\<lambda>e. le_index e \<le> k) es)"
| "spec_exec (PurgeBefore k) es = Some (filter (\<lambda>e. k \<le> le_index e) es)"

fun spec_run :: "log_cmd list \<Rightarrow> log_entry list \<Rightarrow> log_entry list option" where
  "spec_run [] es = Some es"
| "spec_run (c # cs) es = Option.bind (spec_exec c es) (spec_run cs)"

fun exec_with :: "(log_entry list \<Rightarrow> 's \<Rightarrow> 'r \<times> 's) \<Rightarrow> (u64 \<Rightarrow> 's \<Rightarrow> 'r \<times> 's) \<Rightarrow> (u64 \<Rightarrow> 's \<Rightarrow> 'r \<times> 's)
    \<Rightarrow> log_cmd \<Rightarrow> 's \<Rightarrow> 'r \<times> 's" where
  "exec_with app tr pu (Append es) s = app es s"
| "exec_with app tr pu (TruncateAfter k) s = tr k s"
| "exec_with app tr pu (PurgeBefore k) s = pu k s"

fun run_with :: "(log_cmd \<Rightarrow> 's \<Rightarrow> (log_error + unit) \<times> 's) \<Rightarrow> log_cmd list \<Rightarrow> 's \<Rightarrow> (log_error + unit) \<times> 's" where
  "run_with ex [] s = (Inr (), s)"
| "run_with ex (c # cs) s = (case ex c s of (Inr _, s') \<Rightarrow> run_with ex cs s' | (Inl e, s') \<Rightarrow> (Inl e, s'))"

context raft_log
begin

lemma exec_law:
  assumes "inv s" and "spec_exec c (contents s) = Some es"
  shows "\<exists>s'. exec_with append truncate purge c s = (Inr (), s') \<and> inv s' \<and> contents s' = es"
  using assms append_law truncate_law purge_law by (cases c) (auto split: if_splits)

lemma run_law:
  assumes "inv s" and "spec_run cs (contents s) = Some es"
  shows "\<exists>s'. run_with (exec_with append truncate purge) cs s = (Inr (), s') \<and> inv s' \<and> contents s' = es"
  using assms
proof (induction cs arbitrary: s)
  case (Cons c cs)
  from Cons.prems obtain mid where mid: "spec_exec c (contents s) = Some mid" "spec_run cs mid = Some es"
    by (auto simp: bind_eq_Some_conv)
  from exec_law [OF Cons.prems(1) mid(1)] obtain s' where
    s': "exec_with append truncate purge c s = (Inr (), s')" "inv s'" "contents s' = mid" by blast
  from Cons.IH [of s'] s' mid(2) show ?case by simp
qed simp

text \<open>Replacing a conflicting suffix, the way a follower reconciles with a new leader.\<close>

lemma replace_suffix:
  assumes "inv s" and "consecutive (filter (\<lambda>e. le_index e \<le> k) (contents s) @ new)" and "list_all fits new"
  shows "\<exists>s1 s2. truncate k s = (Inr (), s1) \<and> append new s1 = (Inr (), s2) \<and> inv s2
     \<and> contents s2 = filter (\<lambda>e. le_index e \<le> k) (contents s) @ new"
  using truncate_law [OF assms(1), of k] append_law assms(2,3) by metis

end

section \<open>The store keeps the contract\<close>

definition log_contents :: "log_store \<Rightarrow> log_entry list" where
  "log_contents ls = (case read_all (map fst (ls_index ls)) ls of Inr es \<Rightarrow> es | Inl _ \<Rightarrow> [])"

definition log_inv :: "log_store \<Rightarrow> bool" where
  "log_inv ls \<longleftrightarrow> holds (log_contents ls) ls \<and> consecutive (log_contents ls)"

lemma holds_contents: "holds es ls \<Longrightarrow> log_contents ls = es"
  using read_all_members [of es ls es] by (simp add: log_contents_def holds_def)

lemma log_invI: "holds es ls \<Longrightarrow> consecutive es \<Longrightarrow> log_inv ls \<and> log_contents ls = es"
  by (simp add: log_inv_def holds_contents)

interpretation rl: raft_log log_inv log_contents log_append truncate_after purge_before read_range last_log_index
proof unfold_locales
  fix s new k a b
  show "log_inv s \<Longrightarrow> consecutive (log_contents s)" by (simp add: log_inv_def)
  show "\<exists>s'. log_append new s = (Inr (), s') \<and> log_inv s' \<and> log_contents s' = log_contents s @ new"
    if "log_inv s" "consecutive (log_contents s @ new)" "list_all fits new"
    using log_append_holds [of "log_contents s" s new] that log_invI consecutive_increasing [OF that(2)]
    by (fastforce simp: log_inv_def appendable_def)
  show "\<exists>s'. truncate_after k s = (Inr (), s') \<and> log_inv s' \<and> log_contents s' = filter (\<lambda>e. le_index e \<le> k) (log_contents s)"
    if "log_inv s"
    using truncate_after_holds [of "log_contents s" s k] that log_invI consecutive_gapless consecutive_filter(1)
    unfolding log_inv_def by metis
  show "\<exists>s'. purge_before k s = (Inr (), s') \<and> log_inv s' \<and> log_contents s' = filter (\<lambda>e. k \<le> le_index e) (log_contents s)"
    if "log_inv s"
    using purge_before_holds [of "log_contents s" s k] that log_invI consecutive_filter(2)
    unfolding log_inv_def by metis
  show "read_range a b s = Inr (filter (\<lambda>e. a \<le> le_index e \<and> le_index e \<le> b) (log_contents s))" if "log_inv s"
    using that by (simp add: log_inv_def read_range_holds)
  show "last_log_index s = (if log_contents s = [] then None else Some (le_index (last (log_contents s))))" if "log_inv s"
    using that by (simp add: log_inv_def holds_last)
qed

text \<open>C28: every sequence of appends, truncations and purges that the abstract log allows
  (appended indexes continue the log) succeeds on the store, the store then holds exactly
  the entries of the abstract log, any range read returns them, and closing the store and
  opening the file again gives the very same store.\<close>

theorem log_refines:
  assumes "spec_run cmds [] = Some es"
  shows "\<exists>ls. run_with (exec_with log_append truncate_after purge_before) cmds (log_open []) = (Inr (), ls)
     \<and> log_contents ls = es
     \<and> read_range a b ls = Inr (filter (\<lambda>e. a \<le> le_index e \<and> le_index e \<le> b) es)
     \<and> log_open (ls_file ls) = ls"
proof -
  have "holds [] (log_open [])" using log_open_holds [of "[]"] by simp
  then have new: "log_inv (log_open [])" "log_contents (log_open []) = []"
    using log_invI [of "[]" "log_open []"] by (simp_all add: consecutive_def)
  then obtain ls where ls: "run_with (exec_with log_append truncate_after purge_before) cmds (log_open []) = (Inr (), ls)"
    "log_inv ls" "log_contents ls = es"
    using rl.run_law [OF new(1), of cmds es] assms by auto
  then show ?thesis
    using rl.range_law [OF ls(2)] holds_reopen [of es ls] by (auto simp: log_inv_def)
qed

definition demo_cmds :: "log_cmd list" where
  "demo_cmds = [Append [\<lparr> le_index = 1, le_term = 1, le_op_bytes = [7] \<rparr>, \<lparr> le_index = 2, le_term = 1, le_op_bytes = [8, 9] \<rparr>],
     TruncateAfter 1, Append [\<lparr> le_index = 2, le_term = 2, le_op_bytes = [5] \<rparr>], PurgeBefore 2]"

lemma demo_cmds_spec: "spec_run demo_cmds [] = Some [\<lparr> le_index = 2, le_term = 2, le_op_bytes = [5] \<rparr>]"
  by (simp add: demo_cmds_def consecutive_def fits_def upt_rec word_le_nat_alt)

theorem log_refines_witness:
  "\<exists>ls. run_with (exec_with log_append truncate_after purge_before) demo_cmds (log_open []) = (Inr (), ls)
     \<and> log_contents ls = [\<lparr> le_index = 2, le_term = 2, le_op_bytes = [5] \<rparr>]"
  using log_refines [OF demo_cmds_spec] by blast

section \<open>Where the store falls short\<close>

text \<open>An append that is refused half-way has already written and indexed its first
  entries but not moved the recorded file length; the next append that succeeds then indexes
  its entry at the wrong offset and the entry it acknowledged cannot be read back.\<close>

theorem append_failure_corrupts:
  "let e = (\<lambda>i. \<lparr> le_index = i, le_term = 1, le_op_bytes = [] \<rparr>);
       (r1, s1) = log_append [e 1, e 1] (log_open []);
       (r2, s2) = log_append [e 2] s1
   in r1 = Inl (NonMonotonic 1 1) \<and> r2 = Inr () \<and> log_read 2 s2 = Inl (IndexMismatch 0 2 1)"
  by (simp add: log_append_def log_open_def rebuild_index_def rebuild_loop.simps last_log_index_def bt_last_key_def
      unwrap_or_0_def log_read_def read_exact_def parse_header_def header_of_def HEADER_LEN_def slice_of_def word_le_nat_alt)

lemma log_open_torn_header:
  assumes "increasing es" and "list_all fits es" and "length rest < HEADER_LEN"
  shows "log_open (recs_of es @ rest)
    = \<lparr> ls_file = recs_of es @ rest, ls_index = index_from 0 es, ls_file_len = length (recs_of es) \<rparr>"
  using rebuild_loop_recs [OF assms(2,3), of "[]" "[]"] fold_insert_sorted [of "index_from 0 es" "[]"] assms
  by (simp add: log_open_def rebuild_index_def del: map_map)

lemma log_open_torn_body:
  assumes "fits e" and "length part < length (le_op_bytes e)"
  shows "log_open (header_of e @ part) = \<lparr> ls_file = header_of e @ part,
    ls_index = [(le_index e, (0, le_term e))], ls_file_len = length (rec_of e) \<rparr>"
proof -
  have "slice_of 0 HEADER_LEN (header_of e @ part) = header_of e"
    using slice_of_prefix [of "header_of e" part] by simp
  moreover have "rebuild_loop (header_of e @ part) (HEADER_LEN + length (le_op_bytes e)) ix
      = (ix, HEADER_LEN + length (le_op_bytes e))" for ix
    using assms(2) by (subst rebuild_loop.simps) simp
  ultimately have "rebuild_loop (header_of e @ part) 0 [] = ([(le_index e, (0, le_term e))], length (rec_of e))"
    using assms(1) by (subst rebuild_loop.simps) (simp add: parse_header_of length_rec_of)
  then show ?thesis by (simp add: log_open_def rebuild_index_def)
qed

text \<open>A record cut short by a crash is not repaired on open.  With one stray byte after
  the last record the next append succeeds and its entry cannot be read; a record whose
  header is complete but whose body is missing is indexed as if it were there.\<close>

theorem torn_record_not_repaired:
  "let e = (\<lambda>i. \<lparr> le_index = i, le_term = 1, le_op_bytes = [] \<rparr>);
       big = \<lparr> le_index = 2, le_term = 1, le_op_bytes = [7, 7] \<rparr>;
       (r, s) = log_append [e 2] (log_open (recs_of [e 1] @ [0]));
       t = log_open (header_of big @ [7])
   in r = Inr () \<and> log_read 2 s = Inl (IndexMismatch 20 2 512)
      \<and> last_log_index t = Some 2 \<and> log_read 2 t = Inl UnexpectedEof"
proof -
  have two: "u64_from_le (0 # take 7 (u64_le 2)) = 512"
    by (simp add: u64_le_def u64_from_le_def to_le_numeral)
  have "log_open (recs_of [\<lparr> le_index = 1, le_term = 1, le_op_bytes = [] \<rparr>] @ [0])
      = \<lparr> ls_file = recs_of [\<lparr> le_index = 1, le_term = 1, le_op_bytes = [] \<rparr>] @ [0],
          ls_index = [(1, (0, 1))], ls_file_len = 20 \<rparr>"
    by (subst log_open_torn_header) (simp_all add: fits_def HEADER_LEN_def length_rec_of)
  moreover have "log_open (header_of \<lparr> le_index = 2, le_term = 1, le_op_bytes = [7, 7] \<rparr> @ [7])
      = \<lparr> ls_file = header_of \<lparr> le_index = 2, le_term = 1, le_op_bytes = [7, 7] \<rparr> @ [7],
          ls_index = [(2, (0, 1))], ls_file_len = 22 \<rparr>"
    by (subst log_open_torn_body) (simp_all add: fits_def HEADER_LEN_def length_rec_of)
  ultimately show ?thesis
    using two
    by (simp add: Let_def log_append_def last_log_index_def bt_last_key_def unwrap_or_0_def log_read_def read_exact_def
        parse_header_def header_of_def rec_of_def HEADER_LEN_def slice_of_def word_le_nat_alt from_le_to_le)
qed

end
