(* ===== verification/Raft_Fsm.thy ===== *)
theory Raft_Fsm
  imports Placement Metadata
begin

text \<open>
  The replicated state machine of the control plane: its operations and state
  (\<open>src/raft/fsm/ops.rs\<close>) and the machine with its applied-index cursor
  (\<open>src/raft/fsm/mod.rs\<close>).  The locks of the source guard single operations and are
  not modelled; an operation is a function on the state it mutates.
\<close>

section \<open>Operations on the state\<close>

datatype voter_kind = Voter | Observer

record member =
  m_node_id :: string
  m_advertise_s3 :: string
  m_advertise_cluster :: string
  m_voter_kind :: voter_kind
  m_added_at_unix_secs :: u64

record placement =
  p_epoch_id :: u64
  p_cluster_id :: string
  p_volumes :: "placement_volume list"

record state =
  members :: "string \<rightharpoonup> member"
  placement :: placement
  buckets :: "string \<rightharpoonup> bucket_settings"

datatype op =
    AddNode string string string voter_kind u64
  | RemoveNode string
  | SetPlacementEpoch u64 string "placement_volume list"
  | SetBucketSettings string bucket_settings
  | DeleteBucketSettings string

datatype apply_error = EpochRegression u64 u64 | UnknownNode string | UnknownBucket string

definition default_state :: state where
  "default_state = \<lparr> members = Map.empty, placement = \<lparr> p_epoch_id = 0, p_cluster_id = [], p_volumes = [] \<rparr>,
     buckets = Map.empty \<rparr>"

text \<open>\<open>Op::apply\<close> mutates the state it is given: the result comes with the state it leaves.\<close>

fun op_apply :: "op \<Rightarrow> state \<Rightarrow> (apply_error + unit) \<times> state" where
  "op_apply (AddNode node_id s3 cl kind added) st =
     (Inr (), st\<lparr> members := (members st)(node_id \<mapsto> \<lparr> m_node_id = node_id, m_advertise_s3 = s3,
        m_advertise_cluster = cl, m_voter_kind = kind, m_added_at_unix_secs = added \<rparr>) \<rparr>)"
| "op_apply (RemoveNode node_id) st =
     (if members st node_id = None then Inl (UnknownNode node_id) else Inr (),
      st\<lparr> members := (members st)(node_id := None) \<rparr>)"
| "op_apply (SetPlacementEpoch epoch_id cluster_id volumes) st =
     (if epoch_id \<le> p_epoch_id (placement st) \<and> p_epoch_id (placement st) \<noteq> 0
      then (Inl (EpochRegression (p_epoch_id (placement st)) epoch_id), st)
      else (Inr (), st\<lparr> placement := \<lparr> p_epoch_id = epoch_id, p_cluster_id = cluster_id, p_volumes = volumes \<rparr> \<rparr>))"
| "op_apply (SetBucketSettings bucket settings) st =
     (Inr (), st\<lparr> buckets := (buckets st)(bucket \<mapsto> settings) \<rparr>)"
| "op_apply (DeleteBucketSettings bucket) st =
     (if buckets st bucket = None then Inl (UnknownBucket bucket) else Inr (),
      st\<lparr> buckets := (buckets st)(bucket := None) \<rparr>)"

section \<open>The machine\<close>

record fsm =
  fsm_state :: state
  fsm_applied_index :: u64

definition fsm_new :: fsm where
  "fsm_new = \<lparr> fsm_state = default_state, fsm_applied_index = 0 \<rparr>"

definition fsm_apply :: "u64 \<Rightarrow> op \<Rightarrow> fsm \<Rightarrow> (apply_error + u64) \<times> fsm" where
  "fsm_apply index op m = (case op_apply op (fsm_state m) of
      (Inl e, st) \<Rightarrow> (Inl e, m\<lparr> fsm_state := st \<rparr>)
    | (Inr _, st) \<Rightarrow>
        (let cursor = (if index > fsm_applied_index m then index else fsm_applied_index m)
         in (Inr cursor, m\<lparr> fsm_state := st, fsm_applied_index := cursor \<rparr>)))"

definition fsm_snapshot :: "fsm \<Rightarrow> u64 \<times> state" where
  "fsm_snapshot m = (fsm_applied_index m, fsm_state m)"

definition fsm_install_snapshot :: "u64 \<Rightarrow> state \<Rightarrow> fsm \<Rightarrow> fsm" where
  "fsm_install_snapshot index st m = m\<lparr> fsm_applied_index := index, fsm_state := st \<rparr>"

definition fsm_bucket_settings :: "fsm \<Rightarrow> string \<Rightarrow> bucket_settings option" where
  "fsm_bucket_settings m bucket = buckets (fsm_state m) bucket"

definition fsm_member :: "fsm \<Rightarrow> string \<Rightarrow> member option" where
  "fsm_member m node_id = members (fsm_state m) node_id"

definition fsm_placement :: "fsm \<Rightarrow> placement" where
  "fsm_placement m = placement (fsm_state m)"

text \<open>\<open>members()\<close> lists the values of a hash map in no particular order: the set of them.\<close>

definition fsm_members :: "fsm \<Rightarrow> member set" where
  "fsm_members m = ran (members (fsm_state m))"

section \<open>One operation\<close>

lemma op_apply_atomic: "fst (op_apply op st) = Inl e \<Longrightarrow> snd (op_apply op st) = st"
  by (cases op) (auto simp: fun_upd_idem split: if_splits)

lemma fsm_apply_atomic: "fst (fsm_apply i op m) = Inl e \<Longrightarrow> snd (fsm_apply i op m) = m"
  using op_apply_atomic [of op "fsm_state m" e]
  by (auto simp: fsm_apply_def Let_def split: prod.splits sum.splits)

text \<open>What each table answers after an operation that was accepted.\<close>

lemma op_apply_ok:
  assumes "op_apply op st = (Inr (), st')"
  shows "members st' k = (case op of
        AddNode n s3 cl kd ad \<Rightarrow> if k = n then Some \<lparr> m_node_id = n, m_advertise_s3 = s3, m_advertise_cluster = cl,
           m_voter_kind = kd, m_added_at_unix_secs = ad \<rparr> else members st k
      | RemoveNode n \<Rightarrow> if k = n then None else members st k
      | _ \<Rightarrow> members st k)"
    and "buckets st' b = (case op of
        SetBucketSettings n s \<Rightarrow> if b = n then Some s else buckets st b
      | DeleteBucketSettings n \<Rightarrow> if b = n then None else buckets st b
      | _ \<Rightarrow> buckets st b)"
    and "placement st' = (case op of
        SetPlacementEpoch e c vs \<Rightarrow> \<lparr> p_epoch_id = e, p_cluster_id = c, p_volumes = vs \<rparr>
      | _ \<Rightarrow> placement st)"
  using assms by (cases op; auto split: if_splits)+

section \<open>Runs\<close>

text \<open>A run applies a sequence of indexed operations; one that is refused changes nothing.\<close>

definition fsm_run :: "(u64 \<times> op) list \<Rightarrow> fsm \<Rightarrow> fsm" where
  "fsm_run = fold (\<lambda>(i, op) m. snd (fsm_apply i op m))"

lemma fsm_run_simps [simp]:
  "fsm_run [] m = m" "fsm_run ((i, op) # ops) m = fsm_run ops (snd (fsm_apply i op m))"
  "fsm_run (xs @ ys) m = fsm_run ys (fsm_run xs m)"
  by (simp_all add: fsm_run_def)

definition members_ok :: "state \<Rightarrow> bool" where
  "members_ok st \<longleftrightarrow> (\<forall>k m. members st k = Some m \<longrightarrow> m_node_id m = k)"

lemma op_apply_members_ok: "members_ok st \<Longrightarrow> members_ok (snd (op_apply op st))"
  by (cases op) (auto simp: members_ok_def)

lemma snd_fsm_apply_state: "fsm_state (snd (fsm_apply i op m)) = snd (op_apply op (fsm_state m))"
  by (auto simp: fsm_apply_def Let_def split: prod.splits sum.splits)

lemma op_apply_epoch: "p_epoch_id (placement st) \<le> p_epoch_id (placement (snd (op_apply op st)))"
  by (cases op) (auto simp: not_le)

lemma fsm_apply_cursor: "fsm_applied_index m \<le> fsm_applied_index (snd (fsm_apply i op m))"
  by (auto simp: fsm_apply_def Let_def split: prod.splits sum.splits)

lemma fsm_run_invariant:
  fixes m :: fsm
  assumes "members_ok (fsm_state m)"
  shows "members_ok (fsm_state (fsm_run ops m))"
    and "p_epoch_id (fsm_placement m) \<le> p_epoch_id (fsm_placement (fsm_run ops m))"
    and "fsm_applied_index m \<le> fsm_applied_index (fsm_run ops m)"
  using assms
proof (induction ops arbitrary: m)
  case (Cons x ops)
  obtain i op where x: "x = (i, op)" by fastforce
  have ok: "members_ok (fsm_state m) \<Longrightarrow> members_ok (fsm_state (snd (fsm_apply i op m)))" for m :: fsm
    by (simp add: snd_fsm_apply_state op_apply_members_ok)
  { case (1 m) show ?case using Cons(1) [OF ok [OF 1]] by (simp add: x)
  next
    case (2 m)
    have "p_epoch_id (fsm_placement m) \<le> p_epoch_id (fsm_placement (snd (fsm_apply i op m)))"
      by (simp add: fsm_placement_def snd_fsm_apply_state op_apply_epoch)
    with Cons(2) [OF ok [OF 2]] show ?case by (simp add: x)
  next
    case (3 m)
    show ?case using Cons(3) [OF ok [OF 3]] fsm_apply_cursor [of m i op] by (simp add: x) }
qed simp_all

text \<open>When the machine refuses an operation.\<close>

definition refused :: "op \<Rightarrow> state \<Rightarrow> bool" where
  "refused op st = (case op of
      RemoveNode n \<Rightarrow> members st n = None
    | DeleteBucketSettings b \<Rightarrow> buckets st b = None
    | SetPlacementEpoch e c vs \<Rightarrow> p_epoch_id (placement st) \<noteq> 0 \<and> e \<le> p_epoch_id (placement st)
    | _ \<Rightarrow> False)"


lemma members_ok_default: "members_ok (fsm_state fsm_new)"
  by (simp add: members_ok_def fsm_new_def default_state_def)

text \<open>Along every run of the machine from its initial state, whatever operations are
  submitted, each member is filed under its own node id, and neither the placement epoch nor
  the applied index ever decreases.\<close>

theorem fsm_run_monotone:
  "members_ok (fsm_state (fsm_run xs fsm_new))
   \<and> p_epoch_id (fsm_placement (fsm_run xs fsm_new)) \<le> p_epoch_id (fsm_placement (fsm_run (xs @ ys) fsm_new))
   \<and> fsm_applied_index (fsm_run xs fsm_new) \<le> fsm_applied_index (fsm_run (xs @ ys) fsm_new)"
  using fsm_run_invariant(1) [OF members_ok_default, of xs] fsm_run_invariant(2,3) [of "fsm_run xs fsm_new" ys]
  by simp

end
