(* ===== verification/Raft_Store.thy ===== *)
theory Raft_Store
  imports Raft_Fsm
begin

text \<open>
  The durable side of the control plane beside its log: the snapshot directory
  (\<open>src/raft/storage/snapshot.rs\<close>) and the persisted vote
  (\<open>src/raft/storage/meta.rs\<close>).  A directory is the list of its file names with
  their bytes; a temporary file that is renamed within one operation leaves only its
  target behind.  The serializers (bincode, msgpack, JSON) and the clock are parameters.
\<close>

section \<open>Snapshots\<close>

record snapshot_meta =
  sm_last_applied_index :: u64
  sm_last_applied_term :: u64
  sm_created_at_unix_secs :: u64

datatype snapshot_error = SnapIo | SnapBincode | SnapMsgpackDecode

type_synonym dir = "(string \<times> bytes) list"

definition remove_file :: "string \<Rightarrow> dir \<Rightarrow> dir" where
  "remove_file name d = filter (\<lambda>(n, _). n \<noteq> name) d"

definition put_file :: "string \<Rightarrow> bytes \<Rightarrow> dir \<Rightarrow> dir" where
  "put_file name bs d = (name, bs) # remove_file name d"

definition path_for :: "u64 \<Rightarrow> string" where
  "path_for index = ''snap-'' @ show_nat (unat index) @ ''.msgpack''"

definition snap_name_index :: "string \<Rightarrow> u64 option" where
  "snap_name_index name = Option.bind (strip_prefix ''snap-'' name) (\<lambda>s.
     Option.bind (strip_suffix ''.msgpack'' s) parse_u64)"

definition list_indexes :: "dir \<Rightarrow> u64 list" where
  "list_indexes d = List.map_filter snap_name_index (map fst d)"

definition max_kept :: nat where
  "max_kept = 2"

definition prune_older_than :: "u64 \<Rightarrow> dir \<Rightarrow> dir" where
  "prune_older_than latest d =
     (let indexes = sort (list_indexes d) in
      if length indexes \<le> max_kept then d
      else let drop_until = length indexes - max_kept in
        fold (\<lambda>idx d. if idx \<ge> latest then d else remove_file (path_for idx) d) (take drop_until indexes) d)"

definition snap_store ::
  "(snapshot_meta \<Rightarrow> bytes) \<Rightarrow> (state \<Rightarrow> bytes) \<Rightarrow> u64 \<Rightarrow> u64 \<Rightarrow> u64 \<Rightarrow> state \<Rightarrow> dir
   \<Rightarrow> snapshot_error + (snapshot_meta \<times> dir)" where
  "snap_store bincode msgpack now last_applied_index last_applied_term st d =
     (let meta = \<lparr> sm_last_applied_index = last_applied_index, sm_last_applied_term = last_applied_term,
                   sm_created_at_unix_secs = now \<rparr>;
          body = msgpack st;
          header = bincode meta
      in if length header > 2 ^ 32 - 1 then Inl SnapIo
         else let content = to_le 4 (length header) @ header @ body;
                  d' = put_file (path_for last_applied_index) content d
              in Inr (meta, prune_older_than last_applied_index d'))"

definition load_latest ::
  "(bytes \<Rightarrow> snapshot_meta option) \<Rightarrow> (bytes \<Rightarrow> state option) \<Rightarrow> dir
   \<Rightarrow> snapshot_error + (snapshot_meta \<times> state) option" where
  "load_latest unbincode unmsgpack d =
     (let candidates = sort (list_indexes d) in
      if candidates = [] then Inr None
      else (case map_of d (path_for (last candidates)) of
              None \<Rightarrow> Inl SnapIo
            | Some f \<Rightarrow>
                if length f < 4 then Inl SnapIo
                else let header_len = from_le (slice_of 0 4 f) in
                  if length f < 4 + header_len then Inl SnapIo
                  else (case unbincode (slice_of 4 header_len f) of
                          None \<Rightarrow> Inl SnapBincode
                        | Some meta \<Rightarrow>
                            (case unmsgpack (drop (4 + header_len) f) of
                               None \<Rightarrow> Inl SnapMsgpackDecode
                             | Some st \<Rightarrow> Inr (Some (meta, st))))))"

section \<open>Votes\<close>

record vote =
  v_term :: u64
  v_voted_for :: string

datatype vote_error = VoteParse

definition default_vote :: vote where
  "default_vote = \<lparr> v_term = 0, v_voted_for = [] \<rparr>"

text \<open>The vote file: absent before the first save.\<close>

definition vote_load :: "(bytes \<Rightarrow> vote option) \<Rightarrow> bytes option \<Rightarrow> vote_error + vote" where
  "vote_load from_slice f = (case f of
      None \<Rightarrow> Inr default_vote
    | Some bs \<Rightarrow> (case from_slice bs of Some v \<Rightarrow> Inr v | None \<Rightarrow> Inl VoteParse))"

definition vote_save :: "(vote \<Rightarrow> bytes) \<Rightarrow> vote \<Rightarrow> bytes option \<Rightarrow> bytes option" where
  "vote_save to_vec v f = Some (to_vec v)"

section \<open>The snapshot directory\<close>

lemma snap_name_index_path_for [simp]: "snap_name_index (path_for i) = Some i"
proof -
  have "strip_prefix ''snap-'' (path_for i) = Some (show_nat (unat i) @ ''.msgpack'')"
    unfolding path_for_def by (rule strip_prefix_append)
  moreover have "strip_suffix ''.msgpack'' (show_nat (unat i) @ ''.msgpack'') = Some (show_nat (unat i))"
    by (rule strip_suffix_append)
  ultimately show ?thesis by (simp add: snap_name_index_def parse_u64_show)
qed

lemma path_for_inj [simp]: "path_for i = path_for j \<longleftrightarrow> i = j"
  by (auto simp: path_for_def dest: show_u64_inj)

text \<open>The directory holds snapshots only, each under its canonical name.\<close>

definition snap_dir :: "dir \<Rightarrow> bool" where
  "snap_dir d \<longleftrightarrow> distinct (map fst d) \<and> (\<forall>n \<in> set (map fst d). \<exists>i. n = path_for i)"

lemma snap_dir_indexes:
  assumes "snap_dir d"
  shows "map fst d = map path_for (list_indexes d)" and "distinct (list_indexes d)"
proof -
  have "\<forall>n \<in> set xs. \<exists>i. n = path_for i \<Longrightarrow> xs = map path_for (List.map_filter snap_name_index xs)" for xs
    by (induction xs) (auto simp: List.map_filter_simps)
  then show eq: "map fst d = map path_for (list_indexes d)"
    using assms by (simp add: snap_dir_def list_indexes_def)
  show "distinct (list_indexes d)"
    using assms unfolding snap_dir_def eq by (simp add: distinct_map)
qed

lemma snap_dir_mem: "snap_dir d \<Longrightarrow> i \<in> set (list_indexes d) \<longleftrightarrow> path_for i \<in> fst ` set d"
  using snap_dir_indexes(1) [of d] by (metis (no_types, lifting) image_iff list.set_map path_for_inj)

lemma remove_file_facts:
  "fst ` set (remove_file n d) = fst ` set d - {n}"
  "distinct (map fst d) \<Longrightarrow> distinct (map fst (remove_file n d))"
  "map_of (remove_file n d) m = (if m = n then None else map_of d m)"
  by (auto simp: remove_file_def distinct_map inj_on_def map_of_filter_in image_iff)
    (induction d; auto)+

lemma snap_dir_remove: "snap_dir d \<Longrightarrow> snap_dir (remove_file n d)"
  by (auto simp: snap_dir_def remove_file_facts)

lemma snap_dir_put: "snap_dir d \<Longrightarrow> snap_dir (put_file (path_for i) bs d)"
  by (auto simp: snap_dir_def put_file_def remove_file_facts)

lemma put_file_facts:
  "snap_dir d \<Longrightarrow> set (list_indexes (put_file (path_for i) bs d)) = insert i (set (list_indexes d))"
  "map_of (put_file n bs d) m = (if m = n then Some bs else map_of d m)"
proof -
  assume d: "snap_dir d"
  have "j \<in> set (list_indexes (put_file (path_for i) bs d)) \<longleftrightarrow> j \<in> insert i (set (list_indexes d))" for j
    unfolding snap_dir_mem [OF snap_dir_put [OF d]] by (auto simp: put_file_def remove_file_facts snap_dir_mem [OF d])
  then show "set (list_indexes (put_file (path_for i) bs d)) = insert i (set (list_indexes d))" by blast
qed (simp add: put_file_def remove_file_facts)

definition prune_fold :: "u64 \<Rightarrow> u64 list \<Rightarrow> dir \<Rightarrow> dir" where
  "prune_fold latest = fold (\<lambda>idx d. if idx \<ge> latest then d else remove_file (path_for idx) d)"

lemma remove_file_indexes:
  assumes "snap_dir d"
  shows "set (list_indexes (remove_file (path_for l) d)) = set (list_indexes d) - {l}"
proof -
  have "j \<in> set (list_indexes (remove_file (path_for l) d)) \<longleftrightarrow> j \<in> set (list_indexes d) - {l}" for j
    unfolding snap_dir_mem [OF snap_dir_remove [OF assms]] by (auto simp: remove_file_facts snap_dir_mem [OF assms])
  then show ?thesis by blast
qed

lemma prune_fold_facts:
  "snap_dir d \<Longrightarrow> \<forall>i \<in> set L. i < latest \<Longrightarrow>
   snap_dir (prune_fold latest L d)
   \<and> set (list_indexes (prune_fold latest L d)) = set (list_indexes d) - set L
   \<and> (\<forall>i. i \<notin> set L \<longrightarrow> map_of (prune_fold latest L d) (path_for i) = map_of d (path_for i))"
proof (induction L arbitrary: d)
  case (Cons l L)
  have "prune_fold latest (l # L) d = prune_fold latest L (remove_file (path_for l) d)"
    using Cons.prems(2) by (auto simp: prune_fold_def)
  with Cons.IH [OF snap_dir_remove [OF Cons.prems(1), of "path_for l"]] Cons.prems show ?case
    by (auto simp: remove_file_indexes remove_file_facts)
qed (simp add: prune_fold_def)

lemma last_sorted_max:
  fixes x :: "'a::linorder"
  shows "sorted xs \<Longrightarrow> x \<in> set xs \<Longrightarrow> \<forall>y \<in> set xs. y \<le> x \<Longrightarrow> last xs = x"
  by (induction xs) (auto simp: antisym)

lemma prune_older_than_facts:
  assumes d: "snap_dir d" and i: "i \<in> set (list_indexes d)" and top: "\<forall>j \<in> set (list_indexes d). j \<le> i"
  shows "snap_dir (prune_older_than i d)"
    and "length (list_indexes (prune_older_than i d)) \<le> max_kept"
    and "i \<in> set (list_indexes (prune_older_than i d))"
    and "map_of (prune_older_than i d) (path_for i) = map_of d (path_for i)"
    and "p \<in> set (list_indexes d) \<Longrightarrow> \<forall>j \<in> set (list_indexes d). j = i \<or> j \<le> p
      \<Longrightarrow> map_of (prune_older_than i d) (path_for p) = map_of d (path_for p)"
    and "set (list_indexes (prune_older_than i d)) \<subseteq> set (list_indexes d)"
proof -
  define S where "S = sort (list_indexes d)"
  define n where "n = length S - max_kept"
  have S: "sorted_wrt (<) S" "set S = set (list_indexes d)" "length S = length (list_indexes d)"
    using snap_dir_indexes(2) [OF d] by (simp_all add: S_def strict_sorted_iff)
  have prune: "prune_older_than i d = prune_fold i (take n S) d"
    by (auto simp: prune_older_than_def prune_fold_def S_def n_def Let_def)
  have cross: "\<forall>x \<in> set (take n S). \<forall>y \<in> set (drop n S). x < y"
    using S(1) by (metis append_take_drop_id sorted_wrt_append)
  have lastS: "last S = i" "S \<noteq> []"
    using last_sorted_max [of S i] S i top strict_sorted_iff [of S] by auto
  have i_drop: "i \<in> set (drop n S)"
    using lastS by (metis S_def n_def drop_eq_Nil diff_less last_drop last_in_set leD le_0_eq length_0_conv max_kept_def
        neq0_conv not_less numeral_2_eq_2 zero_less_Suc)
  then have below: "\<forall>j \<in> set (take n S). j < i"
    using cross by blast
  note facts = prune_fold_facts [OF d below, THEN conjunct1] prune_fold_facts [OF d below, THEN conjunct2, THEN conjunct1]
    prune_fold_facts [OF d below, THEN conjunct2, THEN conjunct2, rule_format]
  show "snap_dir (prune_older_than i d)" unfolding prune by (rule facts(1))
  have keep: "set (list_indexes (prune_older_than i d)) = set (drop n S)"
  proof -
    have "set S = set (take n S) \<union> set (drop n S)" by (metis append_take_drop_id set_append)
    moreover have "set (take n S) \<inter> set (drop n S) = {}" using cross by auto
    ultimately show ?thesis unfolding prune facts(2) S(2) [symmetric] by blast
  qed
  show "length (list_indexes (prune_older_than i d)) \<le> max_kept"
  proof -
    have "length (list_indexes (prune_older_than i d)) = card (set (list_indexes (prune_older_than i d)))"
      using snap_dir_indexes(2) [OF facts(1)] unfolding prune by (simp add: distinct_card)
    also have "\<dots> \<le> length (drop n S)" unfolding keep by (rule card_length)
    finally show ?thesis by (simp add: n_def)
  qed
  show "i \<in> set (list_indexes (prune_older_than i d))" using keep i_drop by simp
  show "map_of (prune_older_than i d) (path_for i) = map_of d (path_for i)"
    unfolding prune using below by (intro facts(3)) auto
  show "set (list_indexes (prune_older_than i d)) \<subseteq> set (list_indexes d)"
    unfolding prune facts(2) by blast
  show "map_of (prune_older_than i d) (path_for p) = map_of d (path_for p)"
    if p: "p \<in> set (list_indexes d)" "\<forall>j \<in> set (list_indexes d). j = i \<or> j \<le> p"
  proof -
    have "p \<notin> set (take n S)"
    proof
      assume pt: "p \<in> set (take n S)"
      then have "length (drop n S) = 2" by (cases "length S \<le> max_kept") (auto simp: n_def max_kept_def)
      moreover have "set (drop n S) \<subseteq> {i}"
        using pt cross p(2) S(2) set_drop_subset [of n S] by force
      moreover have "distinct (drop n S)" using S(1) strict_sorted_iff [of S] by simp
      ultimately show False
        by (metis card_mono distinct_card finite.emptyI finite_insert is_singletonI is_singleton_altdef numeral_le_one_iff semiring_norm(69))
    qed
    then show ?thesis unfolding prune by (rule facts(3))
  qed
qed

lemma snap_store_roundtrip:
  assumes codec: "\<And>m. unbincode (bincode m) = Some m" "unmsgpack (msgpack st) = Some st"
    and small: "\<And>m. length (bincode m) < 2 ^ 32"
    and d: "snap_dir d" and newest: "\<forall>j \<in> set (list_indexes d). j \<le> i"
  shows "\<exists>d'. snap_store bincode msgpack now i trm st d
        = Inr (\<lparr> sm_last_applied_index = i, sm_last_applied_term = trm, sm_created_at_unix_secs = now \<rparr>, d')
     \<and> load_latest unbincode unmsgpack d'
        = Inr (Some (\<lparr> sm_last_applied_index = i, sm_last_applied_term = trm, sm_created_at_unix_secs = now \<rparr>, st))
     \<and> snap_dir d' \<and> length (list_indexes d') \<le> max_kept
     \<and> (\<forall>p \<in> set (list_indexes d) - {i}. (\<forall>j \<in> set (list_indexes d). j = i \<or> j \<le> p)
          \<longrightarrow> map_of d' (path_for p) = map_of d (path_for p))"
proof -
  let ?m = "\<lparr> sm_last_applied_index = i, sm_last_applied_term = trm, sm_created_at_unix_secs = now \<rparr>"
  let ?f = "to_le 4 (length (bincode ?m)) @ bincode ?m @ msgpack st"
  let ?d1 = "put_file (path_for i) ?f d"
  let ?d' = "prune_older_than i ?d1"
  have d1: "snap_dir ?d1" using d by (rule snap_dir_put)
  have ix: "set (list_indexes ?d1) = insert i (set (list_indexes d))" by (rule put_file_facts(1) [OF d])
  then have "i \<in> set (list_indexes ?d1)" "\<forall>j \<in> set (list_indexes ?d1). j \<le> i" using newest by auto
  note pr = prune_older_than_facts [OF d1 this]
  have store: "snap_store bincode msgpack now i trm st d = Inr (?m, ?d')"
    using small [of ?m] by (simp add: snap_store_def Let_def)
  have last: "last (sort (list_indexes ?d')) = i" "list_indexes ?d' \<noteq> []"
    using last_sorted_max [of "sort (list_indexes ?d')" i] pr(3,6) ix newest by auto
  then have ne: "sort (list_indexes ?d') \<noteq> []" by (metis set_empty set_sort)
  have "map_of ?d' (path_for i) = Some ?f" using pr(4) by (simp add: put_file_facts)
  then have "load_latest unbincode unmsgpack ?d' = Inr (Some (?m, st))"
    using last(1) ne codec small [of ?m]
    by (simp add: load_latest_def Let_def slice_of_def from_le_to_le)
  moreover have "map_of ?d' (path_for p) = map_of d (path_for p)"
    if "p \<in> set (list_indexes d) - {i}" "\<forall>j \<in> set (list_indexes d). j = i \<or> j \<le> p" for p
    using pr(5) [of p] that ix by (simp add: put_file_facts)
  ultimately show ?thesis using store pr(1,2) by blast
qed

text \<open>A stored snapshot is the one loaded back, provided no newer one is there: the file
  decodes to the metadata and state that were written, at most two snapshots remain, and the
  previous newest snapshot is still in the directory, unchanged.\<close>

theorem snapshot_store_load:
  assumes codec: "\<And>m. unbincode (bincode m) = Some m" "unmsgpack (msgpack st) = Some st"
    and small: "\<And>m. length (bincode m) < 2 ^ 32"
    and d: "snap_dir d" and newest: "\<forall>j \<in> set (list_indexes d). j \<le> i"
  shows "\<exists>d'. snap_store bincode msgpack now i trm st d
        = Inr (\<lparr> sm_last_applied_index = i, sm_last_applied_term = trm, sm_created_at_unix_secs = now \<rparr>, d')
     \<and> load_latest unbincode unmsgpack d'
        = Inr (Some (\<lparr> sm_last_applied_index = i, sm_last_applied_term = trm, sm_created_at_unix_secs = now \<rparr>, st))
     \<and> snap_dir d' \<and> length (list_indexes d') \<le> max_kept
     \<and> (\<forall>p \<in> set (list_indexes d) - {i}. (\<forall>j \<in> set (list_indexes d). j = i \<or> j \<le> p)
          \<longrightarrow> map_of d' (path_for p) = map_of d (path_for p))"
  using assms by (rule snap_store_roundtrip)

definition meta_bytes :: "snapshot_meta \<Rightarrow> bytes" where
  "meta_bytes m = u64_le (sm_last_applied_index m) @ u64_le (sm_last_applied_term m) @ u64_le (sm_created_at_unix_secs m)"

definition meta_parse :: "bytes \<Rightarrow> snapshot_meta option" where
  "meta_parse bs = Some \<lparr> sm_last_applied_index = u64_from_le (slice_of 0 8 bs),
     sm_last_applied_term = u64_from_le (slice_of 8 8 bs), sm_created_at_unix_secs = u64_from_le (slice_of 16 8 bs) \<rparr>"

theorem snapshot_store_load_witness:
  "\<exists>d'. snap_store meta_bytes (\<lambda>_. []) 9 5 2 default_state []
      = Inr (\<lparr> sm_last_applied_index = 5, sm_last_applied_term = 2, sm_created_at_unix_secs = 9 \<rparr>, d')
   \<and> load_latest meta_parse (\<lambda>_. Some default_state) d'
      = Inr (Some (\<lparr> sm_last_applied_index = 5, sm_last_applied_term = 2, sm_created_at_unix_secs = 9 \<rparr>, default_state))"
proof -
  have "meta_parse (meta_bytes m) = Some m" "length (meta_bytes m) < 2 ^ 32" for m
    by (simp_all add: meta_parse_def meta_bytes_def slice_of_def)
  moreover have "snap_dir []" "list_indexes [] = []"
    by (simp_all add: snap_dir_def list_indexes_def List.map_filter_simps)
  ultimately show ?thesis
    using snapshot_store_load [of meta_parse meta_bytes "\<lambda>_. Some default_state" "\<lambda>_. []" default_state "[]" 5 9 2]
    by auto
qed

end
