(* ===== verification/Raft_Adapter.thy ===== *)
theory Raft_Adapter
  imports Raft_Log Raft_Store
begin

text \<open>
  The adapters between the Raft library and the stores of this code base: log and vote
  (\<open>src/raft/adapter/log.rs\<close>), state machine and snapshots
  (\<open>src/raft/adapter/fsm.rs\<close>).  The library's own membership configuration is a type
  parameter; the serializers are parameters of the operations that call them.
\<close>

section \<open>Types shared with the Raft library\<close>

record log_id =
  li_term :: u64
  li_node :: u64
  li_index :: u64

datatype 'm entry_payload = Blank | Normal op | Membership 'm

record 'm raft_entry =
  re_log_id :: log_id
  re_payload :: "'m entry_payload"

datatype bound = Included u64 | Excluded u64 | Unbounded

datatype storage_error = LogErr log_error | VoteErr vote_error | SnapErr snapshot_error
  | DecodeErr | ApplyErr apply_error

record or_vote =
  ov_term :: u64
  ov_voted_for :: "u64 option"
  ov_committed :: bool

record log_state =
  last_purged_log_id :: "log_id option"
  last_log_id :: "log_id option"

definition u64_MAX :: u64 where
  "u64_MAX = - 1"

definition saturating_inc :: "u64 \<Rightarrow> u64" where
  "saturating_inc i = (if i = u64_MAX then i else i + 1)"

definition saturating_dec :: "u64 \<Rightarrow> u64" where
  "saturating_dec i = (if i = 0 then 0 else i - 1)"

section \<open>The log adapter\<close>

record log_adapter =
  la_log :: log_store
  la_vote :: "bytes option"

fun decode_all :: "(bytes \<Rightarrow> 'e option) \<Rightarrow> log_entry list \<Rightarrow> storage_error + 'e list" where
  "decode_all decode [] = Inr []"
| "decode_all decode (r # rs) = (case decode (le_op_bytes r) of
      None \<Rightarrow> Inl DecodeErr
    | Some e \<Rightarrow> res_bind (decode_all decode rs) (\<lambda>es. Inr (e # es)))"

definition try_get_log_entries ::
  "(bytes \<Rightarrow> 'm raft_entry option) \<Rightarrow> bound \<Rightarrow> bound \<Rightarrow> log_adapter \<Rightarrow> storage_error + 'm raft_entry list" where
  "try_get_log_entries decode start_bound end_bound la =
     (let start = (case start_bound of Included i \<Rightarrow> i | Excluded i \<Rightarrow> saturating_inc i | Unbounded \<Rightarrow> 0);
          end_ix = (case end_bound of Included i \<Rightarrow> i | Excluded i \<Rightarrow> saturating_dec i | Unbounded \<Rightarrow> u64_MAX);
          effective_end = min (unwrap_or_0 (last_log_index (la_log la))) end_ix
      in if start > effective_end then Inr []
         else (case read_range start effective_end (la_log la) of
                 Inl e \<Rightarrow> Inl (LogErr e)
               | Inr raw \<Rightarrow> decode_all decode raw))"

definition get_log_state :: "log_adapter \<Rightarrow> log_state" where
  "get_log_state la = (case last_log_index (la_log la) of
      None \<Rightarrow> \<lparr> last_purged_log_id = None, last_log_id = None \<rparr>
    | Some lst \<Rightarrow>
        (let last_term = unwrap_or_0 (last_log_term (la_log la));
             first = (case first_log_index (la_log la) of Some i \<Rightarrow> i | None \<Rightarrow> lst);
             last_purged = (if first > 0
               then Some \<lparr> li_term = last_term, li_node = 0, li_index = saturating_dec first \<rparr> else None)
         in \<lparr> last_purged_log_id = last_purged,
              last_log_id = Some \<lparr> li_term = last_term, li_node = 0, li_index = lst \<rparr> \<rparr>))"

definition save_vote :: "(vote \<Rightarrow> bytes) \<Rightarrow> or_vote \<Rightarrow> log_adapter \<Rightarrow> log_adapter" where
  "save_vote to_vec v la = la\<lparr> la_vote := vote_save to_vec
     \<lparr> v_term = ov_term v,
       v_voted_for = (case ov_voted_for v of Some n \<Rightarrow> show_nat (unat n) | None \<Rightarrow> []) \<rparr> (la_vote la) \<rparr>"

definition read_vote :: "(bytes \<Rightarrow> vote option) \<Rightarrow> log_adapter \<Rightarrow> storage_error + or_vote option" where
  "read_vote from_slice la = (case vote_load from_slice (la_vote la) of
      Inl e \<Rightarrow> Inl (VoteErr e)
    | Inr data \<Rightarrow>
        if v_term data = 0 \<and> v_voted_for data = [] then Inr None
        else (case parse_u64 (v_voted_for data) of
                Some n \<Rightarrow> Inr (Some \<lparr> ov_term = v_term data, ov_voted_for = Some n, ov_committed = False \<rparr>)
              | None \<Rightarrow> Inr None))"

definition raw_entry :: "('m raft_entry \<Rightarrow> bytes) \<Rightarrow> 'm raft_entry \<Rightarrow> log_entry" where
  "raw_entry encode e = \<lparr> le_index = li_index (re_log_id e), le_term = li_term (re_log_id e), le_op_bytes = encode e \<rparr>"

definition with_log :: "(log_error + unit) \<times> log_store \<Rightarrow> log_adapter \<Rightarrow> (storage_error + unit) \<times> log_adapter" where
  "with_log r la = (case r of (res, ls) \<Rightarrow>
     ((case res of Inl e \<Rightarrow> Inl (LogErr e) | Inr _ \<Rightarrow> Inr ()), la\<lparr> la_log := ls \<rparr>))"

definition la_append :: "('m raft_entry \<Rightarrow> bytes) \<Rightarrow> 'm raft_entry list \<Rightarrow> log_adapter \<Rightarrow> (storage_error + unit) \<times> log_adapter" where
  "la_append encode entries la = with_log (log_append (map (raw_entry encode) entries) (la_log la)) la"

definition la_truncate :: "log_id \<Rightarrow> log_adapter \<Rightarrow> (storage_error + unit) \<times> log_adapter" where
  "la_truncate lid la = with_log (truncate_after (saturating_dec (li_index lid)) (la_log la)) la"

definition la_purge :: "log_id \<Rightarrow> log_adapter \<Rightarrow> (storage_error + unit) \<times> log_adapter" where
  "la_purge lid la = with_log (purge_before (saturating_inc (li_index lid)) (la_log la)) la"

section \<open>The state machine adapter\<close>

type_synonym 'm stored_membership = "log_id option \<times> 'm"

record 'm fsm_adapter =
  fa_fsm :: fsm
  fa_snap_dir :: dir
  fa_last_applied :: "log_id option"
  fa_last_membership :: "'m stored_membership"
  fa_last_snapshot_id :: u64

record 'm snapshot_body =
  sb_state :: state
  sb_last_applied :: "log_id option"
  sb_last_membership :: "'m stored_membership"

record 'm raft_snapshot =
  rs_last_log_id :: "log_id option"
  rs_last_membership :: "'m stored_membership"
  rs_snapshot_id :: string
  rs_bytes :: bytes

definition fsm_adapter_new :: "fsm \<Rightarrow> dir \<Rightarrow> 'm \<Rightarrow> 'm fsm_adapter" where
  "fsm_adapter_new m d default_membership = \<lparr> fa_fsm = m, fa_snap_dir = d, fa_last_applied = None,
     fa_last_membership = (None, default_membership), fa_last_snapshot_id = 0 \<rparr>"

definition build_snapshot ::
  "('m snapshot_body \<Rightarrow> bytes) \<Rightarrow> (snapshot_meta \<Rightarrow> bytes) \<Rightarrow> (state \<Rightarrow> bytes) \<Rightarrow> u64 \<Rightarrow> 'm fsm_adapter
   \<Rightarrow> storage_error + ('m raft_snapshot \<times> 'm fsm_adapter)" where
  "build_snapshot pack_body bincode msgpack now fa =
     (let (applied_idx, st) = fsm_snapshot (fa_fsm fa);
          body = \<lparr> sb_state = st, sb_last_applied = fa_last_applied fa, sb_last_membership = fa_last_membership fa \<rparr>;
          applied_term = (case fa_last_applied fa of Some l \<Rightarrow> li_term l | None \<Rightarrow> 0)
      in case snap_store bincode msgpack now applied_idx applied_term st (fa_snap_dir fa) of
           Inl e \<Rightarrow> Inl (SnapErr e)
         | Inr (_, d) \<Rightarrow>
             (let n = fa_last_snapshot_id fa + 1 in
              Inr (\<lparr> rs_last_log_id = fa_last_applied fa, rs_last_membership = fa_last_membership fa,
                     rs_snapshot_id = ''snap-'' @ show_nat (unat applied_idx) @ ''-'' @ show_nat (unat n),
                     rs_bytes = pack_body body \<rparr>,
                   fa\<lparr> fa_snap_dir := d, fa_last_snapshot_id := n \<rparr>)))"

text \<open>The loop of \<open>apply\<close>; the responses are the applied indexes.\<close>

fun fa_apply :: "'m raft_entry list \<Rightarrow> u64 list \<Rightarrow> 'm fsm_adapter \<Rightarrow> (storage_error + u64 list) \<times> 'm fsm_adapter" where
  "fa_apply [] out fa = (Inr out, fa)"
| "fa_apply (entry # entries) out fa =
     (let index = li_index (re_log_id entry);
          done_entry = (\<lambda>fa. fa_apply entries (out @ [index]) (fa\<lparr> fa_last_applied := Some (re_log_id entry) \<rparr>))
      in case re_payload entry of
           Blank \<Rightarrow> done_entry fa
         | Normal op \<Rightarrow>
             (case fsm_apply index op (fa_fsm fa) of
                (Inl e, m) \<Rightarrow> (Inl (ApplyErr e), fa\<lparr> fa_fsm := m \<rparr>)
              | (Inr _, m) \<Rightarrow> done_entry (fa\<lparr> fa_fsm := m \<rparr>))
         | Membership m \<Rightarrow> done_entry (fa\<lparr> fa_last_membership := (Some (re_log_id entry), m) \<rparr>))"

definition install_snapshot ::
  "(bytes \<Rightarrow> 'm snapshot_body option) \<Rightarrow> 'm raft_snapshot \<Rightarrow> 'm fsm_adapter \<Rightarrow> storage_error + 'm fsm_adapter" where
  "install_snapshot unpack_body snap fa = (case unpack_body (rs_bytes snap) of
      None \<Rightarrow> Inl DecodeErr
    | Some body \<Rightarrow>
        (let idx = (case rs_last_log_id snap of Some l \<Rightarrow> li_index l | None \<Rightarrow> 0)
         in Inr (fa\<lparr> fa_fsm := fsm_install_snapshot idx (sb_state body) (fa_fsm fa),
                     fa_last_applied := rs_last_log_id snap,
                     fa_last_membership := rs_last_membership snap \<rparr>)))"

definition get_current_snapshot ::
  "('m snapshot_body \<Rightarrow> bytes) \<Rightarrow> (bytes \<Rightarrow> snapshot_meta option) \<Rightarrow> (bytes \<Rightarrow> state option) \<Rightarrow> 'm fsm_adapter
   \<Rightarrow> storage_error + 'm raft_snapshot option" where
  "get_current_snapshot pack_body unbincode unmsgpack fa =
     (case load_latest unbincode unmsgpack (fa_snap_dir fa) of
        Inl e \<Rightarrow> Inl (SnapErr e)
      | Inr None \<Rightarrow> Inr None
      | Inr (Some (meta, st)) \<Rightarrow>
          Inr (Some \<lparr> rs_last_log_id = fa_last_applied fa, rs_last_membership = fa_last_membership fa,
             rs_snapshot_id = ''snap-'' @ show_nat (unat (sm_last_applied_index meta)) @ ''-replay'',
             rs_bytes = pack_body \<lparr> sb_state = st, sb_last_applied = fa_last_applied fa,
                sb_last_membership = fa_last_membership fa \<rparr> \<rparr>))"

section \<open>Snapshots carry a node forward\<close>

text \<open>Two nodes are in step when they agree on everything an entry can read or change.\<close>

definition in_step :: "'m fsm_adapter \<Rightarrow> 'm fsm_adapter \<Rightarrow> bool" where
  "in_step a b \<longleftrightarrow> fsm_state (fa_fsm a) = fsm_state (fa_fsm b)
     \<and> fa_last_applied a = fa_last_applied b \<and> fa_last_membership a = fa_last_membership b"

lemma fsm_apply_same_state:
  "fsm_state m = fsm_state m' \<Longrightarrow>
   (\<exists>e. fst (fsm_apply i op m) = Inl e \<and> fst (fsm_apply i op m') = Inl e)
   \<or> (\<exists>x y. fst (fsm_apply i op m) = Inr x \<and> fst (fsm_apply i op m') = Inr y)"
  by (auto simp: fsm_apply_def Let_def split: prod.splits sum.splits)

lemma fa_apply_in_step:
  "in_step a b \<Longrightarrow> fst (fa_apply es out a) = fst (fa_apply es out b)
     \<and> in_step (snd (fa_apply es out a)) (snd (fa_apply es out b))"
proof (induction es arbitrary: out a b)
  case (Cons e es)
  show ?case
  proof (cases "re_payload e")
    case (Normal op)
    from Cons.prems have st: "fsm_state (fa_fsm a) = fsm_state (fa_fsm b)" by (simp add: in_step_def)
    let ?fa = "fsm_apply (li_index (re_log_id e)) op (fa_fsm a)" and ?fb = "fsm_apply (li_index (re_log_id e)) op (fa_fsm b)"
    have same: "fsm_state (snd ?fa) = fsm_state (snd ?fb)" by (simp add: snd_fsm_apply_state st)
    from fsm_apply_same_state [OF st, of "li_index (re_log_id e)" op] show ?thesis
    proof (elim disjE exE conjE)
      fix er assume "fst ?fa = Inl er" "fst ?fb = Inl er"
      with Normal same Cons.prems show ?thesis by (cases ?fa; cases ?fb) (simp add: in_step_def)
    next
      fix x y assume "fst ?fa = Inr x" "fst ?fb = Inr y"
      with Normal same Cons.prems show ?thesis
        by (cases ?fa; cases ?fb) (simp, rule Cons.IH, simp add: in_step_def)
    qed
  next
    case Blank
    with Cons.prems show ?thesis by (simp add: Let_def) (rule Cons.IH, simp add: in_step_def)
  next
    case (Membership m)
    with Cons.prems show ?thesis by (simp add: Let_def) (rule Cons.IH, simp add: in_step_def)
  qed
qed simp

lemma build_snapshot_Inr:
  assumes "build_snapshot pack bincode msgpack now p = Inr (snap, p')"
  shows "rs_last_log_id snap = fa_last_applied p" and "rs_last_membership snap = fa_last_membership p"
    and "rs_bytes snap = pack \<lparr> sb_state = fsm_state (fa_fsm p), sb_last_applied = fa_last_applied p,
           sb_last_membership = fa_last_membership p \<rparr>"
    and "in_step p p'"
    and "\<exists>meta. snap_store bincode msgpack now (fsm_applied_index (fa_fsm p))
           (case fa_last_applied p of Some l \<Rightarrow> li_term l | None \<Rightarrow> 0) (fsm_state (fa_fsm p)) (fa_snap_dir p)
           = Inr (meta, fa_snap_dir p')"
  using assms by (auto simp: build_snapshot_def fsm_snapshot_def Let_def in_step_def split: sum.splits prod.splits)

lemma install_snapshot_Inr:
  assumes "unpack (rs_bytes snap) = Some body"
  shows "\<exists>q'. install_snapshot unpack snap q = Inr q' \<and> fsm_state (fa_fsm q') = sb_state body
    \<and> fa_last_applied q' = rs_last_log_id snap \<and> fa_last_membership q' = rs_last_membership snap"
  using assms by (simp add: install_snapshot_def fsm_install_snapshot_def Let_def)

text \<open>C29: a node that installs the snapshot another node built is in step with it, and stays
  so: whatever entries are applied to both, they give the same responses and the same state,
  last applied entry and membership.\<close>

theorem snapshot_catches_up:
  assumes build: "build_snapshot pack bincode msgpack now p = Inr (snap, p')"
    and codec: "unpack (rs_bytes snap) = Some \<lparr> sb_state = fsm_state (fa_fsm p),
       sb_last_applied = fa_last_applied p, sb_last_membership = fa_last_membership p \<rparr>"
  shows "\<exists>q'. install_snapshot unpack snap q = Inr q'
     \<and> fst (fa_apply es [] p') = fst (fa_apply es [] q')
     \<and> fsm_state (fa_fsm (snd (fa_apply es [] p'))) = fsm_state (fa_fsm (snd (fa_apply es [] q')))
     \<and> fa_last_applied (snd (fa_apply es [] p')) = fa_last_applied (snd (fa_apply es [] q'))
     \<and> fa_last_membership (snd (fa_apply es [] p')) = fa_last_membership (snd (fa_apply es [] q'))"
proof -
  note b = build_snapshot_Inr [OF build]
  obtain q' where q': "install_snapshot unpack snap q = Inr q'" and step: "in_step p q'"
    using install_snapshot_Inr [where unpack = unpack and snap = snap, OF codec, of q] b(1,2) by (auto simp: in_step_def)
  have "in_step p' q'" using step b(4) by (simp add: in_step_def)
  from fa_apply_in_step [OF this, of es "[]"] q' show ?thesis by (auto simp: in_step_def)
qed

definition idle_node :: "unit fsm_adapter" where
  "idle_node = fsm_adapter_new fsm_new [] ()"

theorem snapshot_catches_up_witness:
  "\<exists>snap p' q'. build_snapshot (\<lambda>_. []) meta_bytes (\<lambda>_. []) 0 idle_node = Inr (snap, p')
     \<and> install_snapshot (\<lambda>_. Some \<lparr> sb_state = default_state, sb_last_applied = None, sb_last_membership = (None, ()) \<rparr>) snap idle_node = Inr q'
     \<and> fst (fa_apply [\<lparr> re_log_id = \<lparr> li_term = 1, li_node = 0, li_index = 1 \<rparr>, re_payload = Blank \<rparr>] [] p')
       = fst (fa_apply [\<lparr> re_log_id = \<lparr> li_term = 1, li_node = 0, li_index = 1 \<rparr>, re_payload = Blank \<rparr>] [] q')"
proof -
  let ?body = "\<lparr> sb_state = default_state, sb_last_applied = None, sb_last_membership = (None, ()) \<rparr>"
  have idle: "fsm_state (fa_fsm idle_node) = default_state" "fa_last_applied idle_node = None"
    "fa_last_membership idle_node = (None, ())"
    by (simp_all add: idle_node_def fsm_adapter_new_def fsm_new_def)
  obtain snap p' where b: "build_snapshot (\<lambda>_. []) meta_bytes (\<lambda>_. []) 0 idle_node = Inr (snap, p')"
    by (simp add: build_snapshot_def fsm_snapshot_def snap_store_def meta_bytes_def Let_def)
  show ?thesis
    using snapshot_catches_up [OF b, of "\<lambda>_. Some ?body" idle_node] b idle by fastforce
qed

text \<open>The snapshot handed to a lagging node later on does not describe one moment of the
  log: it pairs the state of the newest stored snapshot with the last applied entry of the
  present, so a node that installs it reports the entries in between as applied although
  their effects are missing from its state.\<close>

theorem current_snapshot_is_stale:
  assumes build: "build_snapshot pack bincode msgpack now p = Inr (s0, p1)"
    and run: "fa_apply es [] p1 = (Inr out, p2)"
    and dir: "snap_dir (fa_snap_dir p)" "\<forall>j \<in> set (list_indexes (fa_snap_dir p)). j \<le> fsm_applied_index (fa_fsm p)"
    and codec: "\<And>m. unbincode (bincode m) = Some m" "\<And>m. length (bincode m) < 2 ^ 32"
      "unmsgpack (msgpack (fsm_state (fa_fsm p))) = Some (fsm_state (fa_fsm p))"
    and body: "unpack (pack \<lparr> sb_state = fsm_state (fa_fsm p), sb_last_applied = fa_last_applied p2,
        sb_last_membership = fa_last_membership p2 \<rparr>)
      = Some \<lparr> sb_state = fsm_state (fa_fsm p), sb_last_applied = fa_last_applied p2,
        sb_last_membership = fa_last_membership p2 \<rparr>"
  shows "\<exists>snap q'. get_current_snapshot pack unbincode unmsgpack p2 = Inr (Some snap)
     \<and> install_snapshot unpack snap q = Inr q'
     \<and> fa_last_applied q' = fa_last_applied p2
     \<and> fsm_state (fa_fsm q') = fsm_state (fa_fsm p)"
proof -
  have "fa_snap_dir (snd (fa_apply es out a)) = fa_snap_dir a" for es out and a :: "'a fsm_adapter"
    by (induction es out a rule: fa_apply.induct)
      (auto simp: Let_def split: entry_payload.splits prod.splits sum.splits)
  from this [of es "[]" p1] run have same: "fa_snap_dir p2 = fa_snap_dir p1" by simp
  obtain meta where st: "snap_store bincode msgpack now (fsm_applied_index (fa_fsm p))
       (case fa_last_applied p of Some l \<Rightarrow> li_term l | None \<Rightarrow> 0) (fsm_state (fa_fsm p)) (fa_snap_dir p)
       = Inr (meta, fa_snap_dir p1)"
    using build_snapshot_Inr(5) [OF build] by blast
  obtain meta' where "load_latest unbincode unmsgpack (fa_snap_dir p1) = Inr (Some (meta', fsm_state (fa_fsm p)))"
    using snap_store_roundtrip [where unbincode = unbincode and bincode = bincode and unmsgpack = unmsgpack
        and msgpack = msgpack and st = "fsm_state (fa_fsm p)" and d = "fa_snap_dir p" and now = now
        and i = "fsm_applied_index (fa_fsm p)" and trm = "case fa_last_applied p of Some l \<Rightarrow> li_term l | None \<Rightarrow> 0"]
      codec dir st by auto
  then have "get_current_snapshot pack unbincode unmsgpack p2
      = Inr (Some \<lparr> rs_last_log_id = fa_last_applied p2, rs_last_membership = fa_last_membership p2,
           rs_snapshot_id = ''snap-'' @ show_nat (unat (sm_last_applied_index meta')) @ ''-replay'',
           rs_bytes = pack \<lparr> sb_state = fsm_state (fa_fsm p), sb_last_applied = fa_last_applied p2,
              sb_last_membership = fa_last_membership p2 \<rparr> \<rparr>)" (is "_ = Inr (Some ?snap)")
    by (simp add: get_current_snapshot_def same)
  moreover have "unpack (rs_bytes ?snap) = Some \<lparr> sb_state = fsm_state (fa_fsm p), sb_last_applied = fa_last_applied p2,
        sb_last_membership = fa_last_membership p2 \<rparr>" using body by simp
  from install_snapshot_Inr [where unpack = unpack and snap = ?snap, OF this, of q] have "\<exists>q'. install_snapshot unpack ?snap q = Inr q'
      \<and> fa_last_applied q' = fa_last_applied p2 \<and> fsm_state (fa_fsm q') = fsm_state (fa_fsm p)" by auto
  ultimately show ?thesis by blast
qed

theorem current_snapshot_is_stale_witness:
  "\<exists>s0 p1 p2 snap q'. build_snapshot (\<lambda>_. []) meta_bytes (\<lambda>_. []) 0 idle_node = Inr (s0, p1)
     \<and> fa_apply [\<lparr> re_log_id = \<lparr> li_term = 1, li_node = 0, li_index = 1 \<rparr>,
           re_payload = Normal (SetBucketSettings ''b'' default_settings) \<rparr>] [] p1 = (Inr [1], p2)
     \<and> install_snapshot (\<lambda>_. Some \<lparr> sb_state = default_state, sb_last_applied = Some \<lparr> li_term = 1, li_node = 0, li_index = 1 \<rparr>,
           sb_last_membership = (None, ()) \<rparr>) snap idle_node = Inr q'
     \<and> fa_last_applied q' = Some \<lparr> li_term = 1, li_node = 0, li_index = 1 \<rparr>
     \<and> fsm_bucket_settings (fa_fsm p2) ''b'' = Some default_settings
     \<and> fsm_bucket_settings (fa_fsm q') ''b'' = None"
proof -
  let ?lid = "\<lparr> li_term = 1, li_node = 0, li_index = 1 \<rparr>"
  let ?es = "[\<lparr> re_log_id = ?lid, re_payload = Normal (SetBucketSettings ''b'' default_settings) \<rparr>] :: unit raft_entry list"
  let ?body = "\<lparr> sb_state = default_state, sb_last_applied = Some ?lid, sb_last_membership = (None, ()) \<rparr>"
  have idle: "fsm_state (fa_fsm idle_node) = default_state" "fa_snap_dir idle_node = []"
    by (simp_all add: idle_node_def fsm_adapter_new_def fsm_new_def)
  obtain s0 p1 where b: "build_snapshot (\<lambda>_. []) meta_bytes (\<lambda>_. []) 0 idle_node = Inr (s0, p1)"
    and p1: "fa_fsm p1 = fsm_new" "fa_last_membership p1 = (None, ())"
    by (simp add: build_snapshot_def fsm_snapshot_def snap_store_def meta_bytes_def Let_def idle_node_def fsm_adapter_new_def)
  obtain p2 where r: "fa_apply ?es [] p1 = (Inr [1], p2)" and p2: "fa_last_applied p2 = Some ?lid"
    "fa_last_membership p2 = (None, ())" "fsm_bucket_settings (fa_fsm p2) ''b'' = Some default_settings"
    by (simp add: p1 fsm_apply_def fsm_new_def default_state_def fsm_bucket_settings_def Let_def)
  have codec: "meta_parse (meta_bytes m) = Some m" "length (meta_bytes m) < 2 ^ 32" for m
    by (simp_all add: meta_parse_def meta_bytes_def slice_of_def)
  have "\<exists>snap q'. get_current_snapshot (\<lambda>_. []) meta_parse (\<lambda>_. Some default_state) p2 = Inr (Some snap)
     \<and> install_snapshot (\<lambda>_. Some ?body) snap idle_node = Inr q'
     \<and> fa_last_applied q' = fa_last_applied p2 \<and> fsm_state (fa_fsm q') = fsm_state (fa_fsm idle_node)"
    by (rule current_snapshot_is_stale [OF b r])
      (simp_all add: idle p2 codec [simplified] snap_dir_def list_indexes_def List.map_filter_simps)
  then show ?thesis
    using b r p2 idle by (fastforce simp: fsm_bucket_settings_def default_state_def)
qed

section \<open>The log as the Raft library sees it\<close>

text \<open>The adapter holds these entries: their records are the log, and they decode.\<close>

definition la_view :: "('m raft_entry \<Rightarrow> bytes) \<Rightarrow> (bytes \<Rightarrow> 'm raft_entry option) \<Rightarrow> 'm raft_entry list \<Rightarrow> log_adapter \<Rightarrow> bool" where
  "la_view encode decode es la \<longleftrightarrow> log_inv (la_log la) \<and> log_contents (la_log la) = map (raw_entry encode) es
     \<and> (\<forall>e \<in> set es. decode (encode e) = Some e)"

abbreviation entry_index :: "'m raft_entry \<Rightarrow> u64" where
  "entry_index e \<equiv> li_index (re_log_id e)"

lemma raw_entry_sel [simp]: "le_index (raw_entry encode e) = entry_index e" "le_op_bytes (raw_entry encode e) = encode e"
  by (simp_all add: raw_entry_def)

lemma with_log_ok: "(res, ls) = r \<Longrightarrow> res = Inr () \<Longrightarrow> with_log r la = (Inr (), la\<lparr> la_log := ls \<rparr>)"
  by (auto simp: with_log_def)

lemma la_view_filter:
  assumes "la_view encode decode es la" and "log_inv ls"
    and "log_contents ls = filter (\<lambda>e. P (le_index e)) (log_contents (la_log la))"
  shows "la_view encode decode (filter (\<lambda>e. P (entry_index e)) es) (la\<lparr> la_log := ls \<rparr>)"
  using assms by (auto simp: la_view_def filter_map comp_def)

lemma decode_all_view: "\<forall>e \<in> set es. decode (encode e) = Some e \<Longrightarrow> decode_all decode (map (raw_entry encode) es) = Inr es"
  by (induction es) auto

lemma saturating_dec_le: "0 < i \<Longrightarrow> j \<le> saturating_dec i \<longleftrightarrow> j < i"
  by (simp add: saturating_dec_def word_le_nat_alt word_less_nat_alt unat_minus_one) (auto simp: word_less_nat_alt)

lemma saturating_inc_le: "i \<noteq> u64_MAX \<Longrightarrow> saturating_inc i \<le> j \<longleftrightarrow> i < j"
proof -
  assume i: "i \<noteq> u64_MAX"
  then have "1 + i \<noteq> 0" by (metis add.commute eq_neg_iff_add_eq_0 u64_MAX_def)
  then have "unat (1 + i) = Suc (unat i)" by (rule unatSuc)
  with i show ?thesis by (simp add: saturating_inc_def word_le_nat_alt word_less_nat_alt add.commute Suc_le_eq)
qed

definition blank_1 :: "unit raft_entry" where
  "blank_1 = \<lparr> re_log_id = \<lparr> li_term = 1, li_node = 0, li_index = 1 \<rparr>, re_payload = Blank \<rparr>"

definition fresh_log :: log_adapter where
  "fresh_log = \<lparr> la_log = log_open [], la_vote = None \<rparr>"

lemma fresh_log_view: "la_view encode decode [] fresh_log"
proof -
  have "holds [] (log_open [])" using log_open_holds [of "[]"] by simp
  then show ?thesis using log_invI [of "[]" "log_open []"] by (simp add: la_view_def fresh_log_def consecutive_def)
qed

lemma one_entry_view: "\<exists>la. la_view (\<lambda>_. [7]) (\<lambda>_. Some blank_1) [blank_1] la"
proof -
  have "log_inv (la_log fresh_log)" "log_contents (la_log fresh_log) = []"
    using fresh_log_view [of "\<lambda>_. [7]"] by (simp_all add: la_view_def)
  moreover have "consecutive [raw_entry (\<lambda>_. [7]) blank_1]" "fits (raw_entry (\<lambda>_. [7]) blank_1)"
    by (simp_all add: consecutive_def fits_def)
  ultimately obtain s where "log_inv s" "log_contents s = [raw_entry (\<lambda>_. [7]) blank_1]"
    using rl.append_law [of "la_log fresh_log" "[raw_entry (\<lambda>_. [7]) blank_1]"] by auto
  then have "la_view (\<lambda>_. [7]) (\<lambda>_. Some blank_1) [blank_1] (fresh_log\<lparr> la_log := s \<rparr>)"
    by (simp add: la_view_def)
  then show ?thesis by blast
qed

text \<open>Through the adapter the log behaves as the Raft library demands: appending extends
  it by the given entries, truncating at an entry (other than index zero) drops that entry
  and everything after it, purging up to an entry drops it and everything before; every call
  succeeds and the entries that remain still decode.\<close>

theorem log_adapter_keeps_log:
  assumes v: "la_view encode decode es la"
    and new: "consecutive (map (raw_entry encode) (es @ new))"
      "\<forall>e \<in> set new. decode (encode e) = Some e \<and> length (encode e) < 2 ^ 32"
    and t: "0 < li_index t" and p: "li_index p \<noteq> u64_MAX"
  shows "(\<exists>la'. la_append encode new la = (Inr (), la') \<and> la_view encode decode (es @ new) la')
    \<and> (\<exists>la'. la_truncate t la = (Inr (), la') \<and> la_view encode decode (filter (\<lambda>e. entry_index e < li_index t) es) la')
    \<and> (\<exists>la'. la_purge p la = (Inr (), la') \<and> la_view encode decode (filter (\<lambda>e. li_index p < entry_index e) es) la')"
proof (intro conjI)
  from v have inv: "log_inv (la_log la)" and con: "log_contents (la_log la) = map (raw_entry encode) es"
    by (simp_all add: la_view_def)
  obtain s where "log_append (map (raw_entry encode) new) (la_log la) = (Inr (), s)" "log_inv s"
    "log_contents s = map (raw_entry encode) es @ map (raw_entry encode) new"
    using rl.append_law [OF inv, of "map (raw_entry encode) new"] new by (auto simp: con list_all_iff fits_def)
  then show "\<exists>la'. la_append encode new la = (Inr (), la') \<and> la_view encode decode (es @ new) la'"
    using v new by (auto simp: la_append_def with_log_def la_view_def)
  obtain s where "truncate_after (saturating_dec (li_index t)) (la_log la) = (Inr (), s)" "log_inv s"
    "log_contents s = filter (\<lambda>e. le_index e < li_index t) (log_contents (la_log la))"
    using rl.truncate_law [OF inv, of "saturating_dec (li_index t)"] by (auto simp: saturating_dec_le [OF t])
  with la_view_filter [OF v, of s "\<lambda>i. i < li_index t"]
  show "\<exists>la'. la_truncate t la = (Inr (), la') \<and> la_view encode decode (filter (\<lambda>e. entry_index e < li_index t) es) la'"
    by (auto simp: la_truncate_def with_log_def)
  obtain s where "purge_before (saturating_inc (li_index p)) (la_log la) = (Inr (), s)" "log_inv s"
    "log_contents s = filter (\<lambda>e. li_index p < le_index e) (log_contents (la_log la))"
    using rl.purge_law [OF inv, of "saturating_inc (li_index p)"] by (auto simp: saturating_inc_le [OF p])
  with la_view_filter [OF v, of s "\<lambda>i. li_index p < i"]
  show "\<exists>la'. la_purge p la = (Inr (), la') \<and> la_view encode decode (filter (\<lambda>e. li_index p < entry_index e) es) la'"
    by (auto simp: la_purge_def with_log_def)
qed

theorem log_adapter_keeps_log_witness:
  "\<exists>la'. la_append (\<lambda>_. [7]) [blank_1] fresh_log = (Inr (), la')
     \<and> la_view (\<lambda>_. [7]) (\<lambda>_. Some blank_1) [blank_1] la'"
  using log_adapter_keeps_log [OF fresh_log_view [of "\<lambda>_. [7]" "\<lambda>_. Some blank_1"], of "[blank_1]" "re_log_id blank_1" "re_log_id blank_1"]
  by (simp add: consecutive_def blank_1_def u64_MAX_def)

definition above :: "bound \<Rightarrow> u64 \<Rightarrow> bool" where
  "above b i = (case b of Included a \<Rightarrow> a \<le> i | Excluded a \<Rightarrow> a < i | Unbounded \<Rightarrow> True)"

definition below :: "bound \<Rightarrow> u64 \<Rightarrow> bool" where
  "below b i = (case b of Included a \<Rightarrow> i \<le> a | Excluded a \<Rightarrow> i < a | Unbounded \<Rightarrow> True)"

lemma u64_MAX_top [simp]: "(i :: u64) \<le> u64_MAX"
  by (simp add: u64_MAX_def)

lemma la_view_below_last:
  assumes "la_view encode decode es la" and "e \<in> set es"
  shows "entry_index e \<le> unwrap_or_0 (last_log_index (la_log la))"
proof -
  from assms have inv: "log_inv (la_log la)" and con: "log_contents (la_log la) = map (raw_entry encode) es"
    by (simp_all add: la_view_def)
  have inc: "sorted_wrt (<) (map entry_index es)"
    using consecutive_increasing [OF rl.contents_consecutive [OF inv]] by (simp add: con comp_def)
  have "entry_index e \<le> entry_index (last es)"
    using inc assms(2) by (induction es) (auto simp: less_imp_le)
  moreover have "es \<noteq> []" using assms(2) by auto
  ultimately show ?thesis using rl.last_law [OF inv] by (simp add: con unwrap_or_0_def last_map)
qed

text \<open>Reading a range through the adapter returns exactly the entries whose index lies
  within the bounds, in order, for every combination of bounds the Raft library passes.\<close>

theorem log_adapter_reads:
  assumes v: "la_view encode decode es la" and "s \<noteq> Excluded u64_MAX" and "b \<noteq> Excluded 0"
  shows "try_get_log_entries decode s b la = Inr (filter (\<lambda>e. above s (entry_index e) \<and> below b (entry_index e)) es)"
proof -
  define lo where "lo = (case s of Included i \<Rightarrow> i | Excluded i \<Rightarrow> saturating_inc i | Unbounded \<Rightarrow> 0)"
  define hi where "hi = min (unwrap_or_0 (last_log_index (la_log la)))
    (case b of Included i \<Rightarrow> i | Excluded i \<Rightarrow> saturating_dec i | Unbounded \<Rightarrow> u64_MAX)"
  have lo: "lo \<le> i \<longleftrightarrow> above s i" for i
    using assms(2) by (auto simp: lo_def above_def saturating_inc_le split: bound.splits)
  have "0 < i" if "b = Excluded i" for i using that assms(3) by (auto simp: word_gt_0)
  then have hi: "entry_index e \<le> hi \<longleftrightarrow> below b (entry_index e)" if "e \<in> set es" for e
    using la_view_below_last [OF v that]
    by (auto simp: hi_def below_def min_def saturating_dec_le split: bound.splits intro: order_trans)
  let ?es = "filter (\<lambda>e. above s (entry_index e) \<and> below b (entry_index e)) es"
  have same: "filter (\<lambda>e. lo \<le> entry_index e \<and> entry_index e \<le> hi) es = ?es"
    using lo hi by (intro filter_cong) auto
  from v have inv: "log_inv (la_log la)" and con: "log_contents (la_log la) = map (raw_entry encode) es"
    and dec: "\<forall>e \<in> set ?es. decode (encode e) = Some e" by (simp_all add: la_view_def)
  have "read_range lo hi (la_log la) = Inr (map (raw_entry encode) ?es)"
    using rl.range_law [OF inv, of lo hi] by (simp add: con filter_map comp_def flip: same)
  moreover have "?es = []" if "hi < lo"
  proof -
    have "\<not> (lo \<le> entry_index e \<and> entry_index e \<le> hi)" for e :: "'a raft_entry" using that by auto
    then show ?thesis using same by simp
  qed
  ultimately show ?thesis
    using decode_all_view [OF dec] by (auto simp: try_get_log_entries_def Let_def lo_def hi_def)
qed

theorem log_adapter_reads_witness:
  "\<exists>la. la_view (\<lambda>_. [7]) (\<lambda>_. Some blank_1) [blank_1] la
     \<and> try_get_log_entries (\<lambda>_. Some blank_1) (Excluded 0) (Excluded 2) la = Inr [blank_1]"
proof -
  obtain la where la: "la_view (\<lambda>_. [7]) (\<lambda>_. Some blank_1) [blank_1] la" using one_entry_view by blast
  show ?thesis
    using log_adapter_reads [OF la, of "Excluded 0" "Excluded 2"] la
    by (auto simp: u64_MAX_def above_def below_def blank_1_def)
qed

text \<open>Two corners where the adapter departs from what its comments promise: truncating at
  index zero, meant to drop everything, keeps the entry with index zero; and once every entry
  has been purged the reported log state is that of a log that never held anything.\<close>

theorem log_adapter_edges:
  assumes v: "la_view encode decode es la" and t: "li_index t = 0"
    and p: "li_index p \<noteq> u64_MAX" "\<forall>e \<in> set es. entry_index e \<le> li_index p"
  shows "(\<exists>la'. la_truncate t la = (Inr (), la') \<and> la_view encode decode (filter (\<lambda>e. entry_index e = 0) es) la')
    \<and> (\<exists>la'. la_purge p la = (Inr (), la') \<and> get_log_state la' = \<lparr> last_purged_log_id = None, last_log_id = None \<rparr>)"
proof
  from v have inv: "log_inv (la_log la)" and con: "log_contents (la_log la) = map (raw_entry encode) es"
    by (simp_all add: la_view_def)
  obtain s where "truncate_after 0 (la_log la) = (Inr (), s)" "log_inv s"
    "log_contents s = filter (\<lambda>e. le_index e = 0) (log_contents (la_log la))"
    using rl.truncate_law [OF inv, of 0] by auto
  with la_view_filter [OF v, of s "\<lambda>i. i = 0"]
  show "\<exists>la'. la_truncate t la = (Inr (), la') \<and> la_view encode decode (filter (\<lambda>e. entry_index e = 0) es) la'"
    by (auto simp: la_truncate_def with_log_def t saturating_dec_def)
  obtain s where s: "purge_before (saturating_inc (li_index p)) (la_log la) = (Inr (), s)" "log_inv s"
    "log_contents s = filter (\<lambda>e. li_index p < le_index e) (log_contents (la_log la))"
    using rl.purge_law [OF inv, of "saturating_inc (li_index p)"] by (auto simp: saturating_inc_le [OF p(1)])
  have "log_contents s = []" using s(3) p(2) by (auto simp: con filter_empty_conv not_less)
  then have "last_log_index s = None" using rl.last_law [OF s(2)] by simp
  with s(1) show "\<exists>la'. la_purge p la = (Inr (), la') \<and> get_log_state la' = \<lparr> last_purged_log_id = None, last_log_id = None \<rparr>"
    by (simp add: la_purge_def with_log_def get_log_state_def)
qed

theorem log_adapter_edges_witness:
  "\<exists>la la'. la_view (\<lambda>_. [7]) (\<lambda>_. Some blank_1) [blank_1] la \<and> la_purge (re_log_id blank_1) la = (Inr (), la')
     \<and> get_log_state la' = \<lparr> last_purged_log_id = None, last_log_id = None \<rparr>"
proof -
  obtain la where la: "la_view (\<lambda>_. [7]) (\<lambda>_. Some blank_1) [blank_1] la" using one_entry_view by blast
  show ?thesis
    using log_adapter_edges [OF la, of "\<lparr> li_term = 1, li_node = 0, li_index = 0 \<rparr>" "re_log_id blank_1"] la
    by (auto simp: blank_1_def u64_MAX_def)
qed

text \<open>The vote a node cast survives a restart: reading back a saved vote gives the term
  and the candidate that were saved (never marked as committed).\<close>

theorem vote_round_trip:
  assumes "from_slice (to_vec \<lparr> v_term = ov_term v, v_voted_for = show_nat (unat n) \<rparr>)
      = Some \<lparr> v_term = ov_term v, v_voted_for = show_nat (unat n) \<rparr>"
    and "ov_voted_for v = Some n"
  shows "read_vote from_slice (save_vote to_vec v la) = Inr (Some \<lparr> ov_term = ov_term v, ov_voted_for = Some n, ov_committed = False \<rparr>)"
  using assms by (simp add: read_vote_def save_vote_def vote_load_def vote_save_def parse_u64_show show_nat_nonempty)

theorem vote_round_trip_witness:
  "read_vote (\<lambda>_. Some \<lparr> v_term = 3, v_voted_for = show_nat (unat (12 :: u64)) \<rparr>)
     (save_vote (\<lambda>_. []) \<lparr> ov_term = 3, ov_voted_for = Some 12, ov_committed = True \<rparr> fresh_log)
   = Inr (Some \<lparr> ov_term = 3, ov_voted_for = Some 12, ov_committed = False \<rparr>)"
  using vote_round_trip [of "\<lambda>_. Some \<lparr> v_term = 3, v_voted_for = show_nat (unat (12 :: u64)) \<rparr>" "\<lambda>_. []"
      "\<lparr> ov_term = 3, ov_voted_for = Some 12, ov_committed = True \<rparr>" 12 fresh_log]
  by simp

end
