(* ===== verification/Needle.thy ===== *)
theory Needle
  imports Prelude
begin

text \<open>
  The needle: one self-describing, checksummed record of a log segment
  (\<open>src/storage/needle.rs\<close>).  The packed header is laid out as on a little-endian
  machine.  The hash xxh64 and the msgpack decoding of metadata are parameters; checking
  that bytes are UTF-8 is part of the standard library and modelled in full.
\<close>

section \<open>Strings and bytes\<close>

definition str_bytes :: "string \<Rightarrow> bytes" where
  "str_bytes s = map (\<lambda>c. word_of_nat (of_char c)) s"

definition bytes_str :: "bytes \<Rightarrow> string" where
  "bytes_str bs = map (\<lambda>b. char_of (unat b)) bs"

lemma length_str_bytes [simp]: "length (str_bytes s) = length s"
  by (simp add: str_bytes_def)

lemma bytes_str_str_bytes [simp]: "bytes_str (str_bytes s) = s"
proof -
  have "char_of (unat (word_of_nat (of_char c) :: u8)) = c" for c
  proof -
    have "(of_char c :: nat) < 256" using of_char_mod_256 [of c, where ?'a = nat] mod_less_divisor [of 256 "of_char c"] by simp
    then have "unat (word_of_nat (of_char c) :: u8) = of_char c" by (simp add: unat_of_nat)
    then show ?thesis by simp
  qed
  then show ?thesis by (simp add: bytes_str_def str_bytes_def comp_def)
qed

definition is_cont :: "u8 \<Rightarrow> bool" where
  "is_cont b \<longleftrightarrow> 0x80 \<le> b \<and> b \<le> 0xBF"

text \<open>\<open>std::str::from_utf8\<close> succeeds.\<close>

fun valid_utf8 :: "bytes \<Rightarrow> bool" where
  "valid_utf8 [] = True"
| "valid_utf8 (a # bs) =
     (if a \<le> 0x7F then valid_utf8 bs
      else (case bs of
        [] \<Rightarrow> False
      | b # cs \<Rightarrow>
          if 0xC2 \<le> a \<and> a \<le> 0xDF then is_cont b \<and> valid_utf8 cs
          else (case cs of
            [] \<Rightarrow> False
          | c # ds \<Rightarrow>
              if 0xE0 \<le> a \<and> a \<le> 0xEF then
                (if a = 0xE0 then 0xA0 \<le> b \<and> b \<le> 0xBF else if a = 0xED then 0x80 \<le> b \<and> b \<le> 0x9F else is_cont b)
                \<and> is_cont c \<and> valid_utf8 ds
              else (case ds of
                [] \<Rightarrow> False
              | d # es \<Rightarrow>
                  0xF0 \<le> a \<and> a \<le> 0xF4
                  \<and> (if a = 0xF0 then 0x90 \<le> b \<and> b \<le> 0xBF else if a = 0xF4 then 0x80 \<le> b \<and> b \<le> 0x8F else is_cont b)
                  \<and> is_cont c \<and> is_cont d \<and> valid_utf8 es))))"

text \<open>What every Rust string satisfies.\<close>

definition rust_str :: "string \<Rightarrow> bool" where
  "rust_str s \<longleftrightarrow> valid_utf8 (str_bytes s)"

lemma rust_str_Nil [simp]: "rust_str []"
  by (simp add: rust_str_def str_bytes_def)

lemma rust_str_ascii: "\<forall>c \<in> set s. (of_char c :: nat) < 128 \<Longrightarrow> rust_str s"
  by (induction s) (auto simp: rust_str_def str_bytes_def word_le_nat_alt unat_of_nat)

section \<open>The record\<close>

definition NEEDLE_MAGIC :: nat where "NEEDLE_MAGIC = 0xAB1C4E00"
definition HEADER_SIZE :: nat where "HEADER_SIZE = 24"
definition FLAG_NORMAL :: u8 where "FLAG_NORMAL = 0"
definition FLAG_DELETE :: u8 where "FLAG_DELETE = 1"

record raw_header =
  rh_magic :: nat
  rh_flags :: u8
  rh_bucket_len :: nat
  rh_key_len :: nat
  rh_meta_len :: nat
  rh_data_len :: nat
  rh_checksum :: u64
  rh_version_id_len :: nat

record needle =
  n_flags :: u8
  n_bucket :: string
  n_key :: string
  n_version_id :: string
  n_meta_bytes :: bytes
  n_data :: bytes

datatype needle_error = HeaderTooShort | BadMagic nat | NeedleTruncated | ChecksumMismatch | BadUtf8

definition needle_new :: "('meta \<Rightarrow> bytes) \<Rightarrow> string \<Rightarrow> string \<Rightarrow> string option \<Rightarrow> 'meta \<Rightarrow> bytes \<Rightarrow> needle" where
  "needle_new msgpack bucket key version_id meta shard_data =
     \<lparr> n_flags = FLAG_NORMAL, n_bucket = bucket, n_key = key,
       n_version_id = (case version_id of Some s \<Rightarrow> s | None \<Rightarrow> []),
       n_meta_bytes = msgpack meta, n_data = shard_data \<rparr>"

definition tombstone_versioned :: "string \<Rightarrow> string \<Rightarrow> string option \<Rightarrow> needle" where
  "tombstone_versioned bucket key version_id =
     \<lparr> n_flags = FLAG_DELETE, n_bucket = bucket, n_key = key,
       n_version_id = (case version_id of Some s \<Rightarrow> s | None \<Rightarrow> []), n_meta_bytes = [], n_data = [] \<rparr>"

definition tombstone :: "string \<Rightarrow> string \<Rightarrow> needle" where
  "tombstone bucket key = tombstone_versioned bucket key None"

definition serialized_size :: "needle \<Rightarrow> nat" where
  "serialized_size n = HEADER_SIZE + length (n_bucket n) + length (n_key n) + length (n_version_id n)
     + length (n_meta_bytes n) + length (n_data n)"

text \<open>The packed header as bytes; every field is cut to its width.\<close>

definition header_bytes :: "raw_header \<Rightarrow> bytes" where
  "header_bytes h = to_le 4 (rh_magic h) @ [rh_flags h] @ to_le 1 (rh_bucket_len h) @ to_le 2 (rh_key_len h)
     @ to_le 2 (rh_meta_len h) @ to_le 4 (rh_data_len h) @ u64_le (rh_checksum h) @ to_le 1 (rh_version_id_len h) @ [0]"

definition read_raw_header :: "bytes \<Rightarrow> raw_header" where
  "read_raw_header buf = \<lparr> rh_magic = from_le (slice_of 0 4 buf), rh_flags = buf ! 4,
     rh_bucket_len = from_le (slice_of 5 1 buf), rh_key_len = from_le (slice_of 6 2 buf),
     rh_meta_len = from_le (slice_of 8 2 buf), rh_data_len = from_le (slice_of 10 4 buf),
     rh_checksum = u64_from_le (slice_of 14 8 buf), rh_version_id_len = from_le (slice_of 22 1 buf) \<rparr>"

definition serialize_into :: "(bytes \<Rightarrow> u64) \<Rightarrow> needle \<Rightarrow> bytes \<Rightarrow> bytes" where
  "serialize_into xxh64 n dest0 =
     (let size = serialized_size n;
          off1 = HEADER_SIZE;                   dest1 = blit off1 (str_bytes (n_bucket n)) dest0;
          off2 = off1 + length (n_bucket n);    dest2 = blit off2 (str_bytes (n_key n)) dest1;
          off3 = off2 + length (n_key n);       dest3 = blit off3 (str_bytes (n_version_id n)) dest2;
          off4 = off3 + length (n_version_id n); dest4 = blit off4 (n_meta_bytes n) dest3;
          off5 = off4 + length (n_meta_bytes n); dest5 = blit off5 (n_data n) dest4;
          checksum = xxh64 (slice_of HEADER_SIZE (size - HEADER_SIZE) dest5);
          header = \<lparr> rh_magic = NEEDLE_MAGIC, rh_flags = n_flags n, rh_bucket_len = length (n_bucket n),
            rh_key_len = length (n_key n), rh_meta_len = length (n_meta_bytes n), rh_data_len = length (n_data n),
            rh_checksum = checksum, rh_version_id_len = length (n_version_id n) \<rparr>
      in blit 0 (header_bytes header) dest5)"

definition serialize :: "(bytes \<Rightarrow> u64) \<Rightarrow> needle \<Rightarrow> bytes" where
  "serialize xxh64 n = serialize_into xxh64 n (replicate (serialized_size n) 0)"

definition header_total :: "raw_header \<Rightarrow> nat" where
  "header_total h = HEADER_SIZE + rh_bucket_len h + rh_key_len h + rh_version_id_len h + rh_meta_len h + rh_data_len h"

text \<open>The checks that \<open>deserialize\<close> and \<open>read_header\<close> both start with.\<close>

definition checked_header :: "(bytes \<Rightarrow> u64) \<Rightarrow> bytes \<Rightarrow> needle_error + raw_header" where
  "checked_header xxh64 buf =
     (if length buf < HEADER_SIZE then Inl HeaderTooShort
      else let h = read_raw_header buf in
        if rh_magic h \<noteq> NEEDLE_MAGIC then Inl (BadMagic (rh_magic h))
        else if length buf < header_total h then Inl NeedleTruncated
        else if xxh64 (slice_of HEADER_SIZE (header_total h - HEADER_SIZE) buf) \<noteq> rh_checksum h then Inl ChecksumMismatch
        else Inr h)"

definition from_utf8 :: "bytes \<Rightarrow> needle_error + string" where
  "from_utf8 bs = (if valid_utf8 bs then Inr (bytes_str bs) else Inl BadUtf8)"

definition deserialize ::
  "(bytes \<Rightarrow> u64) \<Rightarrow> bytes \<Rightarrow> needle_error + (u8 \<times> string \<times> string \<times> string \<times> bytes \<times> bytes \<times> nat)" where
  "deserialize xxh64 buf = res_bind (checked_header xxh64 buf) (\<lambda>h.
     let o1 = HEADER_SIZE; o2 = o1 + rh_bucket_len h; o3 = o2 + rh_key_len h;
         o4 = o3 + rh_version_id_len h; o5 = o4 + rh_meta_len h
     in res_bind (from_utf8 (slice_of o1 (rh_bucket_len h) buf)) (\<lambda>bucket.
        res_bind (from_utf8 (slice_of o2 (rh_key_len h) buf)) (\<lambda>key.
        res_bind (from_utf8 (slice_of o3 (rh_version_id_len h) buf)) (\<lambda>version_id.
        Inr (rh_flags h, bucket, key, version_id, slice_of o4 (rh_meta_len h) buf, slice_of o5 (rh_data_len h) buf,
             header_total h)))))"

record needle_view =
  nv_flags :: u8
  nv_bucket :: string
  nv_key :: string
  nv_version_id :: string
  nv_meta_offset :: nat
  nv_meta_len :: nat
  nv_data_offset :: nat
  nv_data_len :: nat
  nv_total :: nat

definition read_header :: "(bytes \<Rightarrow> u64) \<Rightarrow> bytes \<Rightarrow> needle_error + needle_view" where
  "read_header xxh64 buf = res_bind (checked_header xxh64 buf) (\<lambda>h.
     let bucket_offset = HEADER_SIZE; key_offset = bucket_offset + rh_bucket_len h;
         version_id_offset = key_offset + rh_key_len h; meta_offset = version_id_offset + rh_version_id_len h;
         data_offset = meta_offset + rh_meta_len h
     in res_bind (from_utf8 (slice_of bucket_offset (rh_bucket_len h) buf)) (\<lambda>bucket.
        res_bind (from_utf8 (slice_of key_offset (rh_key_len h) buf)) (\<lambda>key.
        res_bind (from_utf8 (slice_of version_id_offset (rh_version_id_len h) buf)) (\<lambda>version_id.
        Inr \<lparr> nv_flags = rh_flags h, nv_bucket = bucket, nv_key = key, nv_version_id = version_id,
              nv_meta_offset = meta_offset, nv_meta_len = rh_meta_len h,
              nv_data_offset = data_offset, nv_data_len = rh_data_len h, nv_total = header_total h \<rparr>))))"

section \<open>Round trip\<close>

definition needle_fits :: "needle \<Rightarrow> bool" where
  "needle_fits n \<longleftrightarrow> length (n_bucket n) < 2 ^ 8 \<and> length (n_key n) < 2 ^ 16 \<and> length (n_version_id n) < 2 ^ 8
     \<and> length (n_meta_bytes n) < 2 ^ 16 \<and> length (n_data n) < 2 ^ 32
     \<and> rust_str (n_bucket n) \<and> rust_str (n_key n) \<and> rust_str (n_version_id n)"

definition payload_of :: "needle \<Rightarrow> bytes" where
  "payload_of n = str_bytes (n_bucket n) @ str_bytes (n_key n) @ str_bytes (n_version_id n) @ n_meta_bytes n @ n_data n"

definition needle_header :: "(bytes \<Rightarrow> u64) \<Rightarrow> needle \<Rightarrow> raw_header" where
  "needle_header xxh64 n = \<lparr> rh_magic = NEEDLE_MAGIC, rh_flags = n_flags n, rh_bucket_len = length (n_bucket n),
     rh_key_len = length (n_key n), rh_meta_len = length (n_meta_bytes n), rh_data_len = length (n_data n),
     rh_checksum = xxh64 (payload_of n), rh_version_id_len = length (n_version_id n) \<rparr>"

definition needle_bytes :: "(bytes \<Rightarrow> u64) \<Rightarrow> needle \<Rightarrow> bytes" where
  "needle_bytes xxh64 n = header_bytes (needle_header xxh64 n) @ payload_of n"

lemma length_header_bytes [simp]: "length (header_bytes h) = HEADER_SIZE"
  by (simp add: header_bytes_def HEADER_SIZE_def)

lemma length_payload_of: "length (payload_of n) + HEADER_SIZE = serialized_size n"
  by (simp add: payload_of_def serialized_size_def)

lemma size_minus_header [simp]: "serialized_size n - HEADER_SIZE = length (payload_of n)"
  using length_payload_of [of n] by simp

lemma length_needle_bytes [simp]: "length (needle_bytes xxh64 n) = serialized_size n"
  by (simp add: needle_bytes_def length_payload_of [symmetric])

lemma blit_snoc:
  "off + length xs + length ys \<le> length d \<Longrightarrow> blit (off + length xs) ys (blit off xs d) = blit off (xs @ ys) d"
  by (cases xs) (auto simp: blit_def min_def ac_simps)

text \<open>Writing field by field amounts to placing the whole record at the front.\<close>

lemma serialize_into_eq:
  assumes "serialized_size n \<le> length dest"
  shows "serialize_into xxh64 n dest = needle_bytes xxh64 n @ drop (serialized_size n) dest"
proof -
  let ?d5 = "blit HEADER_SIZE (payload_of n) dest"
  have fold: "serialize_into xxh64 n dest = blit 0 (header_bytes (needle_header xxh64 n\<lparr> rh_checksum :=
      xxh64 (slice_of HEADER_SIZE (serialized_size n - HEADER_SIZE) ?d5) \<rparr>)) ?d5"
    using assms blit_snoc [of HEADER_SIZE "str_bytes (n_bucket n)" "str_bytes (n_key n)" dest]
      blit_snoc [of HEADER_SIZE "str_bytes (n_bucket n) @ str_bytes (n_key n)" "str_bytes (n_version_id n)" dest]
      blit_snoc [of HEADER_SIZE "str_bytes (n_bucket n) @ str_bytes (n_key n) @ str_bytes (n_version_id n)" "n_meta_bytes n" dest]
      blit_snoc [of HEADER_SIZE "str_bytes (n_bucket n) @ str_bytes (n_key n) @ str_bytes (n_version_id n) @ n_meta_bytes n" "n_data n" dest]
    by (simp add: serialize_into_def Let_def serialized_size_def payload_of_def needle_header_def add.assoc)
  have "slice_of HEADER_SIZE (serialized_size n - HEADER_SIZE) ?d5 = payload_of n"
    unfolding size_minus_header using assms length_payload_of [of n] by (intro slice_of_blit_same) simp
  then have "serialize_into xxh64 n dest = blit 0 (header_bytes (needle_header xxh64 n)) ?d5"
    by (simp add: fold needle_header_def)
  also have "\<dots> = needle_bytes xxh64 n @ drop (serialized_size n) dest"
    using assms length_payload_of [of n] by (simp add: blit_def needle_bytes_def add.commute)
  finally show ?thesis .
qed

lemma read_raw_header_bytes:
  assumes "needle_fits n"
  shows "read_raw_header (needle_bytes xxh64 n @ rest) = needle_header xxh64 n"
  using assms
  by (simp add: read_raw_header_def needle_bytes_def header_bytes_def needle_header_def slice_of_def needle_fits_def
      from_le_to_le nth_append NEEDLE_MAGIC_def unat_of_nat)

lemma checked_header_bytes:
  assumes "needle_fits n"
  shows "checked_header xxh64 (needle_bytes xxh64 n @ rest) = Inr (needle_header xxh64 n)"
proof -
  have tot: "header_total (needle_header xxh64 n) = serialized_size n"
    by (simp add: header_total_def needle_header_def serialized_size_def)
  have "slice_of HEADER_SIZE (serialized_size n - HEADER_SIZE) (needle_bytes xxh64 n @ rest) = payload_of n"
    using slice_of_mid [of "header_bytes (needle_header xxh64 n)" "payload_of n" rest] by (simp add: needle_bytes_def)
  moreover have "HEADER_SIZE \<le> serialized_size n" by (simp add: serialized_size_def)
  ultimately show ?thesis
    by (simp add: checked_header_def read_raw_header_bytes [OF assms] tot Let_def)
      (simp add: needle_header_def)
qed

lemma slice_payload:
  assumes "payload_of n = xs @ ys @ zs" and "len = length ys"
  shows "slice_of (HEADER_SIZE + length xs) len (needle_bytes xxh64 n @ rest) = ys"
  using slice_of_mid [of "header_bytes (needle_header xxh64 n) @ xs" ys "zs @ rest"] assms
  by (simp add: needle_bytes_def)

lemma needle_slices:
  "slice_of HEADER_SIZE (length (n_bucket n)) (needle_bytes xxh64 n @ rest) = str_bytes (n_bucket n)"
  "slice_of (HEADER_SIZE + length (n_bucket n)) (length (n_key n)) (needle_bytes xxh64 n @ rest) = str_bytes (n_key n)"
  "slice_of (HEADER_SIZE + length (n_bucket n) + length (n_key n)) (length (n_version_id n)) (needle_bytes xxh64 n @ rest)
     = str_bytes (n_version_id n)"
  "slice_of (HEADER_SIZE + length (n_bucket n) + length (n_key n) + length (n_version_id n)) (length (n_meta_bytes n))
     (needle_bytes xxh64 n @ rest) = n_meta_bytes n"
  "slice_of (HEADER_SIZE + length (n_bucket n) + length (n_key n) + length (n_version_id n) + length (n_meta_bytes n))
     (length (n_data n)) (needle_bytes xxh64 n @ rest) = n_data n"
  using slice_payload [of n "[]" "str_bytes (n_bucket n)"]
    slice_payload [of n "str_bytes (n_bucket n)" "str_bytes (n_key n)"]
    slice_payload [of n "str_bytes (n_bucket n) @ str_bytes (n_key n)" "str_bytes (n_version_id n)"]
    slice_payload [of n "str_bytes (n_bucket n) @ str_bytes (n_key n) @ str_bytes (n_version_id n)" "n_meta_bytes n" "n_data n"]
    slice_payload [of n "str_bytes (n_bucket n) @ str_bytes (n_key n) @ str_bytes (n_version_id n) @ n_meta_bytes n" "n_data n" "[]"]
  by (simp_all add: payload_of_def add.assoc)

lemma from_utf8_str: "rust_str s \<Longrightarrow> from_utf8 (str_bytes s) = Inr s"
  by (simp add: from_utf8_def rust_str_def)

definition view_of :: "needle \<Rightarrow> needle_view" where
  "view_of n = (let m = HEADER_SIZE + length (n_bucket n) + length (n_key n) + length (n_version_id n) in
     \<lparr> nv_flags = n_flags n, nv_bucket = n_bucket n, nv_key = n_key n, nv_version_id = n_version_id n,
       nv_meta_offset = m, nv_meta_len = length (n_meta_bytes n),
       nv_data_offset = m + length (n_meta_bytes n), nv_data_len = length (n_data n), nv_total = serialized_size n \<rparr>)"

lemma read_header_bytes:
  assumes "needle_fits n"
  shows "read_header xxh64 (needle_bytes xxh64 n @ rest) = Inr (view_of n)"
  using assms
  by (simp add: read_header_def checked_header_bytes needle_header_def needle_slices from_utf8_str needle_fits_def
      view_of_def Let_def header_total_def serialized_size_def)

lemma deserialize_bytes:
  assumes "needle_fits n"
  shows "deserialize xxh64 (needle_bytes xxh64 n @ rest)
    = Inr (n_flags n, n_bucket n, n_key n, n_version_id n, n_meta_bytes n, n_data n, serialized_size n)"
  using assms
  by (simp add: deserialize_def checked_header_bytes needle_header_def needle_slices from_utf8_str needle_fits_def
      Let_def header_total_def serialized_size_def)

lemma serialize_eq: "serialize xxh64 n = needle_bytes xxh64 n"
  by (simp add: serialize_def serialize_into_eq)

text \<open>A needle whose fields fit the widths of the packed header is read back exactly as it
  was written, whatever bytes follow it in the segment and whatever the hash is; the
  zero-copy reader reports the same strings and the offsets at which metadata and data lie.\<close>

theorem needle_round_trip:
  assumes "needle_fits n"
  shows "deserialize xxh64 (serialize xxh64 n @ rest)
      = Inr (n_flags n, n_bucket n, n_key n, n_version_id n, n_meta_bytes n, n_data n, serialized_size n)
    \<and> (\<exists>v. read_header xxh64 (serialize xxh64 n @ rest) = Inr v
        \<and> (nv_flags v, nv_bucket v, nv_key v, nv_version_id v) = (n_flags n, n_bucket n, n_key n, n_version_id n)
        \<and> slice_of (nv_meta_offset v) (nv_meta_len v) (serialize xxh64 n @ rest) = n_meta_bytes n
        \<and> slice_of (nv_data_offset v) (nv_data_len v) (serialize xxh64 n @ rest) = n_data n
        \<and> nv_total v = length (serialize xxh64 n))"
  using deserialize_bytes [OF assms] read_header_bytes [OF assms]
  by (simp add: serialize_eq view_of_def Let_def needle_slices)

theorem needle_round_trip_witness:
  "deserialize (\<lambda>bs. word_of_nat (length bs))
     (serialize (\<lambda>bs. word_of_nat (length bs))
        \<lparr> n_flags = 0, n_bucket = ''b'', n_key = ''k'', n_version_id = [], n_meta_bytes = [1], n_data = [2, 3] \<rparr> @ [9])
   = Inr (0, ''b'', ''k'', [], [1], [2, 3], 29)"
  using needle_round_trip [of "\<lparr> n_flags = 0, n_bucket = ''b'', n_key = ''k'', n_version_id = [], n_meta_bytes = [1], n_data = [2, 3] \<rparr>"
      "\<lambda>bs. word_of_nat (length bs)" "[9]"]
  by (simp add: needle_fits_def rust_str_ascii serialized_size_def HEADER_SIZE_def)

end
