(* ===== verification/Segment.thy ===== *)
theory Segment
  imports Needle "HOL-Library.List_Lexorder" "HOL-Library.Char_ord"
begin

text \<open>
  Segment files of the write-ahead log (\<open>src/storage/segment.rs\<close>).  The directory maps
  file names to bytes; a memory map of a segment is the content of its file, so an append
  changes the file and a reader sees it at once.  The superblock is laid out as on a
  little-endian machine.  What a power failure does to pages that were not flushed is not
  modelled.
\<close>

type_synonym u32 = "32 word"
type_synonym seg_dir = "(string, bytes) btree"

section \<open>Segments\<close>

definition SEGMENT_MAGIC :: bytes where "SEGMENT_MAGIC = str_bytes ''ABXL''"
definition SUPERBLOCK_SIZE :: nat where "SUPERBLOCK_SIZE = 32"

definition superblock :: "u32 \<Rightarrow> u64 \<Rightarrow> bytes" where
  "superblock segment_id created_at =
     SEGMENT_MAGIC @ to_le 4 1 @ to_le 4 (unat segment_id) @ u64_le created_at @ replicate 12 0"

definition seg_name :: "u32 \<Rightarrow> string" where
  "seg_name segment_id = (let s = show_nat (unat segment_id) in
     ''segment-'' @ replicate (6 - length s) (CHR ''0'') @ s @ ''.dat'')"

record active_segment =
  as_segment_id :: u32
  as_write_offset :: nat
  as_capacity :: nat

record sealed_segment =
  ss_segment_id :: u32
  ss_path :: string
  ss_size :: nat

datatype segment_error = ReadBeyond | SegmentTooSmall | BadSegmentMagic

definition file_of :: "seg_dir \<Rightarrow> string \<Rightarrow> bytes" where
  "file_of d name = (case map_of d name of Some bs \<Rightarrow> bs | None \<Rightarrow> [])"

text \<open>\<open>set_len\<close>: cut off or pad with zeros.\<close>

definition set_len :: "nat \<Rightarrow> bytes \<Rightarrow> bytes" where
  "set_len n bs = take n bs @ replicate (n - length bs) 0"

text \<open>
  \<open>ActiveSegment::create\<close>; the file is opened without truncating it.  Writing the
  superblock panics when the capacity is below its size, which no caller configures.
\<close>

definition segment_create :: "u64 \<Rightarrow> u32 \<Rightarrow> nat \<Rightarrow> seg_dir \<Rightarrow> active_segment \<times> seg_dir" where
  "segment_create now segment_id capacity d =
     (let name = seg_name segment_id;
          mmap = blit 0 (superblock segment_id now) (set_len capacity (file_of d name))
      in (\<lparr> as_segment_id = segment_id, as_write_offset = SUPERBLOCK_SIZE, as_capacity = capacity \<rparr>,
          bt_insert name mmap d))"

record needle_location =
  nl_segment_id :: u32
  nl_offset :: u32
  nl_meta_offset :: u32
  nl_meta_len :: u16
  nl_data_offset :: u32
  nl_data_len :: u32
  nl_created_at :: u32

definition segment_append ::
  "(bytes \<Rightarrow> u64) \<Rightarrow> needle \<Rightarrow> active_segment \<times> seg_dir \<Rightarrow> (needle_location option) \<times> active_segment \<times> seg_dir" where
  "segment_append xxh64 n sd = (case sd of (seg, d) \<Rightarrow>
     (let sz = serialized_size n; off = as_write_offset seg; name = seg_name (as_segment_id seg); mmap = file_of d name in
      if off + sz > as_capacity seg then (None, seg, d)
      else
        let mmap' = blit off (serialize_into xxh64 n (slice_of off sz mmap)) mmap;
            needle_offset = (word_of_nat off :: u32);
            meta_offset = needle_offset + word_of_nat HEADER_SIZE + word_of_nat (length (n_bucket n))
              + word_of_nat (length (n_key n)) + word_of_nat (length (n_version_id n));
            data_offset = meta_offset + word_of_nat (length (n_meta_bytes n))
        in (Some \<lparr> nl_segment_id = as_segment_id seg, nl_offset = needle_offset, nl_meta_offset = meta_offset,
              nl_meta_len = word_of_nat (length (n_meta_bytes n)), nl_data_offset = data_offset,
              nl_data_len = word_of_nat (length (n_data n)), nl_created_at = 0 \<rparr>,
            seg\<lparr> as_write_offset := off + sz \<rparr>, bt_insert name mmap' d)))"

definition active_read_at :: "active_segment \<Rightarrow> seg_dir \<Rightarrow> nat \<Rightarrow> nat \<Rightarrow> segment_error + bytes" where
  "active_read_at seg d off len =
     (if off + len > as_write_offset seg then Inl ReadBeyond
      else Inr (slice_of off len (file_of d (seg_name (as_segment_id seg)))))"

definition seg_remaining :: "active_segment \<Rightarrow> nat" where
  "seg_remaining seg = as_capacity seg - as_write_offset seg"

definition seg_is_full :: "active_segment \<Rightarrow> bool" where
  "seg_is_full seg = (seg_remaining seg < HEADER_SIZE + 64)"

definition segment_seal :: "active_segment \<Rightarrow> sealed_segment" where
  "segment_seal seg = \<lparr> ss_segment_id = as_segment_id seg, ss_path = seg_name (as_segment_id seg), ss_size = as_write_offset seg \<rparr>"

lemma read_header_total: "read_header xxh64 buf = Inr v \<Longrightarrow> HEADER_SIZE \<le> nv_total v"
  by (auto simp: read_header_def res_bind_Inr_iff Let_def header_total_def)

lemma HEADER_SIZE_pos: "0 < HEADER_SIZE"
  by (simp add: HEADER_SIZE_def)

function scan_end :: "(bytes \<Rightarrow> u64) \<Rightarrow> bytes \<Rightarrow> nat \<Rightarrow> nat" where
  "scan_end xxh64 mmap offset =
     (if offset + HEADER_SIZE \<le> length mmap then
        (case read_header xxh64 (drop offset mmap) of
           Inr v \<Rightarrow> scan_end xxh64 mmap (offset + nv_total v)
         | Inl _ \<Rightarrow> offset)
      else offset)"
  by pat_completeness auto
termination
  by (relation "measure (\<lambda>(h, mmap, offset). length mmap - offset)")
    (use HEADER_SIZE_pos in \<open>auto dest!: read_header_total\<close>)

function scan_from :: "(bytes \<Rightarrow> u64) \<Rightarrow> bytes \<Rightarrow> nat \<Rightarrow> nat \<Rightarrow> (needle_view \<times> nat) list" where
  "scan_from xxh64 mmap sz offset =
     (if offset + HEADER_SIZE \<le> sz then
        (case read_header xxh64 (drop offset mmap) of
           Inr v \<Rightarrow> (v\<lparr> nv_meta_offset := offset + nv_meta_offset v, nv_data_offset := offset + nv_data_offset v \<rparr>, offset)
              # scan_from xxh64 mmap sz (offset + nv_total v)
         | Inl _ \<Rightarrow> [])
      else [])"
  by pat_completeness auto
termination
  by (relation "measure (\<lambda>(h, mmap, sz, offset). sz - offset)")
    (use HEADER_SIZE_pos in \<open>auto dest!: read_header_total\<close>)

declare scan_end.simps [simp del] scan_from.simps [simp del]

definition sealed_open :: "(bytes \<Rightarrow> u64) \<Rightarrow> string \<Rightarrow> seg_dir \<Rightarrow> segment_error + sealed_segment" where
  "sealed_open xxh64 name d =
     (let mmap = file_of d name in
      if length mmap < SUPERBLOCK_SIZE then Inl SegmentTooSmall
      else if slice_of 0 4 mmap \<noteq> SEGMENT_MAGIC then Inl BadSegmentMagic
      else Inr \<lparr> ss_segment_id = word_of_nat (from_le (slice_of 8 4 mmap)), ss_path = name,
             ss_size = scan_end xxh64 mmap SUPERBLOCK_SIZE \<rparr>)"

definition sealed_slice :: "sealed_segment \<Rightarrow> seg_dir \<Rightarrow> nat \<Rightarrow> nat \<Rightarrow> bytes option" where
  "sealed_slice seg d off len =
     (let mmap = file_of d (ss_path seg) in if off + len \<le> length mmap then Some (slice_of off len mmap) else None)"

definition segment_scan :: "(bytes \<Rightarrow> u64) \<Rightarrow> sealed_segment \<Rightarrow> seg_dir \<Rightarrow> (needle_view \<times> nat) list" where
  "segment_scan xxh64 seg d = scan_from xxh64 (file_of d (ss_path seg)) (ss_size seg) SUPERBLOCK_SIZE"

section \<open>What a segment file holds\<close>

definition needles_bytes :: "(bytes \<Rightarrow> u64) \<Rightarrow> needle list \<Rightarrow> bytes" where
  "needles_bytes xxh64 ns = concat (map (needle_bytes xxh64) ns)"

lemma needles_bytes_simps [simp]:
  "needles_bytes h [] = []" "needles_bytes h (n # ns) = needle_bytes h n @ needles_bytes h ns"
  "needles_bytes h (xs @ ys) = needles_bytes h xs @ needles_bytes h ys"
  by (simp_all add: needles_bytes_def)

text \<open>The scan finds nothing more from here on.\<close>

definition stops :: "(bytes \<Rightarrow> u64) \<Rightarrow> bytes \<Rightarrow> bool" where
  "stops xxh64 rest \<longleftrightarrow> (case read_header xxh64 rest of Inl _ \<Rightarrow> True | Inr _ \<Rightarrow> False)"

lemma read_header_short: "length buf < HEADER_SIZE \<Longrightarrow> read_header xxh64 buf = Inl HeaderTooShort"
  by (simp add: read_header_def checked_header_def)

lemma from_le_zeros [simp]: "from_le (replicate n 0) = 0"
  by (induction n) simp_all

lemma stops_zeros: "stops xxh64 (replicate k 0)"
proof (cases "k < HEADER_SIZE")
  case True
  then show ?thesis by (simp add: stops_def read_header_short)
next
  case False
  then have "take 4 (replicate k (0 :: u8)) = replicate 4 0" by (simp add: HEADER_SIZE_def min_def)
  then have "rh_magic (read_raw_header (replicate k 0)) = 0"
    by (simp add: read_raw_header_def slice_of_def)
  then have "checked_header xxh64 (replicate k 0) = Inl (BadMagic 0)"
    using False by (simp add: checked_header_def Let_def NEEDLE_MAGIC_def)
  then show ?thesis by (simp add: stops_def read_header_def)
qed

lemma scan_end_needles:
  assumes "list_all needle_fits ns" and "stops xxh64 rest"
  shows "scan_end xxh64 (pre @ needles_bytes xxh64 ns @ rest) (length pre) = length pre + length (needles_bytes xxh64 ns)"
  using assms
proof (induction ns arbitrary: pre)
  case Nil
  then show ?case by (subst scan_end.simps) (auto simp: stops_def split: sum.splits)
next
  case (Cons n ns)
  have "serialized_size n \<ge> HEADER_SIZE" by (simp add: serialized_size_def)
  then have step: "scan_end xxh64 (pre @ needles_bytes xxh64 (n # ns) @ rest) (length pre)
      = scan_end xxh64 ((pre @ needle_bytes xxh64 n) @ needles_bytes xxh64 ns @ rest) (length (pre @ needle_bytes xxh64 n))"
    using Cons.prems read_header_bytes [of n xxh64 "needles_bytes xxh64 ns @ rest"]
    by (subst scan_end.simps) (simp add: view_of_def Let_def)
  show ?case unfolding step using Cons by (subst Cons.IH) simp_all
qed

text \<open>The entries of a scan: every needle with its position.\<close>

definition view_at :: "nat \<Rightarrow> needle \<Rightarrow> needle_view \<times> nat" where
  "view_at off n = ((view_of n)\<lparr> nv_meta_offset := off + nv_meta_offset (view_of n),
      nv_data_offset := off + nv_data_offset (view_of n) \<rparr>, off)"

fun views_from :: "nat \<Rightarrow> needle list \<Rightarrow> (needle_view \<times> nat) list" where
  "views_from off [] = []"
| "views_from off (n # ns) = view_at off n # views_from (off + serialized_size n) ns"

lemma scan_from_needles:
  assumes "list_all needle_fits ns" and "sz = length pre + length (needles_bytes xxh64 ns)"
  shows "scan_from xxh64 (pre @ needles_bytes xxh64 ns @ rest) sz (length pre) = views_from (length pre) ns"
  using assms
proof (induction ns arbitrary: pre)
  case Nil
  then show ?case using HEADER_SIZE_pos by (subst scan_from.simps) simp
next
  case (Cons n ns)
  have "serialized_size n \<ge> HEADER_SIZE" by (simp add: serialized_size_def)
  then have step: "scan_from xxh64 (pre @ needles_bytes xxh64 (n # ns) @ rest) sz (length pre)
      = view_at (length pre) n # scan_from xxh64 ((pre @ needle_bytes xxh64 n) @ needles_bytes xxh64 ns @ rest) sz (length (pre @ needle_bytes xxh64 n))"
    using Cons.prems read_header_bytes [of n xxh64 "needles_bytes xxh64 ns @ rest"]
    by (subst scan_from.simps) (simp add: view_at_def view_of_def Let_def)
  show ?case unfolding step using Cons.prems by (subst Cons.IH) (simp_all add: add.assoc)
qed

lemma parse_digits_zeros: "parse_digits (replicate k (CHR ''0'') @ s) 0 = parse_digits s 0"
  by (induction k) (simp_all add: digit_step_def)

lemma seg_name_inj: "seg_name i = seg_name j \<Longrightarrow> i = j"
proof -
  assume "seg_name i = seg_name j"
  then have "replicate (6 - length (show_nat (unat i))) (CHR ''0'') @ show_nat (unat i)
      = replicate (6 - length (show_nat (unat j))) (CHR ''0'') @ show_nat (unat j)"
    by (simp add: seg_name_def Let_def)
  then have "parse_digits (show_nat (unat i)) 0 = parse_digits (show_nat (unat j)) 0"
    by (metis parse_digits_zeros)
  moreover have "unat i < 2 ^ 64" "unat j < 2 ^ 64"
    using unsigned_less [of i, where ?'a = nat] unsigned_less [of j, where ?'a = nat] by simp_all
  ultimately have "unat i = unat j" by (simp add: parse_digits_show_nat)
  then show "i = j" by (simp flip: word_unat_eq_iff)
qed

lemma length_superblock [simp]: "length (superblock i t) = SUPERBLOCK_SIZE"
  by (simp add: superblock_def SEGMENT_MAGIC_def SUPERBLOCK_SIZE_def)

text \<open>The file of segment \<open>i\<close> holds these needles and nothing after them.\<close>

definition seg_holds :: "(bytes \<Rightarrow> u64) \<Rightarrow> u32 \<Rightarrow> needle list \<Rightarrow> seg_dir \<Rightarrow> bool" where
  "seg_holds xxh64 i ns d \<longleftrightarrow> list_all needle_fits ns \<and>
     (\<exists>t k. map_of d (seg_name i) = Some (superblock i t @ needles_bytes xxh64 ns @ replicate k 0)
        \<and> SUPERBLOCK_SIZE + length (needles_bytes xxh64 ns) + k < 2 ^ 32)"

definition seg_end :: "(bytes \<Rightarrow> u64) \<Rightarrow> needle list \<Rightarrow> nat" where
  "seg_end xxh64 ns = SUPERBLOCK_SIZE + length (needles_bytes xxh64 ns)"

text \<open>Segment \<open>i\<close> is open for writing after these needles.\<close>

definition active_holds :: "(bytes \<Rightarrow> u64) \<Rightarrow> needle list \<Rightarrow> active_segment \<Rightarrow> seg_dir \<Rightarrow> bool" where
  "active_holds xxh64 ns seg d \<longleftrightarrow> seg_holds xxh64 (as_segment_id seg) ns d
     \<and> as_write_offset seg = seg_end xxh64 ns \<and> length (file_of d (seg_name (as_segment_id seg))) = as_capacity seg"

lemma seg_holds_file:
  "seg_holds xxh64 i ns d \<Longrightarrow> \<exists>t k. file_of d (seg_name i) = superblock i t @ needles_bytes xxh64 ns @ replicate k 0
     \<and> SUPERBLOCK_SIZE + length (needles_bytes xxh64 ns) + k < 2 ^ 32"
  by (auto simp: seg_holds_def file_of_def)

lemma file_of_insert: "file_of (bt_insert k v d) k' = (if k' = k then v else file_of d k')"
  by (simp add: file_of_def bt_simps)

lemma segment_create_fresh:
  assumes "map_of d (seg_name i) = None" and "SUPERBLOCK_SIZE \<le> cap" and "cap < 2 ^ 32"
    and "segment_create now i cap d = (seg, d')"
  shows "active_holds xxh64 [] seg d'" and "as_segment_id seg = i" and "as_capacity seg = cap"
    and "name \<noteq> seg_name i \<Longrightarrow> map_of d' name = map_of d name"
  using assms
  by (auto simp: segment_create_def Let_def active_holds_def seg_holds_def seg_end_def file_of_def bt_simps set_len_def
      blit_def intro!: exI [of _ now] exI [of _ "cap - SUPERBLOCK_SIZE"])

lemma segment_append_full:
  "segment_append xxh64 n (seg, d) = (None, seg', d') \<Longrightarrow> seg' = seg \<and> d' = d"
  by (auto simp: segment_append_def Let_def split: if_splits)

lemma segment_append_room:
  assumes act: "active_holds xxh64 ns seg d" and fit: "needle_fits n"
    and app: "segment_append xxh64 n (seg, d) = (Some loc, seg', d')"
  shows "active_holds xxh64 (ns @ [n]) seg' d'" and "as_segment_id seg' = as_segment_id seg"
    and "as_capacity seg' = as_capacity seg"
    and "name \<noteq> seg_name (as_segment_id seg) \<Longrightarrow> map_of d' name = map_of d name"
    and "nl_data_offset loc = word_of_nat (seg_end xxh64 ns + nv_data_offset (view_of n))"
    and "nl_meta_offset loc = word_of_nat (seg_end xxh64 ns + nv_meta_offset (view_of n))"
    and "nl_data_len loc = word_of_nat (length (n_data n))" and "nl_meta_len loc = word_of_nat (length (n_meta_bytes n))"
proof -
  let ?name = "seg_name (as_segment_id seg)" and ?off = "as_write_offset seg"
  from act obtain t k where
    fl: "file_of d ?name = superblock (as_segment_id seg) t @ needles_bytes xxh64 ns @ replicate k 0"
    and lim: "SUPERBLOCK_SIZE + length (needles_bytes xxh64 ns) + k < 2 ^ 32"
    and off: "?off = SUPERBLOCK_SIZE + length (needles_bytes xxh64 ns)" and fits: "list_all needle_fits ns"
    and cap: "as_capacity seg = SUPERBLOCK_SIZE + length (needles_bytes xxh64 ns) + k"
    using seg_holds_file [of xxh64 "as_segment_id seg" ns d]
    by (auto simp: active_holds_def seg_end_def seg_holds_def)
  from app have room: "serialized_size n \<le> k"
    using cap off by (auto simp: segment_append_def Let_def split: if_splits)
  have sl: "slice_of ?off (serialized_size n) (file_of d ?name) = replicate (serialized_size n) 0"
    using room by (simp add: fl off slice_of_def min_def)
  have ser: "serialize_into xxh64 n (replicate (serialized_size n) 0) = needle_bytes xxh64 n"
    by (simp add: serialize_into_eq)
  have new: "blit ?off (needle_bytes xxh64 n) (file_of d ?name)
      = superblock (as_segment_id seg) t @ needles_bytes xxh64 (ns @ [n]) @ replicate (k - serialized_size n) 0"
    using room by (simp add: fl off blit_def)
  have res: "seg' = seg\<lparr> as_write_offset := ?off + serialized_size n \<rparr>"
    "d' = bt_insert ?name (blit ?off (needle_bytes xxh64 n) (file_of d ?name)) d"
    "nl_data_offset loc = word_of_nat ?off + word_of_nat HEADER_SIZE + word_of_nat (length (n_bucket n))
       + word_of_nat (length (n_key n)) + word_of_nat (length (n_version_id n)) + word_of_nat (length (n_meta_bytes n))"
    "nl_meta_offset loc = word_of_nat ?off + word_of_nat HEADER_SIZE + word_of_nat (length (n_bucket n))
       + word_of_nat (length (n_key n)) + word_of_nat (length (n_version_id n))"
    "nl_data_len loc = word_of_nat (length (n_data n))" "nl_meta_len loc = word_of_nat (length (n_meta_bytes n))"
    using app sl ser by (auto simp: segment_append_def Let_def split: if_splits)
  show "active_holds xxh64 (ns @ [n]) seg' d'"
    using res(1,2) new lim room fits fit cap off
    by (auto simp: active_holds_def seg_holds_def seg_end_def file_of_insert bt_simps)
  show "as_segment_id seg' = as_segment_id seg" "as_capacity seg' = as_capacity seg" by (simp_all add: res)
  show "name \<noteq> ?name \<Longrightarrow> map_of d' name = map_of d name" by (simp add: res bt_simps)
  show "nl_data_offset loc = word_of_nat (seg_end xxh64 ns + nv_data_offset (view_of n))"
    "nl_meta_offset loc = word_of_nat (seg_end xxh64 ns + nv_meta_offset (view_of n))"
    by (simp_all add: res off seg_end_def view_of_def Let_def add.assoc)
  show "nl_data_len loc = word_of_nat (length (n_data n))" "nl_meta_len loc = word_of_nat (length (n_meta_bytes n))"
    by (rule res)+
qed

lemma seg_holds_other: "map_of d' (seg_name i) = map_of d (seg_name i) \<Longrightarrow> seg_holds xxh64 i ns d' = seg_holds xxh64 i ns d"
  by (simp add: seg_holds_def)

text \<open>Where a needle lies in its segment, its data and metadata can be read back.\<close>

lemma seg_holds_slices:
  assumes "seg_holds xxh64 i (xs @ n # ys) d"
  shows "slice_of (seg_end xxh64 xs + nv_data_offset (view_of n)) (length (n_data n)) (file_of d (seg_name i)) = n_data n"
    and "slice_of (seg_end xxh64 xs + nv_meta_offset (view_of n)) (length (n_meta_bytes n)) (file_of d (seg_name i)) = n_meta_bytes n"
    and "seg_end xxh64 xs + nv_data_offset (view_of n) + length (n_data n) \<le> seg_end xxh64 (xs @ n # ys)"
    and "seg_end xxh64 xs + nv_meta_offset (view_of n) + length (n_meta_bytes n) \<le> seg_end xxh64 (xs @ n # ys)"
    and "seg_end xxh64 (xs @ n # ys) \<le> length (file_of d (seg_name i))"
    and "length (file_of d (seg_name i)) < 2 ^ 32"
proof -
  from seg_holds_file [OF assms] obtain t k where
    fl: "file_of d (seg_name i) = superblock i t @ needles_bytes xxh64 (xs @ n # ys) @ replicate k 0"
    and lim: "SUPERBLOCK_SIZE + length (needles_bytes xxh64 (xs @ n # ys)) + k < 2 ^ 32" by blast
  have shift: "slice_of (seg_end xxh64 xs + a) b (file_of d (seg_name i))
      = slice_of a b (needle_bytes xxh64 n @ needles_bytes xxh64 ys @ replicate k 0)" for a b
    by (simp add: fl seg_end_def slice_of_def)
  show "slice_of (seg_end xxh64 xs + nv_data_offset (view_of n)) (length (n_data n)) (file_of d (seg_name i)) = n_data n"
    "slice_of (seg_end xxh64 xs + nv_meta_offset (view_of n)) (length (n_meta_bytes n)) (file_of d (seg_name i)) = n_meta_bytes n"
    unfolding shift using needle_slices(4,5) [of n xxh64 "needles_bytes xxh64 ys @ replicate k 0"]
    by (simp_all add: view_of_def Let_def add.assoc)
  show "seg_end xxh64 xs + nv_data_offset (view_of n) + length (n_data n) \<le> seg_end xxh64 (xs @ n # ys)"
    "seg_end xxh64 xs + nv_meta_offset (view_of n) + length (n_meta_bytes n) \<le> seg_end xxh64 (xs @ n # ys)"
    by (simp_all add: seg_end_def view_of_def Let_def serialized_size_def)
  show "seg_end xxh64 (xs @ n # ys) \<le> length (file_of d (seg_name i))" "length (file_of d (seg_name i)) < 2 ^ 32"
    using lim by (simp_all add: fl seg_end_def)
qed

lemma sealed_open_holds:
  assumes "seg_holds xxh64 i ns d"
  shows "sealed_open xxh64 (seg_name i) d = Inr \<lparr> ss_segment_id = i, ss_path = seg_name i, ss_size = seg_end xxh64 ns \<rparr>"
    and "segment_scan xxh64 \<lparr> ss_segment_id = i, ss_path = seg_name i, ss_size = seg_end xxh64 ns \<rparr> d
      = views_from SUPERBLOCK_SIZE ns"
proof -
  from assms obtain t k where fl: "file_of d (seg_name i) = superblock i t @ needles_bytes xxh64 ns @ replicate k 0"
    and fits: "list_all needle_fits ns"
    using seg_holds_file [OF assms] by (auto simp: seg_holds_def)
  have magic: "slice_of 0 4 (file_of d (seg_name i)) = SEGMENT_MAGIC"
    and "slice_of 8 4 (file_of d (seg_name i)) = to_le 4 (unat i)"
    by (simp_all add: fl superblock_def SEGMENT_MAGIC_def slice_of_def)
  moreover have "unat i < 256 ^ 4" using unsigned_less [of i, where ?'a = nat] by simp
  ultimately have id: "word_of_nat (from_le (slice_of 8 4 (file_of d (seg_name i)))) = i"
    by (simp add: from_le_to_le)
  have "scan_end xxh64 (file_of d (seg_name i)) SUPERBLOCK_SIZE = seg_end xxh64 ns"
    using scan_end_needles [OF fits stops_zeros, of xxh64 "superblock i t" k] by (simp add: fl seg_end_def)
  with magic id show "sealed_open xxh64 (seg_name i) d = Inr \<lparr> ss_segment_id = i, ss_path = seg_name i, ss_size = seg_end xxh64 ns \<rparr>"
    by (simp add: sealed_open_def Let_def) (simp add: fl)
  show "segment_scan xxh64 \<lparr> ss_segment_id = i, ss_path = seg_name i, ss_size = seg_end xxh64 ns \<rparr> d = views_from SUPERBLOCK_SIZE ns"
    using scan_from_needles [OF fits, of _ "superblock i t" xxh64 "replicate k 0"]
    by (simp add: segment_scan_def fl seg_end_def)
qed

section \<open>What is written is found again\<close>

text \<open>Appending a list of needles; a needle that does not fit in the segment is left out.\<close>

fun append_all :: "(bytes \<Rightarrow> u64) \<Rightarrow> needle list \<Rightarrow> active_segment \<times> seg_dir \<Rightarrow> needle list \<times> active_segment \<times> seg_dir" where
  "append_all xxh64 [] sd = ([], sd)"
| "append_all xxh64 (n # ns) sd = (case segment_append xxh64 n sd of
      (None, sd') \<Rightarrow> append_all xxh64 ns sd'
    | (Some loc, sd') \<Rightarrow> (case append_all xxh64 ns sd' of (done, sd'') \<Rightarrow> (n # done, sd'')))"

lemma append_all_holds:
  assumes "active_holds xxh64 ms seg d" and "list_all needle_fits ns" and "append_all xxh64 ns (seg, d) = (added, seg', d')"
  shows "active_holds xxh64 (ms @ added) seg' d' \<and> as_segment_id seg' = as_segment_id seg"
  using assms
proof (induction ns arbitrary: ms seg d added)
  case (Cons n ns)
  obtain r seg1 d1 where a: "segment_append xxh64 n (seg, d) = (r, seg1, d1)" by (metis prod_cases3)
  show ?case
  proof (cases r)
    case None
    then have "seg1 = seg" "d1 = d" using a segment_append_full by blast+
    then show ?thesis using Cons a None by simp
  next
    case (Some loc)
    note f = segment_append_room [OF Cons.prems(1) _ a [unfolded Some]]
    obtain added' where b: "append_all xxh64 ns (seg1, d1) = (added', seg', d')" "added = n # added'"
      using Cons.prems(3) a Some by (auto split: prod.splits)
    show ?thesis using Cons.IH [OF f(1) _ b(1)] Cons.prems(2) b(2) f(2) by simp
  qed
qed simp

text \<open>C20: needles appended to a fresh segment are all found, in order and with their names, metadata
  and data, when the file is opened again and scanned; what did not fit is not there.\<close>

theorem segment_recovers:
  assumes "map_of d (seg_name i) = None" and "SUPERBLOCK_SIZE \<le> cap" and "cap < 2 ^ 32" and "list_all needle_fits ns"
    and "append_all xxh64 ns (segment_create now i cap d) = (added, seg, d')"
  shows "\<exists>ss. sealed_open xxh64 (seg_name i) d' = Inr ss \<and> ss = segment_seal seg
    \<and> map (\<lambda>(v, off). (nv_bucket v, nv_key v, nv_version_id v, sealed_slice ss d' (nv_meta_offset v) (nv_meta_len v),
          sealed_slice ss d' (nv_data_offset v) (nv_data_len v))) (segment_scan xxh64 ss d')
      = map (\<lambda>n. (n_bucket n, n_key n, n_version_id n, Some (n_meta_bytes n), Some (n_data n))) added"
proof -
  obtain seg0 d0 where c: "segment_create now i cap d = (seg0, d0)" by fastforce
  note f = segment_create_fresh [OF assms(1-3) c]
  have a: "active_holds xxh64 added seg d'" "as_segment_id seg = i"
    using append_all_holds [OF f(1) assms(4), where added = added and seg' = seg and d' = d'] assms(5) c f(2) by simp_all
  then have h: "seg_holds xxh64 i added d'" by (simp add: active_holds_def)
  let ?ss = "\<lparr> ss_segment_id = i, ss_path = seg_name i, ss_size = seg_end xxh64 added \<rparr>"
  note so = sealed_open_holds [OF h]
  have ss: "?ss = segment_seal seg" using a by (simp add: segment_seal_def active_holds_def)
  have "map (\<lambda>(v, off). (nv_bucket v, nv_key v, nv_version_id v, sealed_slice ?ss d' (nv_meta_offset v) (nv_meta_len v),
          sealed_slice ?ss d' (nv_data_offset v) (nv_data_len v))) (views_from (seg_end xxh64 xs) ys)
      = map (\<lambda>n. (n_bucket n, n_key n, n_version_id n, Some (n_meta_bytes n), Some (n_data n))) ys"
    if "seg_holds xxh64 i (xs @ ys) d'" for xs ys
    using that
  proof (induction ys arbitrary: xs)
    case (Cons n ys)
    have "seg_end xxh64 xs + serialized_size n = seg_end xxh64 (xs @ [n])" by (simp add: seg_end_def)
    moreover have "seg_holds xxh64 i ((xs @ [n]) @ ys) d'" using Cons.prems by simp
    note Cons.IH [OF this]
    moreover note seg_holds_slices [OF Cons.prems]
    ultimately show ?case by (simp add: view_at_def view_of_def Let_def sealed_slice_def)
  qed simp
  from this [of "[]" added] show ?thesis using so ss h by (intro exI [of _ ?ss]) (simp add: seg_end_def)
qed

theorem segment_recovers_witness:
  "\<exists>ss. sealed_open (\<lambda>_. 0) (seg_name 1) (snd (snd (append_all (\<lambda>_. 0) [tombstone ''b'' ''k''] (segment_create 0 1 100 [])))) = Inr ss"
proof -
  obtain added seg d' where a: "append_all (\<lambda>_. 0) [tombstone ''b'' ''k''] (segment_create 0 1 100 []) = (added, seg, d')"
    by (metis prod_cases3)
  have "list_all needle_fits [tombstone ''b'' ''k'']"
    using rust_str_ascii [of "''b''"] rust_str_ascii [of "''k''"]
    by (simp add: needle_fits_def tombstone_def tombstone_versioned_def)
  from segment_recovers [OF _ _ _ this a] show ?thesis using a by (auto simp: SUPERBLOCK_SIZE_def)
qed

end
