(* ===== verification/Pathing.thy ===== *)
theory Pathing
  imports Prelude
begin

text \<open>
  Names and paths of the file tier (\<open>src/storage/pathing.rs\<close>): the checks on bucket
  names, object keys, version and upload ids, and the paths built from them.  A path is the
  list of its components as \<open>Path::components\<close> yields them; the separator is the slash.
  Parsing a UUID is the work of a library and a parameter.
\<close>

section \<open>Paths\<close>

datatype component = RootDir | CurDir | ParentDir | NormalComp string

type_synonym path = "component list"

text \<open>\<open>PathBuf::push\<close> of a text without a separator.\<close>

definition comp_of :: "string \<Rightarrow> component list" where
  "comp_of part = (if part = [] then [] else if part = ''.'' then [CurDir]
     else if part = ''..'' then [ParentDir] else [NormalComp part])"

definition push :: "path \<Rightarrow> string \<Rightarrow> path" where
  "push p part = p @ comp_of part"

definition pop :: "path \<Rightarrow> path" where
  "pop p = (if p = [] \<or> p = [RootDir] then p else butlast p)"

definition norm_step :: "component \<Rightarrow> path \<Rightarrow> path" where
  "norm_step c normalized = (case c of
      CurDir \<Rightarrow> normalized
    | ParentDir \<Rightarrow> pop normalized
    | NormalComp s \<Rightarrow> normalized @ [NormalComp s]
    | RootDir \<Rightarrow> [RootDir])"

definition normalize_path :: "path \<Rightarrow> path" where
  "normalize_path p = fold norm_step p []"

datatype path_error = InvalidBucketName string | InvalidObjectKey string
  | InvalidVersionId string | InvalidUploadId string | OutsideRoot

definition safe_join :: "path \<Rightarrow> string list \<Rightarrow> path_error + path" where
  "safe_join root parts =
     (let candidate = fold (\<lambda>part c. push c part) parts root;
          normalized = normalize_path candidate;
          normalized_root = normalize_path root
      in if take (length normalized_root) normalized = normalized_root then Inr normalized else Inl OutsideRoot)"

section \<open>Checks on names\<close>

definition MAX_KEY_LEN :: nat where
  "MAX_KEY_LEN = 1024"

definition WINDOWS_FORBIDDEN :: "char list" where
  "WINDOWS_FORBIDDEN = [CHR '':'', CHR ''*'', CHR ''?'', CHR 0x22, CHR ''|'', CHR ''<'', CHR ''>'', CHR 0x5C]"

definition is_digit :: "char \<Rightarrow> bool" where
  "is_digit c = (48 \<le> (of_char c :: nat) \<and> (of_char c :: nat) \<le> 57)"

definition is_lower :: "char \<Rightarrow> bool" where
  "is_lower c = (97 \<le> (of_char c :: nat) \<and> (of_char c :: nat) \<le> 122)"

text \<open>\<open>Ipv4Addr::from_str\<close>: four decimal octets without leading zeros.\<close>

definition is_octet :: "string \<Rightarrow> bool" where
  "is_octet s \<longleftrightarrow> s \<noteq> [] \<and> length s \<le> 3 \<and> list_all is_digit s \<and> (length s > 1 \<longrightarrow> hd s \<noteq> CHR ''0'')
     \<and> (case parse_digits s 0 of Some n \<Rightarrow> n \<le> 255 | None \<Rightarrow> False)"

definition is_ipv4 :: "string \<Rightarrow> bool" where
  "is_ipv4 s \<longleftrightarrow> length (split_on (CHR ''.'') s) = 4 \<and> list_all is_octet (split_on (CHR ''.'') s)"

definition validate_bucket_name :: "string \<Rightarrow> path_error + unit" where
  "validate_bucket_name bucket0 =
     (let bucket = trim bucket0 in
      if bucket = [] \<or> length bucket > 63 then Inl (InvalidBucketName bucket)
      else if bucket = ''abixio'' then Inl (InvalidBucketName bucket)
      else if is_ipv4 bucket then Inl (InvalidBucketName bucket)
      else if contains_str ''..'' bucket \<or> contains_str ''.-'' bucket \<or> contains_str ''-.'' bucket
        then Inl (InvalidBucketName bucket)
      else if \<not> list_all (\<lambda>c. is_lower c \<or> is_digit c \<or> c = CHR ''.'' \<or> c = CHR ''-'') bucket
        then Inl (InvalidBucketName bucket)
      else if \<not> (is_lower (hd bucket) \<or> is_digit (hd bucket)) \<or> \<not> (is_lower (last bucket) \<or> is_digit (last bucket))
        then Inl (InvalidBucketName bucket)
      else Inr ())"

definition bad_segment :: "string \<Rightarrow> bool" where
  "bad_segment segment \<longleftrightarrow> segment = [] \<or> trim segment \<noteq> segment \<or> segment = ''.'' \<or> segment = ''..''
     \<or> list_ex (\<lambda>c. c \<in> set WINDOWS_FORBIDDEN) segment"

definition validate_key_segments :: "string \<Rightarrow> path_error + unit" where
  "validate_key_segments key =
     (if list_ex bad_segment (split_on (CHR ''/'') key) then Inl (InvalidObjectKey key) else Inr ())"

definition validate_object_key :: "string \<Rightarrow> path_error + unit" where
  "validate_object_key key =
     (if key = [] \<or> length key > MAX_KEY_LEN then Inl (InvalidObjectKey key)
      else if hd key = CHR ''/'' \<or> CHR 0x00 \<in> set key \<or> contains_str ''//'' key then Inl (InvalidObjectKey key)
      else validate_key_segments key)"

definition trim_end_slashes :: "string \<Rightarrow> string" where
  "trim_end_slashes s = rev (dropWhile (\<lambda>c. c = CHR ''/'') (rev s))"

definition validate_object_prefix :: "string \<Rightarrow> path_error + unit" where
  "validate_object_prefix prefix =
     (if prefix = [] then Inr ()
      else if length prefix > MAX_KEY_LEN \<or> hd prefix = CHR ''/'' \<or> CHR 0x00 \<in> set prefix \<or> contains_str ''//'' prefix
        then Inl (InvalidObjectKey prefix)
      else let trimmed = trim_end_slashes prefix in
        if trimmed = [] then Inr () else validate_key_segments trimmed)"

definition validate_version_id :: "(string \<Rightarrow> bool) \<Rightarrow> string \<Rightarrow> path_error + unit" where
  "validate_version_id is_uuid version_id =
     (if \<not> is_uuid version_id then Inl (InvalidVersionId version_id) else Inr ())"

definition validate_upload_id :: "(string \<Rightarrow> bool) \<Rightarrow> string \<Rightarrow> path_error + unit" where
  "validate_upload_id is_uuid upload_id =
     (if \<not> is_uuid upload_id then Inl (InvalidUploadId upload_id) else Inr ())"

section \<open>Paths of buckets, objects and versions\<close>

definition bucket_dir :: "path \<Rightarrow> string \<Rightarrow> path_error + path" where
  "bucket_dir root bucket = res_bind (validate_bucket_name bucket) (\<lambda>_. safe_join root [bucket])"

definition object_dir :: "path \<Rightarrow> string \<Rightarrow> string \<Rightarrow> path_error + path" where
  "object_dir root bucket key = res_bind (validate_bucket_name bucket) (\<lambda>_.
     res_bind (validate_object_key key) (\<lambda>_. safe_join root (bucket # split_on (CHR ''/'') key)))"

definition object_meta_path :: "path \<Rightarrow> string \<Rightarrow> string \<Rightarrow> path_error + path" where
  "object_meta_path root bucket key = res_bind (object_dir root bucket key) (\<lambda>d. Inr (push d ''meta.json''))"

definition object_shard_path :: "path \<Rightarrow> string \<Rightarrow> string \<Rightarrow> path_error + path" where
  "object_shard_path root bucket key = res_bind (object_dir root bucket key) (\<lambda>d. Inr (push d ''shard.dat''))"

definition version_dir :: "(string \<Rightarrow> bool) \<Rightarrow> path \<Rightarrow> string \<Rightarrow> string \<Rightarrow> string \<Rightarrow> path_error + path" where
  "version_dir is_uuid root bucket key version_id = res_bind (validate_version_id is_uuid version_id) (\<lambda>_.
     res_bind (object_dir root bucket key) (\<lambda>d. Inr (push d version_id)))"

definition version_shard_path :: "(string \<Rightarrow> bool) \<Rightarrow> path \<Rightarrow> string \<Rightarrow> string \<Rightarrow> string \<Rightarrow> path_error + path" where
  "version_shard_path is_uuid root bucket key version_id =
     res_bind (version_dir is_uuid root bucket key version_id) (\<lambda>d. Inr (push d ''shard.dat''))"

definition bucket_settings_dir :: "path \<Rightarrow> string \<Rightarrow> path_error + path" where
  "bucket_settings_dir root bucket = res_bind (validate_bucket_name bucket) (\<lambda>_.
     safe_join root [''.abixio.sys'', ''buckets'', bucket])"

definition bucket_settings_path :: "path \<Rightarrow> string \<Rightarrow> path_error + path" where
  "bucket_settings_path root bucket = res_bind (bucket_settings_dir root bucket) (\<lambda>d. Inr (push d ''settings.json''))"

definition multipart_bucket_dir :: "path \<Rightarrow> string \<Rightarrow> path_error + path" where
  "multipart_bucket_dir root bucket = res_bind (validate_bucket_name bucket) (\<lambda>_.
     safe_join root [''.abixio.sys'', ''multipart'', bucket])"

definition multipart_upload_dir :: "(string \<Rightarrow> bool) \<Rightarrow> path \<Rightarrow> string \<Rightarrow> string \<Rightarrow> string \<Rightarrow> path_error + path" where
  "multipart_upload_dir is_uuid root bucket key upload_id = res_bind (validate_bucket_name bucket) (\<lambda>_.
     res_bind (validate_object_key key) (\<lambda>_. res_bind (validate_upload_id is_uuid upload_id) (\<lambda>_.
       safe_join root ([''.abixio.sys'', ''multipart'', bucket] @ split_on (CHR ''/'') key @ [upload_id]))))"

section \<open>Accepted names stay below the root\<close>

lemma norm_step_normals: "fold norm_step (map NormalComp ps) p = p @ map NormalComp ps"
  by (induction ps arbitrary: p) (simp_all add: norm_step_def)

definition plain :: "string \<Rightarrow> bool" where
  "plain part \<longleftrightarrow> part \<noteq> [] \<and> part \<noteq> ''.'' \<and> part \<noteq> ''..''"

lemma push_plain: "plain part \<Longrightarrow> push p part = p @ [NormalComp part]"
  by (simp add: push_def comp_of_def plain_def)

lemma fold_push_plain: "list_all plain parts \<Longrightarrow> fold (\<lambda>part c. push c part) parts root = root @ map NormalComp parts"
  by (induction parts arbitrary: root) (simp_all add: push_plain)

lemma safe_join_plain: "list_all plain parts \<Longrightarrow> safe_join root parts = Inr (normalize_path root @ map NormalComp parts)"
  by (simp add: safe_join_def fold_push_plain normalize_path_def norm_step_normals)

lemma valid_key_plain:
  assumes "validate_object_key key = Inr ()"
  shows "list_all plain (split_on (CHR ''/'') key)"
  using assms
  by (auto simp: validate_object_key_def validate_key_segments_def bad_segment_def plain_def list_ex_iff list_all_iff
      split: if_splits)

lemma trim_start_suffix: "\<exists>pre. s = pre @ trim_start s"
proof (induction s rule: trim_start.induct)
  case (1 s)
  show ?case
  proof (cases "find (\<lambda>w. take (length w) s = w) white_space")
    case (Some w)
    show ?thesis
    proof (cases "s = []")
      case False
      obtain pre where "drop (length w) s = pre @ trim_start (drop (length w) s)" using 1 Some False by blast
      then have "s = (take (length w) s @ pre) @ trim_start (drop (length w) s)"
        by (metis append.assoc append_take_drop_id)
      moreover have "trim_start s = trim_start (drop (length w) s)"
        using Some False by (simp add: trim_start.simps [of s])
      ultimately show ?thesis by metis
    qed (simp add: trim_start.simps split: option.split)
  qed (simp add: trim_start.simps)
qed

lemma trim_end_prefix: "\<exists>post. s = trim_end s @ post"
proof (induction s rule: trim_end.induct)
  case (1 s)
  let ?f = "find (\<lambda>w. length w \<le> length s \<and> drop (length s - length w) s = w) white_space"
  show ?case
  proof (cases ?f)
    case (Some w)
    show ?thesis
    proof (cases "s = []")
      case False
      obtain post where "take (length s - length w) s = trim_end (take (length s - length w) s) @ post"
        using 1 Some False by blast
      then have "s = trim_end (take (length s - length w) s) @ post @ drop (length s - length w) s"
        by (metis append.assoc append_take_drop_id)
      moreover have "trim_end s = trim_end (take (length s - length w) s)"
        using Some False by (simp add: trim_end.simps [of s])
      ultimately show ?thesis by metis
    qed (simp add: trim_end.simps split: option.split)
  qed (simp add: trim_end.simps)
qed

lemma trim_infix: "\<exists>pre post. s = pre @ trim s @ post"
  unfolding trim_def by (metis append.assoc trim_end_prefix trim_start_suffix)

lemma valid_bucket_plain:
  assumes "validate_bucket_name bucket = Inr ()"
  shows "plain bucket"
proof -
  from assms have ne: "trim bucket \<noteq> []" and hd: "is_lower (hd (trim bucket)) \<or> is_digit (hd (trim bucket))"
    by (auto simp: validate_bucket_name_def Let_def split: if_splits)
  obtain pre post where b: "bucket = pre @ trim bucket @ post" using trim_infix by blast
  have "hd (trim bucket) \<in> set bucket" using ne by (subst b) simp
  moreover have "\<not> (is_lower (CHR ''.'') \<or> is_digit (CHR ''.''))" by (simp add: is_lower_def is_digit_def)
  ultimately have "bucket \<noteq> ''.''" "bucket \<noteq> ''..''" "bucket \<noteq> []" using hd by auto
  then show ?thesis by (simp add: plain_def)
qed

lemma object_dir_eq:
  "object_dir root b k = (case validate_bucket_name b of Inl e \<Rightarrow> Inl e | Inr _ \<Rightarrow>
     (case validate_object_key k of Inl e \<Rightarrow> Inl e | Inr _ \<Rightarrow>
        Inr (normalize_path root @ NormalComp b # map NormalComp (split_on (CHR ''/'') k))))"
  using valid_bucket_plain [of b] valid_key_plain [of k]
  by (auto simp: object_dir_def safe_join_plain split: sum.splits)

lemma object_dir_InrD:
  assumes "object_dir root b k = Inr d"
  shows "d = normalize_path root @ NormalComp b # map NormalComp (split_on (CHR ''/'') k)"
    and "list_all plain (b # split_on (CHR ''/'') k)"
  using assms valid_bucket_plain [of b] valid_key_plain [of k] by (auto simp: object_dir_eq split: sum.splits)

lemma map_NormalComp_eq [simp]: "map NormalComp xs = map NormalComp ys \<longleftrightarrow> xs = ys"
  by (rule inj_map_eq_map) (simp add: inj_def)

lemma object_dir_inj: "object_dir root b k = Inr d \<Longrightarrow> object_dir root b' k' = Inr d \<Longrightarrow> b = b' \<and> k = k'"
  by (auto dest!: object_dir_InrD(1) dest: split_on_inj)

text \<open>C30: for every bucket name and object key that pass the checks, the shard of the object
  lies below the root: the path is the normalized root followed by plain names only, with no
  parent or current directory step, and a rejected name never yields a path.\<close>

theorem object_path_confined:
  "case object_shard_path root b k of
     Inl e \<Rightarrow> \<not> (validate_bucket_name b = Inr () \<and> validate_object_key k = Inr ())
   | Inr p \<Rightarrow> \<exists>names. p = normalize_path root @ map NormalComp names \<and> list_all plain names
              \<and> names = b # split_on (CHR ''/'') k @ [''shard.dat'']"
proof (cases "object_dir root b k")
  case (Inl e)
  then show ?thesis by (auto simp: object_shard_path_def object_dir_eq split: sum.splits)
next
  case (Inr d)
  note d = object_dir_InrD [OF Inr]
  have "push d ''shard.dat'' = d @ [NormalComp ''shard.dat'']" by (rule push_plain) (simp add: plain_def)
  then have "object_shard_path root b k = Inr (normalize_path root @ map NormalComp (b # split_on (CHR ''/'') k @ [''shard.dat'']))"
    using Inr d(1) by (simp add: object_shard_path_def)
  moreover have "list_all plain (b # split_on (CHR ''/'') k @ [''shard.dat''])" using d(2) by (simp add: plain_def)
  ultimately show ?thesis by simp
qed


lemmas name_checks = validate_bucket_name_def validate_object_key_def validate_key_segments_def bad_segment_def
  trim_visible is_ipv4_def is_lower_def is_digit_def contains_str_def WINDOWS_FORBIDDEN_def MAX_KEY_LEN_def ex_le_Suc_iff

lemma sample_names:
  "validate_bucket_name ''bk'' = Inr ()" "validate_object_key ''k'' = Inr ()" "validate_object_key ''k/v'' = Inr ()"
  by (simp_all add: name_checks)


text \<open>The shard of a version of an object and the shard of the object whose key is the
  first key, a slash and the version id are the same file, so writing one overwrites the
  other: the file tier does not keep versions apart from keys.\<close>

theorem version_path_collides:
  assumes "is_uuid v" and "plain v" and "CHR ''/'' \<notin> set v"
    and "validate_bucket_name b = Inr ()" and "validate_object_key k = Inr ()"
    and "validate_object_key (k @ ''/'' @ v) = Inr ()"
  shows "\<exists>p. version_shard_path is_uuid root b k v = Inr p \<and> object_shard_path root b (k @ ''/'' @ v) = Inr p"
  using assms split_on_append_sep [of "CHR ''/''" k v] split_on_no_sep [of "CHR ''/''" v]
  by (simp add: version_shard_path_def version_dir_def validate_version_id_def object_shard_path_def object_dir_eq push_plain)

theorem version_path_collides_witness:
  "\<exists>p. version_shard_path (\<lambda>v. v = ''v'') [RootDir] ''bk'' ''k'' ''v'' = Inr p \<and> object_shard_path [RootDir] ''bk'' ''k/v'' = Inr p"
  using version_path_collides [of "\<lambda>v. v = ''v''" "''v''" "''bk''" "''k''" "[RootDir]"]
  by (simp add: sample_names plain_def)

text \<open>The check of a bucket name looks at the trimmed name only, while the directory is
  made from the name as given: a name with spaces around it is accepted and names a different
  bucket.\<close>

theorem bucket_name_not_trimmed:
  "validate_bucket_name '' bk'' = Inr () \<and> bucket_dir [RootDir] '' bk'' \<noteq> bucket_dir [RootDir] ''bk''"
proof -
  have "find (\<lambda>w. take (length w) '' bk'' = w) white_space = Some '' ''"
    by (simp add: white_space_def)
  then have "trim_start '' bk'' = trim_start ''bk''" by (simp add: trim_start.simps [of "'' bk''"])
  then have t: "trim '' bk'' = ''bk''" using trim_visible [of "''bk''"] by (simp add: trim_def)
  then have v: "validate_bucket_name '' bk'' = Inr ()" using sample_names(1) trim_visible [of "''bk''"]
    by (simp add: validate_bucket_name_def)
  then show ?thesis
    by (simp add: bucket_dir_def sample_names safe_join_plain plain_def)
qed

end
