(* ===== verification/File_Tier.thy ===== *)
theory File_Tier
  imports Pathing Metadata "HOL-Library.AList"
begin

text \<open>
  The files below the root of a volume, as the storage code sees them through
  \<open>tokio::fs\<close>: a finite map from paths to the content of a file, or to nothing for a
  directory.  Writing to a directory or where there is no directory is an error, as is a
  directory below a file.  A write takes effect as a whole; that it can fail or be cut short
  by a crash is a step of the state machines that use these operations.  The serializers, the
  hash of the needles and the UUID parser are third-party code and the fields of the record
  \<open>env\<close>.  \<open>read_meta_file\<close> and \<open>write_meta_file\<close> are those of
  \<open>src/storage/metadata.rs\<close>; \<open>storage_error\<close> is \<open>StorageError\<close> of
  \<open>src/storage/mod.rs\<close>.
\<close>

section \<open>Errors and third-party code\<close>

datatype storage_error = BucketNotFound | ObjectNotFound | BucketExists | BucketNotEmpty
  | WriteQuorum | ReadQuorum | Bitrot | InvalidConfig string | Io string | NameError path_error | Internal string

definition lift_path :: "path_error + 'a \<Rightarrow> storage_error + 'a" where
  "lift_path r = (case r of Inl e \<Rightarrow> Inl (NameError e) | Inr x \<Rightarrow> Inr x)"

lemma lift_path_simps [simp]: "lift_path (Inr x) = Inr x" "lift_path (Inl e) = Inl (NameError e)"
  by (simp_all add: lift_path_def)

lemma lift_path_Inr_iff [simp]: "lift_path r = Inr x \<longleftrightarrow> r = Inr x"
  by (cases r) simp_all

record env =
  e_xxh64 :: "bytes \<Rightarrow> u64"
  e_meta_enc :: "object_meta \<Rightarrow> bytes"
  e_meta_dec :: "bytes \<Rightarrow> object_meta option"
  e_json_enc :: "object_meta_file \<Rightarrow> bytes"
  e_json_dec :: "bytes \<Rightarrow> object_meta_file option"
  e_settings_enc :: "bucket_settings \<Rightarrow> bytes"
  e_settings_dec :: "bytes \<Rightarrow> bucket_settings option"
  e_b64_enc :: "bytes \<Rightarrow> string"
  e_b64_dec :: "string \<Rightarrow> bytes option"
  e_is_uuid :: "string \<Rightarrow> bool"

section \<open>Files and directories\<close>

type_synonym files = "(path \<times> bytes option) list"

definition fs_read :: "files \<Rightarrow> path \<Rightarrow> bytes option" where
  "fs_read fs p = (case map_of fs p of Some (Some bs) \<Rightarrow> Some bs | _ \<Rightarrow> None)"

definition is_file :: "files \<Rightarrow> path \<Rightarrow> bool" where
  "is_file fs p = (fs_read fs p \<noteq> None)"

definition is_dir :: "files \<Rightarrow> path \<Rightarrow> bool" where
  "is_dir fs d = (map_of fs d = Some None)"

definition prefixes_of :: "path \<Rightarrow> path list" where
  "prefixes_of d = map (\<lambda>n. take n d) [1..<Suc (length d)]"

definition add_dir :: "path \<Rightarrow> files \<Rightarrow> files" where
  "add_dir d fs = (if map_of fs d = None then AList.update d None fs else fs)"

definition create_dir_all :: "path \<Rightarrow> files \<Rightarrow> (storage_error + unit) \<times> files" where
  "create_dir_all d fs = (if list_ex (is_file fs) (prefixes_of d) then (Inl (Io ''not a directory''), fs)
     else (Inr (), fold add_dir (prefixes_of d) fs))"

definition fs_write :: "path \<Rightarrow> bytes \<Rightarrow> files \<Rightarrow> (storage_error + unit) \<times> files" where
  "fs_write p bs fs = (if is_dir fs p then (Inl (Io ''is a directory''), fs)
     else if \<not> is_dir fs (butlast p) then (Inl (Io ''no such directory''), fs)
     else (Inr (), AList.update p (Some bs) fs))"

definition path_below :: "path \<Rightarrow> path \<Rightarrow> bool" where
  "path_below d p = (take (length d) p = d)"

definition remove_dir_all :: "path \<Rightarrow> files \<Rightarrow> files" where
  "remove_dir_all d fs = filter (\<lambda>(p, c). \<not> path_below d p) fs"

lemma fs_read_Nil [simp]: "fs_read [] p = None" "is_dir [] p = False" "is_file [] p = False"
  by (simp_all add: fs_read_def is_dir_def is_file_def)

lemma map_of_add_dir: "map_of (add_dir d fs) q = (if q = d \<and> map_of fs d = None then Some None else map_of fs q)"
  by (simp add: add_dir_def update_conv')

lemma map_of_add_dirs:
  "map_of (fold add_dir ds fs) q = (if q \<in> set ds \<and> map_of fs q = None then Some None else map_of fs q)"
  by (induction ds arbitrary: fs) (auto simp: map_of_add_dir)

lemma set_prefixes_of: "set (prefixes_of d) = {take n d | n. 1 \<le> n \<and> n \<le> length d}"
  unfolding prefixes_of_def by (auto simp: less_Suc_eq_le simp del: upt_Suc)

lemma create_dir_all_Inr:
  assumes "create_dir_all d fs = (Inr u, fs')"
  shows "fs_read fs' q = fs_read fs q" and "is_dir fs' q \<longleftrightarrow> is_dir fs q \<or> q \<in> set (prefixes_of d)"
proof -
  have fs': "fs' = fold add_dir (prefixes_of d) fs" and nf: "\<And>q. q \<in> set (prefixes_of d) \<Longrightarrow> \<not> is_file fs q"
    using assms by (auto simp: create_dir_all_def list_ex_iff split: if_splits)
  show "fs_read fs' q = fs_read fs q" by (simp add: fs_read_def fs' map_of_add_dirs)
  show "is_dir fs' q \<longleftrightarrow> is_dir fs q \<or> q \<in> set (prefixes_of d)"
    using nf [of q] by (auto simp: is_dir_def fs' map_of_add_dirs is_file_def fs_read_def split: option.splits)
qed

lemma create_dir_all_Inl: "create_dir_all d fs = (Inl e, fs') \<Longrightarrow> fs' = fs"
  by (simp add: create_dir_all_def split: if_splits)

lemma fs_write_Inr:
  assumes "fs_write p bs fs = (Inr u, fs')"
  shows "fs_read fs' q = (if q = p then Some bs else fs_read fs q)" and "is_dir fs' q = is_dir fs q"
  using assms by (auto simp: fs_write_def fs_read_def is_dir_def update_conv' split: if_splits)

lemma fs_write_Inl: "fs_write p bs fs = (Inl e, fs') \<Longrightarrow> fs' = fs"
  by (simp add: fs_write_def split: if_splits)

lemma fs_write_ok: "\<not> is_dir fs p \<Longrightarrow> is_dir fs (butlast p) \<Longrightarrow> \<exists>fs'. fs_write p bs fs = (Inr (), fs')"
  by (simp add: fs_write_def)

lemma map_of_remove_dir: "map_of (remove_dir_all d fs) q = (if path_below d q then None else map_of fs q)"
  unfolding remove_dir_all_def by (induction fs) auto

lemma fs_read_remove: "fs_read (remove_dir_all d fs) q = (if path_below d q then None else fs_read fs q)"
  by (simp add: fs_read_def map_of_remove_dir)

section \<open>Metadata files\<close>

definition read_meta_file :: "env \<Rightarrow> files \<Rightarrow> path \<Rightarrow> object_meta_file option" where
  "read_meta_file ev fs p = Option.bind (fs_read fs p) (e_json_dec ev)"

definition write_meta_file :: "env \<Rightarrow> path \<Rightarrow> object_meta_file \<Rightarrow> files \<Rightarrow> (storage_error + unit) \<times> files" where
  "write_meta_file ev p mf fs = fs_write p (e_json_enc ev mf) fs"

text \<open>The metadata of a fresh object with one version.\<close>

definition single_version :: "string \<Rightarrow> string \<Rightarrow> object_meta \<Rightarrow> object_meta_file" where
  "single_version bucket key meta =
     \<lparr> mf_bucket = bucket, mf_key = key, mf_versions = [meta\<lparr> om_is_latest := True \<rparr>] \<rparr>"

text \<open>The metadata on disk, or an empty one, with its identity filled in.\<close>

definition meta_or_empty :: "env \<Rightarrow> files \<Rightarrow> path \<Rightarrow> string \<Rightarrow> string \<Rightarrow> object_meta_file" where
  "meta_or_empty ev fs p bucket key =
     (let mf = (case read_meta_file ev fs p of Some mf \<Rightarrow> mf
                | None \<Rightarrow> \<lparr> mf_bucket = bucket, mf_key = key, mf_versions = [] \<rparr>);
          mf1 = (if mf_bucket mf = [] then mf\<lparr> mf_bucket := bucket \<rparr> else mf)
      in if mf_key mf1 = [] then mf1\<lparr> mf_key := key \<rparr> else mf1)"

text \<open>
  An unversioned object in the file tier: the directory, then \<open>shard.dat\<close> and
  \<open>meta.json\<close>.  The code starts the two writes together; here the shard comes first.
\<close>

definition write_object_files :: "env \<Rightarrow> path \<Rightarrow> bytes \<Rightarrow> object_meta_file \<Rightarrow> files \<Rightarrow> (storage_error + unit) \<times> files" where
  "write_object_files ev obj_dir data mf fs =
     then_do (create_dir_all obj_dir fs) (\<lambda>_ fs1.
       then_do (fs_write (push obj_dir ''shard.dat'') data fs1) (\<lambda>_ fs2.
         fs_write (push obj_dir ''meta.json'') (e_json_enc ev mf) fs2))"

section \<open>The files of one object\<close>

lemma object_paths:
  assumes "object_dir root b k = Inr d"
  shows "object_shard_path root b k = Inr (d @ [NormalComp ''shard.dat''])"
    and "object_meta_path root b k = Inr (d @ [NormalComp ''meta.json''])"
    and "push d ''shard.dat'' = d @ [NormalComp ''shard.dat'']"
    and "push d ''meta.json'' = d @ [NormalComp ''meta.json'']"
  using assms by (simp_all add: object_shard_path_def object_meta_path_def push_plain plain_def)

text \<open>
  A key has a name of its own in the file tier when none of its parts is the name of one of
  the two files: otherwise a directory of one object is a file of another.
\<close>

definition tier_safe :: "string \<Rightarrow> bool" where
  "tier_safe k = list_all (\<lambda>s. s \<noteq> ''shard.dat'' \<and> s \<noteq> ''meta.json'') (split_on (CHR ''/'') k)"

text \<open>No directory below the buckets has the name of an object file.\<close>

definition dirs_clean :: "path \<Rightarrow> files \<Rightarrow> bool" where
  "dirs_clean root fs \<longleftrightarrow> (\<forall>p. is_dir fs p \<longrightarrow> length (normalize_path root) + 2 \<le> length p
     \<longrightarrow> last p \<noteq> NormalComp ''shard.dat'' \<and> last p \<noteq> NormalComp ''meta.json'')"

lemma take_snoc_last: "n < length xs \<Longrightarrow> last (take (Suc n) xs) = xs ! n"
  by (simp add: take_Suc_conv_app_nth)

lemma object_dir_prefixes:
  assumes d: "object_dir root b k = Inr d" and ts: "tier_safe k" and p: "p \<in> set (prefixes_of d)"
    and len: "length (normalize_path root) + 2 \<le> length p"
  shows "last p \<noteq> NormalComp ''shard.dat'' \<and> last p \<noteq> NormalComp ''meta.json''"
proof -
  let ?r = "normalize_path root" and ?ss = "split_on (CHR ''/'') k"
  from p obtain n where n: "p = take n d" "1 \<le> n" "n \<le> length d" by (auto simp: set_prefixes_of)
  have dd: "d = ?r @ NormalComp b # map NormalComp ?ss" using object_dir_InrD(1) [OF d] .
  define j where "j = n - (length ?r + 2)"
  have nn: "n = length ?r + 2 + j" using len n by (simp add: j_def)
  then have jl: "j < length ?ss" using n(3) dd by simp
  have "last p = d ! (length ?r + 1 + j)"
    using take_snoc_last [of "length ?r + 1 + j" d] n(1,3) nn by simp
  also have "\<dots> = NormalComp (?ss ! j)" using jl by (simp add: dd nth_append)
  finally show ?thesis using ts jl by (auto simp: tier_safe_def list_all_length)
qed

text \<open>Operations never remove a directory, and create none with the name of an object file.\<close>

definition dirs_grow :: "path \<Rightarrow> files \<Rightarrow> files \<Rightarrow> bool" where
  "dirs_grow root fs fs' \<longleftrightarrow> dirs_clean root fs' \<and> (\<forall>q. is_dir fs q \<longrightarrow> is_dir fs' q)"

lemma dirs_grow_refl: "dirs_clean root fs \<Longrightarrow> dirs_grow root fs fs"
  by (simp add: dirs_grow_def)

lemma dirs_grow_write: "dirs_grow root fs fs1 \<Longrightarrow> fs_write p bs fs1 = (Inr u, fs2) \<Longrightarrow> dirs_grow root fs fs2"
  by (simp add: dirs_grow_def dirs_clean_def fs_write_Inr(2))

lemma create_object_dir:
  assumes d: "object_dir root b k = Inr d" and ts: "tier_safe k" and clean: "dirs_clean root fs"
    and c: "create_dir_all d fs = (Inr u, fs1)"
  shows "dirs_grow root fs fs1" and "is_dir fs1 d" and "fs_read fs1 q = fs_read fs q"
    and "\<not> is_dir fs1 (d @ [NormalComp ''shard.dat''])" and "\<not> is_dir fs1 (d @ [NormalComp ''meta.json''])"
proof -
  have ne: "d \<noteq> []" and len: "length (normalize_path root) + 2 \<le> length d"
    using object_dir_InrD(1) [OF d] by (simp_all add: Suc_leI)
  note c' = create_dir_all_Inr [OF c]
  show g: "dirs_grow root fs fs1"
    using clean c'(2) object_dir_prefixes [OF d ts] unfolding dirs_grow_def dirs_clean_def by blast
  show "is_dir fs1 d" using c'(2) [of d] ne by (auto simp: set_prefixes_of intro!: exI [of _ "length d"] Suc_leI)
  show "fs_read fs1 q = fs_read fs q" by (rule c')
  show "\<not> is_dir fs1 (d @ [NormalComp ''shard.dat''])" "\<not> is_dir fs1 (d @ [NormalComp ''meta.json''])"
    using g len by (auto simp: dirs_grow_def dirs_clean_def)
qed

text \<open>Writing an object either fails with no effect on files or writes both files.\<close>

lemma write_object_files_cases:
  assumes d: "object_dir root b k = Inr d" and ts: "tier_safe k" and clean: "dirs_clean root fs"
    and w: "write_object_files ev d data mf fs = (r, fs')"
  shows "dirs_grow root fs fs'
    \<and> (r = Inr () \<longrightarrow> is_dir fs' d \<and> (\<forall>q. fs_read fs' q = (if q = d @ [NormalComp ''meta.json''] then Some (e_json_enc ev mf)
           else if q = d @ [NormalComp ''shard.dat''] then Some data else fs_read fs q)))
    \<and> (r \<noteq> Inr () \<longrightarrow> (\<forall>q. fs_read fs' q = fs_read fs q))"
proof (cases "create_dir_all d fs")
  case (Pair r1 fs1)
  note pth = object_paths(3,4) [OF d]
  show ?thesis
  proof (cases r1)
    case (Inl e)
    then show ?thesis using w Pair create_dir_all_Inl [of d fs e fs1] dirs_grow_refl [OF clean]
      by (auto simp: write_object_files_def)
  next
    case (Inr u)
    note c = create_object_dir [OF d ts clean Pair [unfolded Inr]]
    obtain fs2 where w2: "fs_write (d @ [NormalComp ''shard.dat'']) data fs1 = (Inr (), fs2)"
      using fs_write_ok [OF c(4)] c(2) by auto
    note f2 = fs_write_Inr [OF w2]
    obtain fs3 where w3: "fs_write (d @ [NormalComp ''meta.json'']) (e_json_enc ev mf) fs2 = (Inr (), fs3)"
      using fs_write_ok [of fs2 "d @ [NormalComp ''meta.json'']"] c(2,5) f2(2) by auto
    note f3 = fs_write_Inr [OF w3]
    have "r = Inr ()" "fs' = fs3" using w Pair Inr w2 w3 pth by (simp_all add: write_object_files_def)
    moreover have "dirs_grow root fs fs3" using dirs_grow_write [OF dirs_grow_write [OF c(1) w2] w3] .
    ultimately show ?thesis using f2 f3 c(2,3) by auto
  qed
qed

lemma write_object_files_ok:
  assumes d: "object_dir root b k = Inr d" and ts: "tier_safe k" and clean: "dirs_clean root fs"
    and nf: "\<forall>p \<in> set (prefixes_of d). \<not> is_file fs p"
  shows "\<exists>fs'. write_object_files ev d data mf fs = (Inr (), fs')"
proof -
  obtain fs1 where c: "create_dir_all d fs = (Inr (), fs1)" using nf by (auto simp: create_dir_all_def list_ex_iff)
  note c' = create_object_dir [OF d ts clean c]
  obtain fs2 where w2: "fs_write (d @ [NormalComp ''shard.dat'']) data fs1 = (Inr (), fs2)"
    using fs_write_ok [OF c'(4)] c'(2) by auto
  obtain fs3 where w3: "fs_write (d @ [NormalComp ''meta.json'']) (e_json_enc ev mf) fs2 = (Inr (), fs3)"
    using fs_write_ok [of fs2 "d @ [NormalComp ''meta.json'']"] c'(2,5) fs_write_Inr(2) [OF w2] by auto
  show ?thesis using c w2 w3 object_paths(3,4) [OF d] by (simp add: write_object_files_def)
qed

text \<open>The same for an object kept inside its metadata.\<close>

lemma write_inline_cases:
  assumes d: "object_dir root b k = Inr d" and ts: "tier_safe k" and clean: "dirs_clean root fs"
    and w: "then_do (create_dir_all d fs) (\<lambda>_ fs. write_meta_file ev (push d ''meta.json'') mf fs) = (r, fs')"
  shows "dirs_grow root fs fs'
    \<and> (r = Inr () \<longrightarrow> is_dir fs' d \<and> (\<forall>q. fs_read fs' q = (if q = d @ [NormalComp ''meta.json''] then Some (e_json_enc ev mf)
           else fs_read fs q)))
    \<and> (r \<noteq> Inr () \<longrightarrow> (\<forall>q. fs_read fs' q = fs_read fs q))"
proof (cases "create_dir_all d fs")
  case (Pair r1 fs1)
  show ?thesis
  proof (cases r1)
    case (Inl e)
    then show ?thesis using w Pair create_dir_all_Inl [of d fs e fs1] dirs_grow_refl [OF clean] by auto
  next
    case (Inr u)
    note c = create_object_dir [OF d ts clean Pair [unfolded Inr]]
    obtain fs2 where w2: "fs_write (d @ [NormalComp ''meta.json'']) (e_json_enc ev mf) fs1 = (Inr (), fs2)"
      using fs_write_ok [OF c(5)] c(2) by auto
    have "r = Inr ()" "fs' = fs2" using w Pair Inr w2 object_paths(4) [OF d] by (simp_all add: write_meta_file_def)
    then show ?thesis using fs_write_Inr [OF w2] c(2,3) dirs_grow_write [OF c(1) w2] by auto
  qed
qed

end
