(* ===== verification/Wal.thy ===== *)
theory Wal
  imports Segment File_Tier
begin

text \<open>
  The write-ahead log of a volume (\<open>src/storage/wal.rs\<close>).  An append puts a needle in
  the active segment and an entry in the pending map; a worker later writes the object to the
  file tier, drops the entry and deletes segments that have none left.  After a restart the
  segments are scanned and what is not in the file tier becomes pending again.  The state is
  that of \<open>Wal\<close> with the segment directory; the pending map and the counts are
  association lists, whose order stands for the order a hash map happens to have.
\<close>

section \<open>State\<close>

type_synonym pending_key = "string \<times> string \<times> string"

record wal_entry =
  we_segment_id :: u32
  we_data_offset :: u32
  we_data_len :: u32
  we_meta_offset :: u32
  we_meta_len :: u16
  we_created_at :: u32

record materialize_request =
  mr_bucket :: string
  mr_key :: string
  mr_version_id :: string
  mr_entry :: wal_entry

record wal =
  w_dir :: seg_dir
  w_active :: active_segment
  w_sealed :: "sealed_segment list"
  w_pending :: "(pending_key \<times> wal_entry) list"
  w_counts :: "(u32 \<times> nat) list"
  w_next :: u32
  w_capacity :: nat

definition needle_key :: "needle \<Rightarrow> pending_key" where
  "needle_key n = (n_bucket n, n_key n, n_version_id n)"

definition count_of :: "wal \<Rightarrow> u32 \<Rightarrow> nat" where
  "count_of w i = (case map_of (w_counts w) i of Some c \<Rightarrow> c | None \<Rightarrow> 0)"

definition loc_to_entry :: "u32 \<Rightarrow> needle_location \<Rightarrow> wal_entry" where
  "loc_to_entry segment_id loc =
     \<lparr> we_segment_id = segment_id, we_data_offset = nl_data_offset loc, we_data_len = nl_data_len loc,
       we_meta_offset = nl_meta_offset loc, we_meta_len = nl_meta_len loc, we_created_at = nl_created_at loc \<rparr>"

section \<open>Operations\<close>

definition add_pending :: "pending_key \<Rightarrow> wal_entry \<Rightarrow> wal \<Rightarrow> wal" where
  "add_pending k e w = w\<lparr> w_pending := AList.update k e (w_pending w),
     w_counts := AList.update (we_segment_id e) (count_of w (we_segment_id e) + 1) (w_counts w) \<rparr>"

definition rotate_active :: "u64 \<Rightarrow> wal \<Rightarrow> wal" where
  "rotate_active now w =
     (let (spare, d0) = segment_create now 0 (w_capacity w) (w_dir w);
          sealed = segment_seal (w_active w);
          seg_id = w_next w;
          (act, d1) = segment_create now seg_id (w_capacity w) d0
      in w\<lparr> w_dir := d1, w_active := act, w_sealed := w_sealed w @ [sealed], w_next := seg_id + 1 \<rparr>)"

definition try_append :: "env \<Rightarrow> needle \<Rightarrow> wal \<Rightarrow> wal_entry option \<times> wal" where
  "try_append ev n w = (case segment_append (e_xxh64 ev) n (w_active w, w_dir w) of
      (Some loc, act, d) \<Rightarrow>
        (let entry = loc_to_entry (as_segment_id act) loc
         in (Some entry, add_pending (needle_key n) entry (w\<lparr> w_active := act, w_dir := d \<rparr>)))
    | (None, act, d) \<Rightarrow> (None, w\<lparr> w_active := act, w_dir := d \<rparr>))"

definition wal_append :: "env \<Rightarrow> u64 \<Rightarrow> needle \<Rightarrow> wal \<Rightarrow> (storage_error + wal_entry) \<times> wal" where
  "wal_append ev now n w = (case try_append ev n w of
      (Some entry, w1) \<Rightarrow> (Inr entry, w1)
    | (None, w1) \<Rightarrow> (case try_append ev n (rotate_active now w1) of
          (Some entry, w2) \<Rightarrow> (Inr entry, w2)
        | (None, w2) \<Rightarrow> (Inl (Internal ''needle too large for WAL segment''), w2)))"

definition get_versioned :: "wal \<Rightarrow> string \<Rightarrow> string \<Rightarrow> string \<Rightarrow> wal_entry option" where
  "get_versioned w bucket key version_id = map_of (w_pending w) (bucket, key, version_id)"

definition contains_versioned :: "wal \<Rightarrow> string \<Rightarrow> string \<Rightarrow> string \<Rightarrow> bool" where
  "contains_versioned w bucket key version_id = (get_versioned w bucket key version_id \<noteq> None)"

definition versions_for :: "wal \<Rightarrow> string \<Rightarrow> string \<Rightarrow> string list" where
  "versions_for w bucket key = map (\<lambda>((b, k, v), e). v) (filter (\<lambda>((b, k, v), e). b = bucket \<and> k = key) (w_pending w))"

text \<open>\<open>read_data\<close> and \<open>read_meta_bytes\<close> share the search for the segment.\<close>

definition read_segment :: "wal \<Rightarrow> u32 \<Rightarrow> nat \<Rightarrow> nat \<Rightarrow> bytes option" where
  "read_segment w i off len =
     (if i = as_segment_id (w_active w)
      then (case active_read_at (w_active w) (w_dir w) off len of Inr bs \<Rightarrow> Some bs | Inl _ \<Rightarrow> None)
      else (case find (\<lambda>s. ss_segment_id s = i) (w_sealed w) of
              Some seg \<Rightarrow> sealed_slice seg (w_dir w) off len
            | None \<Rightarrow> None))"

definition read_data :: "wal \<Rightarrow> wal_entry \<Rightarrow> bytes option" where
  "read_data w e = read_segment w (we_segment_id e) (unat (we_data_offset e)) (unat (we_data_len e))"

definition read_meta_bytes :: "wal \<Rightarrow> wal_entry \<Rightarrow> bytes option" where
  "read_meta_bytes w e = read_segment w (we_segment_id e) (unat (we_meta_offset e)) (unat (we_meta_len e))"

definition decode_meta :: "env \<Rightarrow> bytes \<Rightarrow> storage_error + object_meta" where
  "decode_meta ev bs = (case e_meta_dec ev bs of Some m \<Rightarrow> Inr m | None \<Rightarrow> Inl (Internal ''msgpack decode meta''))"

definition read_meta :: "env \<Rightarrow> wal \<Rightarrow> wal_entry \<Rightarrow> storage_error + object_meta" where
  "read_meta ev w e = (case read_meta_bytes w e of None \<Rightarrow> Inl ObjectNotFound | Some bs \<Rightarrow> decode_meta ev bs)"

definition try_delete_segment :: "u32 \<Rightarrow> wal \<Rightarrow> wal" where
  "try_delete_segment i w =
     (if i = as_segment_id (w_active w) then w
      else (case find (\<lambda>s. ss_segment_id s = i) (w_sealed w) of
              None \<Rightarrow> w
            | Some seg \<Rightarrow> w\<lparr> w_sealed := remove1 seg (w_sealed w),
                              w_dir := filter (\<lambda>(name, bs). name \<noteq> ss_path seg) (w_dir w) \<rparr>))"

definition mark_materialized_versioned :: "string \<Rightarrow> string \<Rightarrow> string \<Rightarrow> wal \<Rightarrow> wal" where
  "mark_materialized_versioned bucket key version_id w =
     (case map_of (w_pending w) (bucket, key, version_id) of
        None \<Rightarrow> w
      | Some entry \<Rightarrow>
          (let w1 = w\<lparr> w_pending := AList.delete (bucket, key, version_id) (w_pending w) \<rparr>;
               i = we_segment_id entry
           in case map_of (w_counts w1) i of
                None \<Rightarrow> w1
              | Some count \<Rightarrow>
                  if count - 1 = 0
                  then try_delete_segment i (w1\<lparr> w_counts := AList.delete i (w_counts w1) \<rparr>)
                  else w1\<lparr> w_counts := AList.update i (count - 1) (w_counts w1) \<rparr>))"

definition wal_list_keys :: "wal \<Rightarrow> string \<Rightarrow> string \<Rightarrow> string list" where
  "wal_list_keys w bucket prefix = rev (remdups (rev (map (\<lambda>((b, k, v), e). k)
     (filter (\<lambda>((b, k, v), e). b = bucket \<and> take (length prefix) k = prefix) (w_pending w)))))"

definition pending_count :: "wal \<Rightarrow> nat" where
  "pending_count w = length (w_pending w)"

definition drain_recovery_requests :: "wal \<Rightarrow> materialize_request list" where
  "drain_recovery_requests w = map (\<lambda>((b, k, v), e).
     \<lparr> mr_bucket = b, mr_key = k, mr_version_id = v, mr_entry = e \<rparr>) (w_pending w)"

section \<open>Recovery\<close>

definition dest_exists :: "env \<Rightarrow> path \<Rightarrow> files \<Rightarrow> string \<Rightarrow> string \<Rightarrow> string \<Rightarrow> bool" where
  "dest_exists ev root fs bucket key version_id =
     (case (if version_id = [] then object_shard_path root bucket key
            else version_shard_path (e_is_uuid ev) root bucket key version_id) of
        Inr p \<Rightarrow> is_file fs p | Inl _ \<Rightarrow> False)"

definition recover_entry :: "env \<Rightarrow> path \<Rightarrow> files \<Rightarrow> sealed_segment \<Rightarrow> needle_view \<times> nat \<Rightarrow> wal \<Rightarrow> wal" where
  "recover_entry ev root fs seg vo w = (case vo of (v, needle_offset) \<Rightarrow>
     (let k = (nv_bucket v, nv_key v, nv_version_id v) in
      if nv_flags v = FLAG_DELETE then w\<lparr> w_pending := AList.delete k (w_pending w) \<rparr>
      else if dest_exists ev root fs (nv_bucket v) (nv_key v) (nv_version_id v) then w
      else
        let created_at = (case Option.bind (sealed_slice seg (w_dir w) (nv_meta_offset v) (nv_meta_len v)) (e_meta_dec ev) of
                            Some m \<Rightarrow> ucast (om_created_at m) | None \<Rightarrow> 0)
        in add_pending k
             \<lparr> we_segment_id = ss_segment_id seg, we_data_offset = word_of_nat (nv_data_offset v),
               we_data_len = word_of_nat (nv_data_len v), we_meta_offset = word_of_nat (nv_meta_offset v),
               we_meta_len = word_of_nat (nv_meta_len v), we_created_at = created_at \<rparr> w))"

definition recover_segment :: "env \<Rightarrow> path \<Rightarrow> files \<Rightarrow> sealed_segment \<Rightarrow> wal \<Rightarrow> wal" where
  "recover_segment ev root fs seg w = fold (recover_entry ev root fs seg) (segment_scan (e_xxh64 ev) seg (w_dir w)) w"

definition recover_file :: "env \<Rightarrow> path \<Rightarrow> files \<Rightarrow> string \<Rightarrow> wal \<Rightarrow> wal" where
  "recover_file ev root fs name w = (case sealed_open (e_xxh64 ev) name (w_dir w) of
      Inl _ \<Rightarrow> w
    | Inr seg \<Rightarrow>
        (let i = ss_segment_id seg;
             w1 = (if i \<ge> w_next w then w\<lparr> w_next := i + 1 \<rparr> else w);
             w2 = recover_segment ev root fs seg w1
         in if count_of w2 i > 0 then w2\<lparr> w_sealed := w_sealed w2 @ [seg] \<rparr>
            else w2\<lparr> w_dir := filter (\<lambda>(nm, bs). nm \<noteq> ss_path seg) (w_dir w2) \<rparr>))"

text \<open>\<open>Path::extension\<close> is the text after the last dot, if a text stands before it.\<close>

definition has_dat_extension :: "string \<Rightarrow> bool" where
  "has_dat_extension name = (length name > 4 \<and> drop (length name - 4) name = ''.dat'')"

definition wal_open :: "env \<Rightarrow> path \<Rightarrow> files \<Rightarrow> u64 \<Rightarrow> nat \<Rightarrow> seg_dir \<Rightarrow> wal" where
  "wal_open ev root fs now capacity d =
     (let (act, d0) = segment_create now 1 capacity d;
          w0 = \<lparr> w_dir = d0, w_active = act, w_sealed = [], w_pending = [], w_counts = [], w_next = 2, w_capacity = capacity \<rparr>;
          names = filter has_dat_extension (map fst d0);
          w1 = fold (recover_file ev root fs) names w0;
          active_id = w_next w1;
          (act1, d1) = segment_create now active_id capacity (w_dir w1)
      in w1\<lparr> w_next := active_id + 1, w_active := act1, w_dir := d1 \<rparr>)"

section \<open>Materialization\<close>

definition merge_version :: "object_meta_file \<Rightarrow> string \<Rightarrow> object_meta \<Rightarrow> object_meta_file" where
  "merge_version mf version_id version = mf\<lparr> mf_versions :=
     version # map (\<lambda>v. v\<lparr> om_is_latest := False \<rparr>) (filter (\<lambda>v. om_version_id v \<noteq> version_id) (mf_versions mf)) \<rparr>"

definition process_materialize ::
  "env \<Rightarrow> path \<Rightarrow> wal \<Rightarrow> materialize_request \<Rightarrow> files \<Rightarrow> (storage_error + unit) \<times> files" where
  "process_materialize ev root w req fs =
     (case read_data w (mr_entry req) of
        None \<Rightarrow> (Inl (Internal ''WAL segment data missing''), fs)
      | Some data \<Rightarrow> then_do (read_meta ev w (mr_entry req), fs) (\<lambda>meta fs.
          let b = mr_bucket req; k = mr_key req; vid = mr_version_id req in
          if vid = [] then
            then_do (lift_path (object_dir root b k), fs) (\<lambda>dest_dir fs.
              write_object_files ev dest_dir data (single_version b k meta) fs)
          else
            let version = meta\<lparr> om_is_latest := True, om_version_id := vid \<rparr> in
            then_do (lift_path (version_dir (e_is_uuid ev) root b k vid), fs) (\<lambda>ver_dir fs.
            then_do (create_dir_all ver_dir fs) (\<lambda>_ fs.
            then_do (lift_path (version_shard_path (e_is_uuid ev) root b k vid), fs) (\<lambda>shard_dest fs.
            then_do (fs_write shard_dest data fs) (\<lambda>_ fs.
            then_do (lift_path (object_meta_path root b k), fs) (\<lambda>meta_path fs.
              write_meta_file ev meta_path (merge_version (meta_or_empty ev fs meta_path b k) vid version) fs)))))))"

text \<open>One request of the worker: an error is logged and the entry stays pending.\<close>

definition materialize_worker :: "env \<Rightarrow> path \<Rightarrow> materialize_request \<Rightarrow> wal \<times> files \<Rightarrow> wal \<times> files" where
  "materialize_worker ev root req st = (case st of (w, fs) \<Rightarrow>
     (case process_materialize ev root w req fs of
        (Inl _, fs') \<Rightarrow> (w, fs')
      | (Inr _, fs') \<Rightarrow> (mark_materialized_versioned (mr_bucket req) (mr_key req) (mr_version_id req) w, fs')))"

end
