(* ===== verification/Wal_Inv.thy ===== *)
theory Wal_Inv
  imports Wal
begin

text \<open>
  The invariant of the write-ahead log: what the segment files hold, which of them are live,
  and that every pending entry points to a needle with its key in a live segment, so that its
  data and metadata can be read.  Appending, rotating, marking and reopening keep it.  The
  ghost function \<open>nd\<close> gives the needles of each segment.
\<close>

section \<open>Segment files\<close>

text \<open>The directory holds exactly the segments \<open>P\<close>, each of the same length.\<close>

definition dir_ok :: "env \<Rightarrow> nat \<Rightarrow> (u32 \<Rightarrow> needle list) \<Rightarrow> u32 set \<Rightarrow> seg_dir \<Rightarrow> bool" where
  "dir_ok ev cap nd P d \<longleftrightarrow> bt_ok d \<and> fst ` set d = seg_name ` P
     \<and> (\<forall>i \<in> P. seg_holds (e_xxh64 ev) i (nd i) d \<and> length (file_of d (seg_name i)) = cap)"

lemma seg_name_eq_iff [simp]: "seg_name i = seg_name j \<longleftrightarrow> i = j"
  using seg_name_inj by blast

lemma seg_name_mem [simp]: "seg_name i \<in> seg_name ` P \<longleftrightarrow> i \<in> P"
  by auto

lemma dir_ok_lookup: "dir_ok ev cap nd P d \<Longrightarrow> map_of d (seg_name i) = None \<longleftrightarrow> i \<notin> P"
  by (simp add: dir_ok_def map_of_eq_None_iff)

lemma file_of_cong: "map_of d' nm = map_of d nm \<Longrightarrow> file_of d' nm = file_of d nm"
  by (simp add: file_of_def)

lemma segment_create_exists:
  assumes "seg_holds h i ns d" and "length (file_of d (seg_name i)) = cap" and "segment_create now i cap d = (seg, d')"
  shows "seg_holds h i ns d'" and "length (file_of d' (seg_name i)) = cap"
    and "name \<noteq> seg_name i \<Longrightarrow> map_of d' name = map_of d name"
proof -
  from assms(1) obtain t k where m: "map_of d (seg_name i) = Some (superblock i t @ needles_bytes h ns @ replicate k 0)"
    "SUPERBLOCK_SIZE + length (needles_bytes h ns) + k < 2 ^ 32" "list_all needle_fits ns" by (auto simp: seg_holds_def)
  have d': "d' = bt_insert (seg_name i) (superblock i now @ needles_bytes h ns @ replicate k 0) d"
    using assms(2,3) m(1) by (auto simp: segment_create_def Let_def file_of_def set_len_def blit_def)
  show "seg_holds h i ns d'" using m by (auto simp: seg_holds_def d' bt_simps)
  show "length (file_of d' (seg_name i)) = cap" using assms(2) m(1) by (simp add: d' file_of_def bt_simps)
  show "name \<noteq> seg_name i \<Longrightarrow> map_of d' name = map_of d name" by (simp add: d' bt_simps)
qed

lemma segment_create_insert: "segment_create now i cap d = (seg, d') \<Longrightarrow> \<exists>v. d' = bt_insert (seg_name i) v d"
  by (auto simp: segment_create_def Let_def)

lemma segment_append_insert:
  "segment_append h n (seg, d) = (Some loc, seg', d') \<Longrightarrow> \<exists>v. d' = bt_insert (seg_name (as_segment_id seg)) v d"
  by (auto simp: segment_append_def Let_def split: if_splits)

lemma segment_create_keys:
  assumes "segment_create now i cap d = (seg, d')"
  shows "fst ` set d' = insert (seg_name i) (fst ` set d)" and "bt_ok d \<Longrightarrow> bt_ok d'"
  using segment_create_insert [OF assms] bt_insert_keys bt_ok_insert by metis+

lemma segment_append_keys:
  assumes "segment_append h n (seg, d) = (Some loc, seg', d')"
  shows "fst ` set d' = insert (seg_name (as_segment_id seg)) (fst ` set d)" and "bt_ok d \<Longrightarrow> bt_ok d'"
  using segment_append_insert [OF assms] bt_insert_keys bt_ok_insert by metis+

lemma dir_create_new:
  assumes ok: "dir_ok ev cap nd P d" and new: "i \<notin> P" and cap: "SUPERBLOCK_SIZE \<le> cap" "cap < 2 ^ 32"
    and c: "segment_create now i cap d = (seg, d')"
  shows "dir_ok ev cap (nd(i := [])) (insert i P) d'" and "active_holds (e_xxh64 ev) [] seg d'"
    and "as_segment_id seg = i" and "as_capacity seg = cap"
proof -
  have none: "map_of d (seg_name i) = None" using ok new by (simp add: dir_ok_lookup)
  note f = segment_create_fresh [OF none cap c]
  show a: "active_holds (e_xxh64 ev) [] seg d'" "as_segment_id seg = i" "as_capacity seg = cap" by (rule f)+
  show "dir_ok ev cap (nd(i := [])) (insert i P) d'"
    using ok new a f(4) segment_create_keys [OF c] seg_holds_other [of d' _ d] file_of_cong [of d' _ d]
    by (auto simp: dir_ok_def active_holds_def)
qed

lemma dir_create_old:
  assumes ok: "dir_ok ev cap nd P d" and old: "i \<in> P" and c: "segment_create now i cap d = (seg, d')"
  shows "dir_ok ev cap nd P d'"
proof -
  have "seg_holds (e_xxh64 ev) i (nd i) d" "length (file_of d (seg_name i)) = cap" using ok old by (auto simp: dir_ok_def)
  note f = segment_create_exists [OF this c]
  have "seg_holds (e_xxh64 ev) j (nd j) d' \<and> length (file_of d' (seg_name j)) = cap" if "j \<in> P" for j
    using that ok f seg_holds_other [of d' j d] file_of_cong [of d' "seg_name j" d]
    by (cases "j = i") (auto simp: dir_ok_def)
  then show ?thesis using ok old segment_create_keys [OF c] by (auto simp: dir_ok_def)
qed

lemma dir_append:
  assumes ok: "dir_ok ev cap nd P d" and act: "active_holds (e_xxh64 ev) (nd i) seg d" and i: "as_segment_id seg = i" "i \<in> P"
    and cap: "as_capacity seg = cap" and fit: "needle_fits n"
    and app: "segment_append (e_xxh64 ev) n (seg, d) = (Some loc, seg', d')"
  shows "dir_ok ev cap (nd(i := nd i @ [n])) P d'"
proof -
  note f = segment_append_room [OF act fit app]
  have "seg_holds (e_xxh64 ev) j ((nd(i := nd i @ [n])) j) d' \<and> length (file_of d' (seg_name j)) = cap" if "j \<in> P" for j
    using that ok f(1,2,3) f(4) [of "seg_name j"] i cap seg_holds_other [of d' j d] file_of_cong [of d' "seg_name j" d]
    by (cases "j = i") (auto simp: dir_ok_def active_holds_def)
  then show ?thesis using ok i segment_append_keys [OF app] by (auto simp: dir_ok_def)
qed

lemma map_of_drop_key: "map_of (filter (\<lambda>(nm, bs). nm \<noteq> x) d) y = (if y = x then None else map_of d y)"
  by (induction d) auto

lemma dir_remove:
  assumes "dir_ok ev cap nd P d"
  shows "dir_ok ev cap nd (P - {i}) (filter (\<lambda>(nm, bs). nm \<noteq> seg_name i) d)"
proof -
  let ?d = "filter (\<lambda>(nm, bs). nm \<noteq> seg_name i) d"
  have m: "map_of ?d (seg_name j) = map_of d (seg_name j)" if "j \<noteq> i" for j using that by (simp add: map_of_drop_key)
  have "fst ` set ?d = fst ` set d - {seg_name i}" by (auto simp: image_iff)
  also have "\<dots> = seg_name ` (P - {i})" using assms by (auto simp: dir_ok_def)
  finally have keys: "fst ` set ?d = seg_name ` (P - {i})" .
  show ?thesis using assms keys m seg_holds_other [of ?d _ d] file_of_cong [of ?d _ d]
    by (auto simp: dir_ok_def bt_ok_filter)
qed

section \<open>Pending entries\<close>

text \<open>An entry gives the place of a needle in a segment.\<close>

definition points_to :: "env \<Rightarrow> needle list \<Rightarrow> wal_entry \<Rightarrow> needle \<Rightarrow> bool" where
  "points_to ev ns e n \<longleftrightarrow> (\<exists>xs ys. ns = xs @ n # ys
     \<and> we_data_offset e = word_of_nat (seg_end (e_xxh64 ev) xs + nv_data_offset (view_of n))
     \<and> we_data_len e = word_of_nat (length (n_data n))
     \<and> we_meta_offset e = word_of_nat (seg_end (e_xxh64 ev) xs + nv_meta_offset (view_of n))
     \<and> we_meta_len e = word_of_nat (length (n_meta_bytes n)))"

lemma points_to_mem: "points_to ev ns e n \<Longrightarrow> n \<in> set ns"
  by (auto simp: points_to_def)

lemma points_to_append: "points_to ev ns e n \<Longrightarrow> points_to ev (ns @ ms) e n"
  unfolding points_to_def by (metis append.assoc append_Cons)

definition pend_in :: "u32 \<Rightarrow> (pending_key \<times> wal_entry) list \<Rightarrow> nat" where
  "pend_in i ps = length (filter (\<lambda>(k, e). we_segment_id e = i) ps)"

lemma pend_in_update: "pend_in i (AList.update k e ps) \<le> pend_in i ps + (if we_segment_id e = i then 1 else 0)"
  by (induction ps) (auto simp: pend_in_def)

lemma pend_in_delete: "pend_in i (AList.delete k ps) \<le> pend_in i ps"
  by (induction ps) (auto simp: pend_in_def)

lemma pend_in_delete_hit: "map_of ps k = Some e \<Longrightarrow> pend_in (we_segment_id e) (AList.delete k ps) < pend_in (we_segment_id e) ps"
proof (induction ps)
  case (Cons p ps)
  then show ?case using pend_in_delete [of "we_segment_id e" k ps] by (auto simp: pend_in_def split: if_splits)
qed simp

lemma pend_in_0: "pend_in i ps = 0 \<longleftrightarrow> (\<forall>(k, e) \<in> set ps. we_segment_id e \<noteq> i)"
  by (auto simp: pend_in_def filter_empty_conv)

text \<open>Every pending entry points to a needle with its key in one of the segments \<open>I\<close>.\<close>

definition pend_ok :: "env \<Rightarrow> (u32 \<Rightarrow> needle list) \<Rightarrow> u32 set \<Rightarrow> wal \<Rightarrow> bool" where
  "pend_ok ev nd I w \<longleftrightarrow> distinct (map fst (w_pending w))
     \<and> (\<forall>k e. map_of (w_pending w) k = Some e \<longrightarrow> we_segment_id e \<in> I
          \<and> (\<exists>n. points_to ev (nd (we_segment_id e)) e n \<and> needle_key n = k))
     \<and> (\<forall>i. pend_in i (w_pending w) \<le> count_of w i)"

lemma count_of_add: "count_of (add_pending k e w) i = count_of w i + (if we_segment_id e = i then 1 else 0)"
  by (simp add: count_of_def add_pending_def update_conv')

lemma add_pending_fields [simp]:
  "w_dir (add_pending k e w) = w_dir w" "w_active (add_pending k e w) = w_active w" "w_sealed (add_pending k e w) = w_sealed w"
  "w_next (add_pending k e w) = w_next w" "w_capacity (add_pending k e w) = w_capacity w"
  "map_of (w_pending (add_pending k e w)) = (map_of (w_pending w))(k \<mapsto> e)"
  by (simp_all add: add_pending_def update_conv')

lemma pend_ok_add:
  assumes "pend_ok ev nd I w" and "we_segment_id e \<in> I" and "points_to ev (nd (we_segment_id e)) e n" and "needle_key n = k"
  shows "pend_ok ev nd I (add_pending k e w)"
proof -
  have "pend_in i (w_pending (add_pending k e w)) \<le> count_of (add_pending k e w) i" for i
  proof -
    have "pend_in i (w_pending (add_pending k e w)) \<le> pend_in i (w_pending w) + (if we_segment_id e = i then 1 else 0)"
      by (simp add: add_pending_def pend_in_update del: One_nat_def)
    also have "pend_in i (w_pending w) \<le> count_of w i" using assms(1) by (simp add: pend_ok_def)
    finally show ?thesis by (simp only: count_of_add)
  qed
  moreover have "distinct (map fst (w_pending (add_pending k e w)))"
    using assms(1) by (simp add: pend_ok_def add_pending_def distinct_update)
  ultimately show ?thesis using assms by (auto simp: pend_ok_def)
qed

lemma pend_ok_delete:
  assumes "pend_ok ev nd I w"
  shows "pend_ok ev nd I (w\<lparr> w_pending := AList.delete k (w_pending w) \<rparr>)"
proof -
  have "pend_in i (AList.delete k (w_pending w)) \<le> count_of w i" for i
    using assms pend_in_delete [of i k "w_pending w"] order_trans unfolding pend_ok_def by blast
  then show ?thesis using assms
    by (auto simp: pend_ok_def distinct_delete count_of_def delete_conv' restrict_map_def split: if_splits)
qed

lemma pend_ok_nd:
  assumes ok: "pend_ok ev nd I w" and ext: "\<And>i. i \<in> I \<Longrightarrow> \<exists>ms. nd' i = nd i @ ms" and sub: "I \<subseteq> J"
  shows "pend_ok ev nd' J w"
proof -
  have "we_segment_id e \<in> J \<and> (\<exists>n. points_to ev (nd' (we_segment_id e)) e n \<and> needle_key n = k)"
    if "map_of (w_pending w) k = Some e" for k e
  proof -
    from ok that obtain n where "we_segment_id e \<in> I" "points_to ev (nd (we_segment_id e)) e n" "needle_key n = k"
      unfolding pend_ok_def by blast
    then show ?thesis using ext [of "we_segment_id e"] sub by (auto intro!: exI [of _ n] points_to_append)
  qed
  then show ?thesis using ok by (simp add: pend_ok_def)
qed

lemma pend_ok_cong:
  "w_pending w' = w_pending w \<Longrightarrow> w_counts w' = w_counts w \<Longrightarrow> pend_ok ev nd I w' = pend_ok ev nd I w"
  by (simp add: pend_ok_def count_of_def)

section \<open>The invariant\<close>

definition live :: "wal \<Rightarrow> u32 set" where
  "live w = insert (as_segment_id (w_active w)) (ss_segment_id ` set (w_sealed w))"

definition segs_ok :: "sealed_segment list \<Rightarrow> bool" where
  "segs_ok ss \<longleftrightarrow> distinct (map ss_segment_id ss) \<and> (\<forall>s \<in> set ss. ss_path s = seg_name (ss_segment_id s))"

definition files_ok :: "env \<Rightarrow> (u32 \<Rightarrow> needle list) \<Rightarrow> wal \<Rightarrow> bool" where
  "files_ok ev nd w \<longleftrightarrow> (\<exists>P. dir_ok ev (w_capacity w) nd P (w_dir w) \<and> live w \<subseteq> P \<and> P \<subseteq> insert 0 (live w)) \<and> nd 0 = []"

definition wal_ok :: "env \<Rightarrow> (u32 \<Rightarrow> needle list) \<Rightarrow> wal \<Rightarrow> bool" where
  "wal_ok ev nd w \<longleftrightarrow> files_ok ev nd w \<and> segs_ok (w_sealed w)
     \<and> as_segment_id (w_active w) \<notin> ss_segment_id ` set (w_sealed w)
     \<and> (\<forall>i \<in> live w. 0 < i \<and> i < w_next w)
     \<and> active_holds (e_xxh64 ev) (nd (as_segment_id (w_active w))) (w_active w) (w_dir w)
     \<and> as_capacity (w_active w) = w_capacity w \<and> SUPERBLOCK_SIZE \<le> w_capacity w \<and> w_capacity w < 2 ^ 32
     \<and> pend_ok ev nd (live w) w"

lemma wal_ok_seg_holds: "wal_ok ev nd w \<Longrightarrow> i \<in> live w \<Longrightarrow> seg_holds (e_xxh64 ev) i (nd i) (w_dir w)"
  by (auto simp: wal_ok_def files_ok_def dir_ok_def)

lemma find_sealed:
  assumes "segs_ok ss" and "s \<in> set ss"
  shows "find (\<lambda>t. ss_segment_id t = ss_segment_id s) ss = Some s"
  using assms by (induction ss) (auto simp: segs_ok_def)

lemma read_segment_live:
  assumes ok: "wal_ok ev nd w" and i: "i \<in> live w"
    and le: "off + len \<le> seg_end (e_xxh64 ev) (nd i)"
  shows "read_segment w i off len = Some (slice_of off len (file_of (w_dir w) (seg_name i)))"
proof (cases "i = as_segment_id (w_active w)")
  case True
  with ok le have "off + len \<le> as_write_offset (w_active w)" by (simp add: wal_ok_def active_holds_def)
  with True show ?thesis by (simp add: read_segment_def active_read_at_def)
next
  case False
  with i obtain s where s: "s \<in> set (w_sealed w)" "ss_segment_id s = i" by (auto simp: live_def)
  with ok have f: "find (\<lambda>t. ss_segment_id t = i) (w_sealed w) = Some s" "ss_path s = seg_name i"
    using find_sealed [of "w_sealed w" s] by (auto simp: wal_ok_def segs_ok_def)
  have "seg_end (e_xxh64 ev) (nd i) \<le> length (file_of (w_dir w) (seg_name i))"
    using seg_holds_file [OF wal_ok_seg_holds [OF ok i]] by (auto simp: seg_end_def)
  with le f False show ?thesis by (simp add: read_segment_def sealed_slice_def)
qed

lemma unat_of_small:
  "m < 2 ^ 32 \<Longrightarrow> unat (word_of_nat m :: u32) = m" "m < 2 ^ 16 \<Longrightarrow> unat (word_of_nat m :: u16) = m"
  by (simp_all add: unat_of_nat take_bit_nat_eq_self)

lemma less_inc:
  fixes x :: u32
  assumes "x < y"
  shows "j \<le> x \<Longrightarrow> j < x + 1"
proof -
  have "1 + x \<noteq> 0"
  proof
    assume "1 + x = 0"
    then have "x = - 1" by (simp add: eq_neg_iff_add_eq_0 add.commute)
    with assms show False using word_order.extremum_strict by blast
  qed
  then have "unat (x + 1) = Suc (unat x)" using unatSuc [of x] by (simp add: add.commute)
  then show "j \<le> x \<Longrightarrow> j < x + 1" by (simp add: word_le_nat_alt word_less_nat_alt)
qed

text \<open>What an entry points to can be read.\<close>

lemma read_points_to:
  assumes ok: "wal_ok ev nd w" and live: "we_segment_id e \<in> live w" and pt: "points_to ev (nd (we_segment_id e)) e n"
  shows "read_data w e = Some (n_data n)" and "read_meta_bytes w e = Some (n_meta_bytes n)"
proof -
  let ?i = "we_segment_id e"
  from pt obtain xs ys where nd: "nd ?i = xs @ n # ys"
    and e: "we_data_offset e = word_of_nat (seg_end (e_xxh64 ev) xs + nv_data_offset (view_of n))"
      "we_data_len e = word_of_nat (length (n_data n))"
      "we_meta_offset e = word_of_nat (seg_end (e_xxh64 ev) xs + nv_meta_offset (view_of n))"
      "we_meta_len e = word_of_nat (length (n_meta_bytes n))" by (auto simp: points_to_def)
  have holds: "seg_holds (e_xxh64 ev) ?i (xs @ n # ys) (w_dir w)" using wal_ok_seg_holds [OF ok live] nd by simp
  note sl = seg_holds_slices [OF holds]
  have "needle_fits n" using holds by (simp add: seg_holds_def)
  then have "length (n_meta_bytes n) < 2 ^ 16" "length (n_data n) < 2 ^ 32" by (simp_all add: needle_fits_def)
  then have "unat (we_data_offset e) = seg_end (e_xxh64 ev) xs + nv_data_offset (view_of n)"
    "unat (we_data_len e) = length (n_data n)" "unat (we_meta_len e) = length (n_meta_bytes n)"
    "unat (we_meta_offset e) = seg_end (e_xxh64 ev) xs + nv_meta_offset (view_of n)"
    using sl(3-6) unfolding e by - (rule unat_of_small, linarith)+
  then show "read_data w e = Some (n_data n)" "read_meta_bytes w e = Some (n_meta_bytes n)"
    using sl read_segment_live [OF ok live] by (simp_all add: read_data_def read_meta_bytes_def nd)
qed

section \<open>Operations keep the invariant\<close>

lemma try_append_None: "try_append ev n w = (None, w') \<Longrightarrow> w' = w"
  by (auto simp: try_append_def Let_def split: prod.splits option.splits dest: segment_append_full)

lemma try_append_Some:
  assumes ok: "wal_ok ev nd w" and fit: "needle_fits n" and app: "try_append ev n w = (Some e, w')"
  defines "a \<equiv> as_segment_id (w_active w)"
  shows "wal_ok ev (nd(a := nd a @ [n])) w'" and "map_of (w_pending w') = (map_of (w_pending w))(needle_key n \<mapsto> e)"
    and "points_to ev (nd a @ [n]) e n" and "we_segment_id e = a" and "live w' = live w" and "w_next w' = w_next w"
proof -
  let ?nd = "nd(a := nd a @ [n])"
  from app obtain loc act d where sa: "segment_append (e_xxh64 ev) n (w_active w, w_dir w) = (Some loc, act, d)"
    and e: "e = loc_to_entry (as_segment_id act) loc"
    and w': "w' = add_pending (needle_key n) e (w\<lparr> w_active := act, w_dir := d \<rparr>)"
    by (auto simp: try_append_def Let_def split: prod.splits option.splits)
  have act: "active_holds (e_xxh64 ev) (nd a) (w_active w) (w_dir w)" using ok by (simp add: wal_ok_def a_def)
  note f = segment_append_room [OF act fit sa]
  have id: "as_segment_id act = a" using f(2) by (simp add: a_def)
  show live: "live w' = live w" using id by (simp add: w' live_def a_def)
  show "w_next w' = w_next w" "map_of (w_pending w') = (map_of (w_pending w))(needle_key n \<mapsto> e)" by (simp_all add: w')
  show seg: "we_segment_id e = a" by (simp add: e loc_to_entry_def id)
  show pt: "points_to ev (nd a @ [n]) e n"
    unfolding points_to_def using f(5-8) by (intro exI [of _ "nd a"] exI [of _ "[]"]) (simp add: e loc_to_entry_def)
  have a: "a \<in> live w" "a \<noteq> 0" using ok by (auto simp: wal_ok_def live_def a_def)
  obtain P where P: "dir_ok ev (w_capacity w) nd P (w_dir w)" "live w \<subseteq> P" "P \<subseteq> insert 0 (live w)"
    using ok by (auto simp: wal_ok_def files_ok_def)
  have "dir_ok ev (w_capacity w) ?nd P d"
    using dir_append [OF P(1) act _ _ _ fit sa] P(2) a ok by (auto simp: a_def wal_ok_def)
  then have "files_ok ev ?nd w'" using P ok a live unfolding files_ok_def
    by (intro conjI exI [of _ P]) (simp_all add: w' wal_ok_def files_ok_def)
  moreover have "pend_ok ev ?nd (live w) (w\<lparr> w_active := act, w_dir := d \<rparr>)"
    using ok pend_ok_nd [of ev nd "live w" w ?nd] by (subst pend_ok_cong [of _ w]) (auto simp: wal_ok_def)
  then have "pend_ok ev ?nd (live w) w'" unfolding w'
    by (rule pend_ok_add) (use seg pt a in simp_all)
  ultimately show "wal_ok ev ?nd w'"
    using ok f(1,3) id live by (simp add: wal_ok_def w' a_def)
qed

lemma rotate_active_ok:
  assumes ok: "wal_ok ev nd w" and room: "w_next w < 0xFFFFFFFF" and a0: "0 < w_next w"
  shows "wal_ok ev (nd(w_next w := [])) (rotate_active now w)" and "w_pending (rotate_active now w) = w_pending w"
    and "live (rotate_active now w) = insert (w_next w) (live w)" and "w_next (rotate_active now w) = w_next w + 1"
    and "as_segment_id (w_active (rotate_active now w)) = w_next w"
proof -
  let ?i = "w_next w" and ?nd = "nd(w_next w := [])"
  obtain spare d0 where c0: "segment_create now 0 (w_capacity w) (w_dir w) = (spare, d0)" by fastforce
  obtain act d1 where c1: "segment_create now ?i (w_capacity w) d0 = (act, d1)" by fastforce
  have rot: "rotate_active now w = w\<lparr> w_dir := d1, w_active := act,
      w_sealed := w_sealed w @ [segment_seal (w_active w)], w_next := ?i + 1 \<rparr>"
    by (simp add: rotate_active_def c0 c1)
  obtain P where P: "dir_ok ev (w_capacity w) nd P (w_dir w)" "live w \<subseteq> P" "P \<subseteq> insert 0 (live w)" and nd0: "nd 0 = []"
    using ok by (auto simp: wal_ok_def files_ok_def)
  have cap: "SUPERBLOCK_SIZE \<le> w_capacity w" "w_capacity w < 2 ^ 32" using ok by (simp_all add: wal_ok_def)
  have "dir_ok ev (w_capacity w) nd (insert 0 P) d0"
  proof (cases "0 \<in> P")
    case True
    then show ?thesis using dir_create_old [OF P(1) True c0] by (simp add: insert_absorb)
  next
    case False
    have "nd(0 := []) = nd" using nd0 by auto
    then show ?thesis using dir_create_new(1) [OF P(1) False cap c0] by simp
  qed
  moreover have new: "?i \<notin> insert 0 P" using P(3) ok a0 by (auto simp: wal_ok_def)
  ultimately have d1: "dir_ok ev (w_capacity w) ?nd (insert ?i (insert 0 P)) d1" and act: "active_holds (e_xxh64 ev) [] act d1"
    and id: "as_segment_id act = ?i" "as_capacity act = w_capacity w"
    using dir_create_new [OF _ new cap c1] by blast+
  show live: "live (rotate_active now w) = insert ?i (live w)"
    using id by (auto simp: rot live_def segment_seal_def)
  show "w_pending (rotate_active now w) = w_pending w" "w_next (rotate_active now w) = ?i + 1"
    "as_segment_id (w_active (rotate_active now w)) = ?i" by (simp_all add: rot id)
  have fresh: "?i \<notin> live w" using ok by (auto simp: wal_ok_def)
  have lt: "j < ?i + 1" if "j \<le> ?i" for j using less_inc [OF room that] .
  have "files_ok ev ?nd (rotate_active now w)" unfolding files_ok_def live
    using P d1 nd0 a0 by (intro conjI exI [of _ "insert ?i (insert 0 P)"]) (auto simp: rot)
  moreover have "pend_ok ev ?nd (insert ?i (live w)) w"
    by (rule pend_ok_nd [of ev nd "live w"]) (use ok fresh in \<open>auto simp: wal_ok_def\<close>)
  then have "pend_ok ev ?nd (insert ?i (live w)) (rotate_active now w)"
    by (subst pend_ok_cong [of _ w]) (simp_all add: rot)
  moreover have "segs_ok (w_sealed (rotate_active now w))"
    using ok by (auto simp: wal_ok_def segs_ok_def rot segment_seal_def live_def)
  moreover have "?i \<notin> ss_segment_id ` set (w_sealed (rotate_active now w))"
    using fresh by (auto simp: rot live_def segment_seal_def)
  moreover have "\<forall>j \<in> insert ?i (live w). 0 < j \<and> j < ?i + 1" using ok a0 lt by (auto simp: wal_ok_def intro: order.strict_implies_order)
  ultimately show "wal_ok ev ?nd (rotate_active now w)"
    using cap act id unfolding wal_ok_def live by (simp add: rot)
qed

lemma pend_ok_mark:
  assumes ok: "pend_ok ev nd I w" and hit: "map_of (w_pending w) k = Some e"
  defines "i \<equiv> we_segment_id e"
  shows "\<exists>c. map_of (w_counts w) i = Some (Suc c)
    \<and> (c \<noteq> 0 \<longrightarrow> pend_ok ev nd I (w\<lparr> w_pending := AList.delete k (w_pending w), w_counts := AList.update i c (w_counts w) \<rparr>))
    \<and> (c = 0 \<longrightarrow> pend_ok ev nd (I - {i}) (w\<lparr> w_pending := AList.delete k (w_pending w), w_counts := AList.delete i (w_counts w) \<rparr>))"
proof -
  let ?ps = "AList.delete k (w_pending w)"
  have less: "pend_in i ?ps < pend_in i (w_pending w)" using pend_in_delete_hit [OF hit] by (simp add: i_def)
  have cnt: "pend_in j (w_pending w) \<le> count_of w j" for j using ok by (simp add: pend_ok_def)
  have "0 < count_of w i" using less cnt [of i] by linarith
  then obtain c where m: "map_of (w_counts w) i = Some (Suc c)"
    by (auto simp: count_of_def gr0_conv_Suc split: option.splits)
  moreover from m have "pend_in i ?ps \<le> c" using less cnt [of i] by (simp add: count_of_def)
  ultimately have c: "map_of (w_counts w) i = Some (Suc c)" "pend_in i ?ps \<le> c" by blast+
  have other: "pend_in j ?ps \<le> count_of w j" for j using pend_in_delete cnt order_trans by blast
  have del: "pend_ok ev nd I (w\<lparr> w_pending := ?ps \<rparr>)" by (rule pend_ok_delete [OF ok])
  have "pend_ok ev nd I (w\<lparr> w_pending := ?ps, w_counts := AList.update i c (w_counts w) \<rparr>)"
    using del c(2) other by (auto simp: pend_ok_def count_of_def update_conv')
  moreover have "pend_ok ev nd (I - {i}) (w\<lparr> w_pending := ?ps, w_counts := AList.delete i (w_counts w) \<rparr>)" if "c = 0"
  proof -
    have none: "we_segment_id e' \<noteq> i" if "map_of ?ps k' = Some e'" for k' e'
      using c(2) \<open>c = 0\<close> map_of_SomeD [OF that] by (auto simp: pend_in_0)
    show ?thesis using del c(2) \<open>c = 0\<close> other none
      by (auto simp: pend_ok_def count_of_def delete_conv' restrict_map_def)
  qed
  ultimately show ?thesis using c(1) by blast
qed

lemma wal_ok_fewer_pending:
  assumes "wal_ok ev nd w" and "pend_ok ev nd (live w) (w\<lparr> w_pending := ps, w_counts := cs \<rparr>)"
  shows "wal_ok ev nd (w\<lparr> w_pending := ps, w_counts := cs \<rparr>)"
  using assms by (simp add: wal_ok_def files_ok_def live_def)

lemma try_delete_segment_ok:
  assumes ok: "wal_ok ev nd w" and gone: "pend_ok ev nd (live w - {i}) w"
  shows "wal_ok ev nd (try_delete_segment i w)" and "live (try_delete_segment i w) \<subseteq> live w"
    and "w_pending (try_delete_segment i w) = w_pending w" and "w_next (try_delete_segment i w) = w_next w"
    and "w_active (try_delete_segment i w) = w_active w"
proof -
  let ?w = "try_delete_segment i w"
  have "wal_ok ev nd ?w \<and> live ?w \<subseteq> live w \<and> w_pending ?w = w_pending w \<and> w_next ?w = w_next w \<and> w_active ?w = w_active w"
  proof (cases "i = as_segment_id (w_active w) \<or> find (\<lambda>s. ss_segment_id s = i) (w_sealed w) = None")
    case True
    then have "?w = w" by (auto simp: try_delete_segment_def)
    then show ?thesis using ok by simp
  next
    case False
    then obtain s where f: "find (\<lambda>s. ss_segment_id s = i) (w_sealed w) = Some s" and na: "i \<noteq> as_segment_id (w_active w)" by auto
    then have s: "s \<in> set (w_sealed w)" "ss_segment_id s = i" by (auto simp: find_Some_iff)
    have so: "segs_ok (w_sealed w)" using ok by (simp add: wal_ok_def)
    then have path: "ss_path s = seg_name i" using s by (auto simp: segs_ok_def)
    have w': "?w = w\<lparr> w_sealed := remove1 s (w_sealed w), w_dir := filter (\<lambda>(nm, bs). nm \<noteq> seg_name i) (w_dir w) \<rparr>"
      using f na path by (simp add: try_delete_segment_def)
    have dist: "distinct (w_sealed w)" using so by (auto simp: segs_ok_def distinct_map)
    have rest: "ss_segment_id ` set (remove1 s (w_sealed w)) = ss_segment_id ` set (w_sealed w) - {i}"
      using so s dist by (auto simp: segs_ok_def distinct_map inj_on_def)
    then have live: "live ?w = live w - {i}" using na by (auto simp: w' live_def)
    obtain P where P: "dir_ok ev (w_capacity w) nd P (w_dir w)" "live w \<subseteq> P" "P \<subseteq> insert 0 (live w)" and nd0: "nd 0 = []"
      using ok by (auto simp: wal_ok_def files_ok_def)
    have i0: "i \<noteq> 0" using ok s by (auto simp: wal_ok_def live_def)
    have "files_ok ev nd ?w" unfolding files_ok_def live
      using dir_remove [OF P(1), of i] P(2,3) nd0 i0 by (intro conjI exI [of _ "P - {i}"]) (auto simp: w')
    moreover have "segs_ok (w_sealed ?w)"
      using so dist by (auto simp: w' segs_ok_def distinct_map intro: inj_on_subset dest: notin_set_remove1)
    moreover have "active_holds (e_xxh64 ev) (nd (as_segment_id (w_active w))) (w_active w) (w_dir ?w)"
      using ok na map_of_drop_key [of "seg_name i" "w_dir w" "seg_name (as_segment_id (w_active w))"]
      by (simp add: wal_ok_def active_holds_def w' seg_holds_def file_of_def)
    moreover have "pend_ok ev nd (live w - {i}) ?w" using gone by (subst pend_ok_cong [of _ w]) (simp_all add: w')
    ultimately have "wal_ok ev nd ?w" using ok rest unfolding wal_ok_def live by (auto simp: w')
    then show ?thesis using live by (auto simp: w')
  qed
  then show "wal_ok ev nd ?w" "live ?w \<subseteq> live w" "w_pending ?w = w_pending w" "w_next ?w = w_next w" "w_active ?w = w_active w"
    by blast+
qed

lemma mark_materialized_ok:
  fixes b k v :: string
  assumes ok: "wal_ok ev nd w"
  defines "w' \<equiv> mark_materialized_versioned b k v w"
  shows "wal_ok ev nd w'" and "map_of (w_pending w') = (map_of (w_pending w))((b, k, v) := None)"
    and "live w' \<subseteq> live w" and "w_next w' = w_next w"
proof -
  have "wal_ok ev nd w' \<and> map_of (w_pending w') = (map_of (w_pending w))((b, k, v) := None) \<and> live w' \<subseteq> live w \<and> w_next w' = w_next w"
  proof (cases "map_of (w_pending w) (b, k, v)")
    case None
    then show ?thesis using ok by (auto simp: w'_def mark_materialized_versioned_def)
  next
    case (Some e)
    let ?i = "we_segment_id e" and ?ps = "AList.delete (b, k, v) (w_pending w)"
    have po: "pend_ok ev nd (live w) w" using ok by (simp add: wal_ok_def)
    obtain c where c: "map_of (w_counts w) ?i = Some (Suc c)"
      and pos: "c \<noteq> 0 \<Longrightarrow> pend_ok ev nd (live w) (w\<lparr> w_pending := ?ps, w_counts := AList.update ?i c (w_counts w) \<rparr>)"
      and zero: "c = 0 \<Longrightarrow> pend_ok ev nd (live w - {?i}) (w\<lparr> w_pending := ?ps, w_counts := AList.delete ?i (w_counts w) \<rparr>)"
      using pend_ok_mark [OF po Some] by blast
    have del: "map_of ?ps = (map_of (w_pending w))((b, k, v) := None)" by (auto simp: delete_conv')
    show ?thesis
    proof (cases "c = 0")
      case True
      let ?w1 = "w\<lparr> w_pending := ?ps, w_counts := AList.delete ?i (w_counts w) \<rparr>"
      have "pend_ok ev nd (live w) ?w1" by (rule pend_ok_nd [OF zero [OF True]]) auto
      then have w1: "wal_ok ev nd ?w1" by (rule wal_ok_fewer_pending [OF ok])
      have "live ?w1 = live w" by (simp add: live_def)
      then have "pend_ok ev nd (live ?w1 - {?i}) ?w1" using zero [OF True] by simp
      note t = try_delete_segment_ok [OF w1 this]
      have "w' = try_delete_segment ?i ?w1" using Some c True by (simp add: w'_def mark_materialized_versioned_def Let_def)
      then show ?thesis using t del \<open>live ?w1 = live w\<close> by simp
    next
      case False
      then have "w' = w\<lparr> w_pending := ?ps, w_counts := AList.update ?i c (w_counts w) \<rparr>"
        using Some c by (simp add: w'_def mark_materialized_versioned_def Let_def)
      then show ?thesis using wal_ok_fewer_pending [OF ok pos [OF False]] del by (simp add: live_def)
    qed
  qed
  then show "wal_ok ev nd w'" "map_of (w_pending w') = (map_of (w_pending w))((b, k, v) := None)" "live w' \<subseteq> live w"
    "w_next w' = w_next w" by blast+
qed

definition all_needles :: "(u32 \<Rightarrow> needle list) \<Rightarrow> wal \<Rightarrow> needle set" where
  "all_needles nd w = (\<Union>i \<in> live w. set (nd i))"

lemma wal_ok_next_pos: "wal_ok ev nd w \<Longrightarrow> 0 < w_next w"
  by (auto simp: wal_ok_def live_def intro: order.strict_trans)

text \<open>What an append does: the needle is in a live segment and pending, or the log only rotated.\<close>

lemma wal_append_ok:
  assumes ok: "wal_ok ev nd w" and fit: "needle_fits n" and room: "w_next w < 0xFFFFFFFF"
    and app: "wal_append ev now n w = (r, w')"
  shows "\<exists>nd'. wal_ok ev nd' w' \<and> live w \<subseteq> live w' \<and> live w' \<subseteq> insert (w_next w) (live w) \<and> w_next w \<le> w_next w'
     \<and> (\<forall>i \<in> live w. \<exists>ms. nd' i = nd i @ ms)
     \<and> (case r of Inl _ \<Rightarrow> w_pending w' = w_pending w \<and> all_needles nd' w' \<subseteq> all_needles nd w
        | Inr e \<Rightarrow> map_of (w_pending w') = (map_of (w_pending w))(needle_key n \<mapsto> e)
            \<and> all_needles nd' w' \<subseteq> insert n (all_needles nd w) \<and> we_segment_id e \<in> live w'
            \<and> points_to ev (nd' (we_segment_id e)) e n)"
proof (cases "try_append ev n w")
  case (Pair r1 w1)
  show ?thesis
  proof (cases r1)
    case (Some e)
    note t = try_append_Some [OF ok fit, of e w1] and a = live_def [of w]
    have r: "r = Inr e" "w' = w1" using app Pair Some by (simp_all add: wal_append_def)
    show ?thesis using t Pair Some a
      by (intro exI [of _ "nd(as_segment_id (w_active w) := nd (as_segment_id (w_active w)) @ [n])"])
        (auto simp: r all_needles_def split: if_splits)
  next
    case None
    then have w1: "w1 = w" using Pair try_append_None by blast
    note rot = rotate_active_ok [OF ok room wal_ok_next_pos [OF ok], of now]
    let ?i = "w_next w" and ?nd = "nd(w_next w := [])" and ?w = "rotate_active now w"
    have fresh: "?i \<notin> live w" using ok by (auto simp: wal_ok_def)
    have nx: "?i \<le> w_next ?w" using rot(4) less_inc [OF room order_refl] by simp
    obtain r2 w2 where t2: "try_append ev n ?w = (r2, w2)" by fastforce
    show ?thesis
    proof (cases r2)
      case (Some e)
      have r: "r = Inr e" "w' = w2" using app Pair None Some w1 t2 by (simp_all add: wal_append_def)
      note t = try_append_Some [OF rot(1) fit, of e w2]
      show ?thesis using t t2 Some rot fresh nx
        by (intro exI [of _ "?nd(?i := [n])"]) (auto simp: r all_needles_def split: if_splits)
    next
      case None
      then have r: "w' = ?w" "\<exists>x. r = Inl x"
        using app Pair \<open>r1 = None\<close> w1 t2 try_append_None [of ev n ?w w2] by (auto simp: wal_append_def)
      show ?thesis using r rot fresh nx
        by (intro exI [of _ ?nd]) (auto simp: all_needles_def split: if_splits, blast)
    qed
  qed
qed

section \<open>Reopening\<close>

definition covered :: "env \<Rightarrow> path \<Rightarrow> files \<Rightarrow> needle list \<Rightarrow> wal \<Rightarrow> bool" where
  "covered ev root fs ns w \<longleftrightarrow> (\<forall>n \<in> set ns. \<not> dest_exists ev root fs (n_bucket n) (n_key n) (n_version_id n)
     \<longrightarrow> map_of (w_pending w) (needle_key n) \<noteq> None)"

definition no_tombstones :: "needle list \<Rightarrow> bool" where
  "no_tombstones ns = list_all (\<lambda>n. n_flags n \<noteq> FLAG_DELETE) ns"

text \<open>What a scan of segment \<open>i\<close> leaves alone.\<close>

definition same_files :: "u32 \<Rightarrow> wal \<Rightarrow> wal \<Rightarrow> bool" where
  "same_files i w w' \<longleftrightarrow> w_dir w' = w_dir w \<and> w_active w' = w_active w \<and> w_sealed w' = w_sealed w
     \<and> w_next w' = w_next w \<and> w_capacity w' = w_capacity w \<and> (\<forall>j. j \<noteq> i \<longrightarrow> count_of w' j = count_of w j)"

lemma same_files_trans: "same_files i w w1 \<Longrightarrow> same_files i w1 w2 \<Longrightarrow> same_files i w w2"
  by (simp add: same_files_def)

lemma view_at_fields [simp]:
  "nv_flags (fst (view_at off n)) = n_flags n" "nv_bucket (fst (view_at off n)) = n_bucket n"
  "nv_key (fst (view_at off n)) = n_key n" "nv_version_id (fst (view_at off n)) = n_version_id n"
  "nv_data_offset (fst (view_at off n)) = off + nv_data_offset (view_of n)" "nv_data_len (fst (view_at off n)) = length (n_data n)"
  "nv_meta_offset (fst (view_at off n)) = off + nv_meta_offset (view_of n)" "nv_meta_len (fst (view_at off n)) = length (n_meta_bytes n)"
  by (simp_all add: view_at_def view_of_def Let_def)

lemma recover_entry_ok:
  fixes root :: path and fs :: files
  assumes po: "pend_ok ev nd I w" and i: "ss_segment_id seg = i" "i \<in> I" and nd: "nd i = xs @ n # ys"
  defines "w' \<equiv> recover_entry ev root fs seg (view_at (seg_end (e_xxh64 ev) xs) n) w"
  shows "pend_ok ev nd I w'" and "same_files i w w'"
    and "n_flags n \<noteq> FLAG_DELETE \<Longrightarrow> map_of (w_pending w) k \<noteq> None \<Longrightarrow> map_of (w_pending w') k \<noteq> None"
    and "n_flags n \<noteq> FLAG_DELETE \<Longrightarrow> covered ev root fs [n] w'"
proof -
  let ?off = "seg_end (e_xxh64 ev) xs"
  let ?e = "\<lambda>c. \<lparr> we_segment_id = i, we_data_offset = word_of_nat (?off + nv_data_offset (view_of n)),
      we_data_len = word_of_nat (length (n_data n)), we_meta_offset = word_of_nat (?off + nv_meta_offset (view_of n)),
      we_meta_len = word_of_nat (length (n_meta_bytes n)), we_created_at = c \<rparr>"
  have pt: "points_to ev (nd i) (?e c) n" for c
    unfolding points_to_def nd by (intro exI [of _ xs] exI [of _ ys]) simp
  consider "n_flags n = FLAG_DELETE" "w' = w\<lparr> w_pending := AList.delete (needle_key n) (w_pending w) \<rparr>"
    | "n_flags n \<noteq> FLAG_DELETE" "dest_exists ev root fs (n_bucket n) (n_key n) (n_version_id n)" "w' = w"
    | c where "n_flags n \<noteq> FLAG_DELETE" "\<not> dest_exists ev root fs (n_bucket n) (n_key n) (n_version_id n)"
        "w' = add_pending (needle_key n) (?e c) w"
    unfolding w'_def recover_entry_def case_prod_beta
    by (auto simp: Let_def needle_key_def i simp del: of_nat_add split: if_splits)
  then have "pend_ok ev nd I w' \<and> same_files i w w'
      \<and> (n_flags n \<noteq> FLAG_DELETE \<longrightarrow> (map_of (w_pending w) k \<noteq> None \<longrightarrow> map_of (w_pending w') k \<noteq> None) \<and> covered ev root fs [n] w')"
  proof cases
    case 1
    then show ?thesis using pend_ok_delete [OF po, of "needle_key n"] by (simp add: same_files_def count_of_def)
  next
    case 2
    then show ?thesis using po by (simp add: same_files_def covered_def)
  next
    case (3 c)
    have "pend_ok ev nd I (add_pending (needle_key n) (?e c) w)" by (rule pend_ok_add [OF po]) (use i pt in simp_all)
    then show ?thesis using 3 by (auto simp: same_files_def covered_def count_of_add simp del: of_nat_add)
  qed
  then show "pend_ok ev nd I w'" "same_files i w w'"
    "n_flags n \<noteq> FLAG_DELETE \<Longrightarrow> map_of (w_pending w) k \<noteq> None \<Longrightarrow> map_of (w_pending w') k \<noteq> None"
    "n_flags n \<noteq> FLAG_DELETE \<Longrightarrow> covered ev root fs [n] w'" by blast+
qed

lemma recover_entries_ok:
  fixes root :: path and fs :: files
  assumes "pend_ok ev nd I w" and "ss_segment_id seg = i" and "i \<in> I" and "nd i = xs @ ns"
  shows "let w' = fold (recover_entry ev root fs seg) (views_from (seg_end (e_xxh64 ev) xs) ns) w in
    pend_ok ev nd I w' \<and> same_files i w w'
    \<and> (no_tombstones ns \<longrightarrow> dom (map_of (w_pending w)) \<subseteq> dom (map_of (w_pending w')) \<and> covered ev root fs ns w')"
  using assms unfolding Let_def
proof (induction ns arbitrary: xs w)
  case Nil
  then show ?case by (simp add: same_files_def covered_def)
next
  case (Cons n ns)
  let ?w1 = "recover_entry ev root fs seg (view_at (seg_end (e_xxh64 ev) xs) n) w"
  note e = recover_entry_ok [OF Cons.prems(1-3), where xs = xs and n = n and ys = ns and root = root and fs = fs]
  have nd: "nd i = (xs @ [n]) @ ns" and nd': "nd i = xs @ n # ns" using Cons.prems(4) by simp_all
  have off: "seg_end (e_xxh64 ev) xs + serialized_size n = seg_end (e_xxh64 ev) (xs @ [n])" by (simp add: seg_end_def)
  note ih = Cons.IH [OF e(1) [OF nd'] Cons.prems(2,3) nd]
  show ?case unfolding views_from.simps fold_Cons comp_apply off
  proof (intro conjI impI)
    assume nt: "no_tombstones (n # ns)"
    then have n: "n_flags n \<noteq> FLAG_DELETE" and ns: "no_tombstones ns" by (simp_all add: no_tombstones_def)
    from ih ns have d: "dom (map_of (w_pending ?w1)) \<subseteq> dom (map_of (w_pending (fold (recover_entry ev root fs seg) (views_from (seg_end (e_xxh64 ev) (xs @ [n])) ns) ?w1)))"
      and c: "covered ev root fs ns (fold (recover_entry ev root fs seg) (views_from (seg_end (e_xxh64 ev) (xs @ [n])) ns) ?w1)"
      by blast+
    show "dom (map_of (w_pending w)) \<subseteq> dom (map_of (w_pending (fold (recover_entry ev root fs seg) (views_from (seg_end (e_xxh64 ev) (xs @ [n])) ns) ?w1)))"
      using d e(3) [OF nd' n] by blast
    show "covered ev root fs (n # ns) (fold (recover_entry ev root fs seg) (views_from (seg_end (e_xxh64 ev) (xs @ [n])) ns) ?w1)"
      using c d e(4) [OF nd' n] by (fastforce simp: covered_def)
  qed (use ih e(2) [OF nd'] same_files_trans in blast)+
qed

text \<open>The state of a recovery that still has the segments \<open>T\<close> to scan.\<close>

definition sealed_ids :: "wal \<Rightarrow> u32 set" where
  "sealed_ids w = ss_segment_id ` set (w_sealed w)"

definition rec_ok :: "env \<Rightarrow> (u32 \<Rightarrow> needle list) \<Rightarrow> u32 set \<Rightarrow> wal \<Rightarrow> bool" where
  "rec_ok ev nd T w \<longleftrightarrow> dir_ok ev (w_capacity w) nd (T \<union> sealed_ids w) (w_dir w) \<and> segs_ok (w_sealed w)
     \<and> T \<inter> sealed_ids w = {} \<and> (\<forall>i \<in> sealed_ids w. 0 < i \<and> i < w_next w)
     \<and> pend_ok ev nd (sealed_ids w) w \<and> (\<forall>i \<in> T. count_of w i = 0) \<and> 2 \<le> w_next w \<and> w_next w \<le> 0xFFFFFFFE"

lemma recover_file_ok:
  fixes root :: path and fs :: files
  assumes ok: "rec_ok ev nd T w" and i: "i \<in> T" and lim: "i \<le> 0xFFFFFFFD" and nd0: "nd 0 = []"
  defines "w' \<equiv> recover_file ev root fs (seg_name i) w"
  shows "rec_ok ev nd (T - {i}) w'" and "w_capacity w' = w_capacity w"
    and "no_tombstones (nd i) \<Longrightarrow> dom (map_of (w_pending w)) \<subseteq> dom (map_of (w_pending w')) \<and> covered ev root fs (nd i) w'"
    and "sealed_ids w' \<subseteq> insert i (sealed_ids w)"
proof -
  let ?h = "e_xxh64 ev"
  let ?seg = "\<lparr> ss_segment_id = i, ss_path = seg_name i, ss_size = seg_end ?h (nd i) \<rparr>"
  have holds: "seg_holds ?h i (nd i) (w_dir w)" using ok i by (auto simp: rec_ok_def dir_ok_def)
  note so = sealed_open_holds [OF holds]
  define w1 where "w1 = (if i \<ge> w_next w then w\<lparr> w_next := i + 1 \<rparr> else w)"
  define w2 where "w2 = recover_segment ev root fs ?seg w1"
  have w1: "w_dir w1 = w_dir w" "w_active w1 = w_active w" "w_sealed w1 = w_sealed w" "w_pending w1 = w_pending w"
    "w_counts w1 = w_counts w" "w_capacity w1 = w_capacity w" by (simp_all add: w1_def)
  have "i < 0xFFFFFFFE" using lim by (simp add: word_le_nat_alt word_less_nat_alt)
  then have inc: "i < i + 1" "i + 1 \<le> 0xFFFFFFFE" using less_inc [of i "0xFFFFFFFE" i] inc_le [of i "0xFFFFFFFE"] by auto
  have next1: "i < w_next w1" "w_next w \<le> w_next w1" "w_next w1 \<le> 0xFFFFFFFE"
    using inc ok by (auto simp: w1_def rec_ok_def)
  have w2: "w2 = fold (recover_entry ev root fs ?seg) (views_from (seg_end ?h []) (nd i)) w1"
    using so(2) by (simp add: w2_def recover_segment_def w1 seg_end_def)
  have "pend_ok ev nd (insert i (sealed_ids w)) w1"
    by (subst pend_ok_cong [of _ w]) (use ok pend_ok_nd [of ev nd "sealed_ids w" w nd "insert i (sealed_ids w)"] in \<open>auto simp: rec_ok_def w1\<close>)
  note re = recover_entries_ok [OF this, of ?seg i "[]" "nd i" root fs, unfolded Let_def, folded w2, simplified]
  then have p2: "pend_ok ev nd (insert i (sealed_ids w)) w2" and sf: "same_files i w1 w2"
    and cov: "no_tombstones (nd i) \<Longrightarrow> dom (map_of (w_pending w)) \<subseteq> dom (map_of (w_pending w2)) \<and> covered ev root fs (nd i) w2"
    by (simp_all add: w1)
  have f2: "w_dir w2 = w_dir w" "w_sealed w2 = w_sealed w" "w_next w2 = w_next w1" "w_capacity w2 = w_capacity w"
    and cnt: "\<And>j. j \<noteq> i \<Longrightarrow> count_of w2 j = count_of w j" using sf w1 by (simp_all add: same_files_def count_of_def)
  have w': "w' = (if count_of w2 i > 0 then w2\<lparr> w_sealed := w_sealed w2 @ [?seg] \<rparr>
      else w2\<lparr> w_dir := filter (\<lambda>(nm, bs). nm \<noteq> seg_name i) (w_dir w2) \<rparr>)"
    using so(1) by (simp add: w'_def recover_file_def Let_def w2_def w1_def)
  have ni: "i \<notin> sealed_ids w" using ok i by (auto simp: rec_ok_def)
  have zero: "i = 0 \<Longrightarrow> count_of w2 i = 0"
    using nd0 ok i by (simp add: w2 rec_ok_def count_of_def w1)
  have old: "\<forall>j \<in> sealed_ids w. 0 < j \<and> j < w_next w1" using ok next1 by (auto simp: rec_ok_def)
  show "w_capacity w' = w_capacity w" "sealed_ids w' \<subseteq> insert i (sealed_ids w)"
    "no_tombstones (nd i) \<Longrightarrow> dom (map_of (w_pending w)) \<subseteq> dom (map_of (w_pending w')) \<and> covered ev root fs (nd i) w'"
    using cov by (auto simp: w' f2 sealed_ids_def covered_def)
  show "rec_ok ev nd (T - {i}) w'"
  proof (cases "count_of w2 i > 0")
    case True
    have ids: "sealed_ids w' = insert i (sealed_ids w)" using True by (auto simp: w' f2 sealed_ids_def)
    have "T - {i} \<union> insert i (sealed_ids w) = T \<union> sealed_ids w" using i by auto
    moreover have "segs_ok (w_sealed w @ [?seg])" using ok ni by (auto simp: rec_ok_def segs_ok_def sealed_ids_def)
    moreover have "pend_ok ev nd (insert i (sealed_ids w)) w'"
      using p2 by (subst pend_ok_cong [of _ w2]) (simp_all add: w')
    moreover have "0 < i" using zero True by (auto simp: word_gt_0)
    moreover have "\<forall>j \<in> T - {i}. count_of w' j = 0" using ok cnt True by (auto simp: rec_ok_def w' count_of_def)
    ultimately show ?thesis using ok True old next1
      unfolding rec_ok_def ids by (auto simp: w' f2)
  next
    case False
    have ids: "sealed_ids w' = sealed_ids w" using False by (simp add: w' f2 sealed_ids_def)
    have "pend_in i (w_pending w2) \<le> count_of w2 i" using p2 by (simp add: pend_ok_def)
    then have "pend_in i (w_pending w2) = 0" using False by simp
    then have none: "we_segment_id e \<noteq> i" if "map_of (w_pending w2) k = Some e" for k e
      using map_of_SomeD [OF that] by (auto simp: pend_in_0)
    have "pend_ok ev nd (sealed_ids w) w2" using p2 none unfolding pend_ok_def by blast
    then have "pend_ok ev nd (sealed_ids w) w'" using False by (subst pend_ok_cong [of _ w2]) (simp_all add: w')
    moreover have "(T \<union> sealed_ids w) - {i} = T - {i} \<union> sealed_ids w" using ni by auto
    then have "dir_ok ev (w_capacity w) nd (T - {i} \<union> sealed_ids w) (filter (\<lambda>(nm, bs). nm \<noteq> seg_name i) (w_dir w))"
      using dir_remove [of ev "w_capacity w" nd "T \<union> sealed_ids w" "w_dir w" i] ok by (simp add: rec_ok_def)
    moreover have "\<forall>j \<in> T - {i}. count_of w' j = 0" using ok cnt False by (auto simp: rec_ok_def w' count_of_def)
    ultimately show ?thesis using ok False old next1 unfolding rec_ok_def ids by (auto simp: w' f2)
  qed
qed

lemma covered_mono: "covered ev root fs ns w \<Longrightarrow> dom (map_of (w_pending w)) \<subseteq> dom (map_of (w_pending w')) \<Longrightarrow> covered ev root fs ns w'"
  unfolding covered_def by (meson domIff subsetD)

lemma recover_files_ok:
  fixes root :: path and fs :: files
  assumes "rec_ok ev nd (set is) w" and "distinct is" and "\<forall>i \<in> set is. i \<le> 0xFFFFFFFD" and "nd 0 = []"
  shows "let w' = fold (recover_file ev root fs) (map seg_name is) w in
    rec_ok ev nd {} w' \<and> w_capacity w' = w_capacity w \<and> sealed_ids w' \<subseteq> set is \<union> sealed_ids w
    \<and> ((\<forall>i \<in> set is. no_tombstones (nd i)) \<longrightarrow> dom (map_of (w_pending w)) \<subseteq> dom (map_of (w_pending w'))
        \<and> (\<forall>i \<in> set is. covered ev root fs (nd i) w'))"
  using assms unfolding Let_def
proof (induction "is" arbitrary: w)
  case Nil
  then show ?case by simp
next
  case (Cons i js)
  let ?w1 = "recover_file ev root fs (seg_name i) w"
  have i: "i \<in> set (i # js)" "i \<le> 0xFFFFFFFD" using Cons.prems(3) by simp_all
  note r = recover_file_ok [OF Cons.prems(1) i Cons.prems(4), of root fs]
  have "set (i # js) - {i} = set js" using Cons.prems(2) by auto
  then have r1: "rec_ok ev nd (set js) ?w1" using r(1) by simp
  note ih = Cons.IH [OF r1 _ _ Cons.prems(4)]
  show ?case using ih r(2-4) Cons.prems(2,3) covered_mono [of ev root fs "nd i" ?w1] by (auto; blast)
qed

lemma has_dat_seg_name: "has_dat_extension (seg_name i)"
  by (simp add: has_dat_extension_def seg_name_def Let_def)

lemma dir_ids:
  assumes "dir_ok ev cap nd P d"
  shows "\<exists>is. map fst d = map seg_name is \<and> distinct is \<and> set is = P"
proof -
  have "\<forall>x \<in> set (map fst d). \<exists>i. x = seg_name i" using assms by (auto simp: dir_ok_def)
  then obtain ks where ks: "map fst d = map seg_name ks" by (metis ex_map_conv)
  have "distinct (map seg_name ks)" using assms ks bt_ok_distinct by (metis dir_ok_def)
  then have "distinct ks" by (simp add: distinct_map)
  moreover have "seg_name ` set ks = seg_name ` P" using assms ks by (metis dir_ok_def list.set_map)
  then have "set ks = P" by (auto simp: set_eq_iff) (metis seg_name_mem)+
  ultimately show ?thesis using ks by blast
qed

text \<open>
  Reopening a directory gives a log in good order whose needles were there before, and every
  needle that is not in the file tier is pending again.
\<close>

lemma wal_open_ok:
  fixes root :: path and fs :: files
  assumes d: "dir_ok ev cap nd P d" and nd0: "nd 0 = []" and lim: "\<forall>i \<in> P. i \<le> 0xFFFFFFFD"
    and cap: "SUPERBLOCK_SIZE \<le> cap" "cap < 2 ^ 32"
  shows "\<exists>nd'. let w = wal_open ev root fs now cap d in wal_ok ev nd' w \<and> w_capacity w = cap
     \<and> all_needles nd' w \<subseteq> (\<Union>i \<in> P. set (nd i)) \<and> live w - {as_segment_id (w_active w)} \<subseteq> insert 1 P
     \<and> ((\<forall>i \<in> P. no_tombstones (nd i)) \<longrightarrow> (\<forall>i \<in> P. covered ev root fs (nd i) w))"
proof -
  obtain act d0 where c0: "segment_create now 1 cap d = (act, d0)" by fastforce
  define nd1 where "nd1 = (if 1 \<in> P then nd else nd(1 := []))"
  have d0: "dir_ok ev cap nd1 (insert 1 P) d0"
    using dir_create_old [OF d _ c0] dir_create_new(1) [OF d _ cap c0] by (auto simp: nd1_def insert_absorb)
  obtain ks where ks: "map fst d0 = map seg_name ks" "distinct ks" "set ks = insert 1 P" using dir_ids [OF d0] by blast
  have names: "filter has_dat_extension (map fst d0) = map seg_name ks"
    unfolding ks(1) by (simp add: filter_id_conv has_dat_seg_name)
  define w0 where "w0 = \<lparr> w_dir = d0, w_active = act, w_sealed = [], w_pending = [], w_counts = [], w_next = 2, w_capacity = cap \<rparr>"
  define w1 where "w1 = fold (recover_file ev root fs) (map seg_name ks) w0"
  have "rec_ok ev nd1 (set ks) w0" using d0 ks(3)
    by (simp add: rec_ok_def w0_def sealed_ids_def segs_ok_def pend_ok_def count_of_def pend_in_def)
  moreover have "\<forall>i \<in> set ks. i \<le> 0xFFFFFFFD" using lim ks(3) by simp
  moreover have nd10: "nd1 0 = []" using nd0 by (simp add: nd1_def)
  ultimately have r: "rec_ok ev nd1 {} w1" "w_capacity w1 = cap" "sealed_ids w1 \<subseteq> insert 1 P"
    and cov: "(\<forall>i \<in> insert 1 P. no_tombstones (nd1 i)) \<Longrightarrow> \<forall>i \<in> insert 1 P. covered ev root fs (nd1 i) w1"
    using recover_files_ok [of ev nd1 ks w0 root fs, OF _ ks(2), unfolded Let_def] ks(3)
    by (simp_all flip: w1_def) (simp_all add: w0_def sealed_ids_def)
  let ?a = "w_next w1"
  obtain act1 d1 where c1: "segment_create now ?a cap (w_dir w1) = (act1, d1)" by fastforce
  have w: "wal_open ev root fs now cap d = w1\<lparr> w_next := ?a + 1, w_active := act1, w_dir := d1 \<rparr>"
    using c1 by (simp add: wal_open_def c0 names Let_def flip: w0_def w1_def)
  let ?w = "w1\<lparr> w_next := ?a + 1, w_active := act1, w_dir := d1 \<rparr>" and ?nd = "nd1(?a := [])"
  have dw: "dir_ok ev cap nd1 (sealed_ids w1) (w_dir w1)" and new: "?a \<notin> sealed_ids w1" using r by (auto simp: rec_ok_def)
  note act = dir_create_new [OF dw new cap c1]
  have live: "live ?w = insert ?a (sealed_ids w1)" using act(3) by (simp add: live_def sealed_ids_def)
  have a: "2 \<le> ?a" "?a < 0xFFFFFFFF" using r(1) by (auto simp: rec_ok_def word_le_nat_alt word_less_nat_alt)
  then have a0: "0 < ?a" by (auto simp: word_le_nat_alt word_less_nat_alt)
  have "files_ok ev ?nd ?w" unfolding files_ok_def live using act(1) nd10 a0 r(2)
    by (intro conjI exI [of _ "insert ?a (sealed_ids w1)"]) auto
  moreover have "pend_ok ev ?nd (insert ?a (sealed_ids w1)) w1"
    by (rule pend_ok_nd [of ev nd1 "sealed_ids w1"]) (use r new in \<open>auto simp: rec_ok_def\<close>)
  then have "pend_ok ev ?nd (insert ?a (sealed_ids w1)) ?w" by (subst pend_ok_cong [of _ w1]) simp_all
  moreover have "\<forall>j \<in> insert ?a (sealed_ids w1). 0 < j \<and> j < ?a + 1"
    using r(1) a0 less_inc [OF a(2)] by (auto simp: rec_ok_def intro: order.strict_implies_order)
  ultimately have "wal_ok ev ?nd ?w" unfolding wal_ok_def live
    using r act cap new by (auto simp: rec_ok_def sealed_ids_def)
  moreover have "all_needles ?nd ?w \<subseteq> (\<Union>i \<in> P. set (nd i))"
    unfolding all_needles_def live using r(3) by (auto simp: nd1_def split: if_splits, blast)
  moreover have "\<forall>i \<in> P. covered ev root fs (nd i) ?w" if "\<forall>i \<in> P. no_tombstones (nd i)"
  proof -
    have "\<forall>i \<in> insert 1 P. no_tombstones (nd1 i)" using that by (auto simp: nd1_def no_tombstones_def)
    from cov [OF this] show ?thesis by (auto simp: nd1_def covered_def split: if_splits)
  qed
  ultimately show ?thesis unfolding Let_def w using r(2,3) act(3) live by (intro exI [of _ ?nd]) auto
qed

end
