(* ===== verification/Local_Volume.thy ===== *)
theory Local_Volume
  imports Wal_Inv
begin

text \<open>
  A volume on a local disk (\<open>src/storage/local_volume.rs\<close>): shards, metadata, versions
  and bucket settings in the file tier, with the write-ahead log in front of it for small
  objects.  The record holds the fields of \<open>LocalVolume\<close> together with the files below
  its root and the requests that wait in the channels of the materialize workers.  Whether
  a channel has room is an argument of the operations that send to it.
\<close>

section \<open>State\<close>

record local_volume =
  lv_root :: path
  lv_volume_id :: string
  lv_wal :: "wal option"
  lv_threshold :: nat
  lv_files :: files
  lv_queue :: "materialize_request list"

definition DEFAULT_WAL_THRESHOLD :: nat where "DEFAULT_WAL_THRESHOLD = 64 * 1024"
definition DEFAULT_SEGMENT_SIZE :: nat where "DEFAULT_SEGMENT_SIZE = 64 * 1024 * 1024"
definition WAL_STREAMING_PROMOTE_BYTES :: nat where "WAL_STREAMING_PROMOTE_BYTES = 1024 * 1024"

definition lv_new :: "path \<Rightarrow> string option \<Rightarrow> files \<Rightarrow> storage_error + local_volume" where
  "lv_new root stored_id fs =
     (if \<not> is_dir fs root then Inl (InvalidConfig ''disk path does not exist'')
      else case create_dir_all (push root ''.abixio.tmp'') fs of
          (Inl e, _) \<Rightarrow> Inl e
        | (Inr _, fs') \<Rightarrow> Inr \<lparr> lv_root = root, lv_volume_id = (case stored_id of Some i \<Rightarrow> i | None \<Rightarrow> []),
             lv_wal = None, lv_threshold = DEFAULT_WAL_THRESHOLD, lv_files = fs', lv_queue = [] \<rparr>)"

text \<open>\<open>enable_wal_with_config\<close> with \<open>recover_wal\<close>: the requests of the recovery
  are sent with a waiting send, so none is lost.\<close>

definition enable_wal_with_config :: "env \<Rightarrow> u64 \<Rightarrow> nat \<Rightarrow> nat \<Rightarrow> seg_dir \<Rightarrow> local_volume \<Rightarrow> local_volume" where
  "enable_wal_with_config ev now capacity threshold d v =
     (if lv_wal v \<noteq> None then v
      else let w = wal_open ev (lv_root v) (lv_files v) now capacity d
           in v\<lparr> lv_threshold := threshold, lv_wal := Some w, lv_queue := lv_queue v @ drain_recovery_requests w \<rparr>)"

definition enable_wal :: "env \<Rightarrow> u64 \<Rightarrow> seg_dir \<Rightarrow> local_volume \<Rightarrow> local_volume" where
  "enable_wal ev now d v = enable_wal_with_config ev now DEFAULT_SEGMENT_SIZE DEFAULT_WAL_THRESHOLD d v"

text \<open>Running a file operation on the files of the volume.\<close>

definition on_files :: "(files \<Rightarrow> (storage_error + 'a) \<times> files) \<Rightarrow> local_volume \<Rightarrow> (storage_error + 'a) \<times> local_volume" where
  "on_files f v = (case f (lv_files v) of (r, fs) \<Rightarrow> (r, v\<lparr> lv_files := fs \<rparr>))"

lemma on_files_fields [simp]:
  "lv_root (snd (on_files f v)) = lv_root v" "lv_wal (snd (on_files f v)) = lv_wal v"
  "lv_threshold (snd (on_files f v)) = lv_threshold v" "lv_queue (snd (on_files f v)) = lv_queue v"
  "lv_files (snd (on_files f v)) = snd (f (lv_files v))" "fst (on_files f v) = fst (f (lv_files v))"
  by (simp_all add: on_files_def split: prod.splits)

section \<open>Reading through the log\<close>

definition read_shard_from_wal_versioned ::
  "env \<Rightarrow> local_volume \<Rightarrow> string \<Rightarrow> string \<Rightarrow> string \<Rightarrow> storage_error + (bytes \<times> object_meta) option" where
  "read_shard_from_wal_versioned ev v bucket key version_id = (case lv_wal v of
      None \<Rightarrow> Inr None
    | Some w \<Rightarrow> (case get_versioned w bucket key version_id of
          None \<Rightarrow> Inr None
        | Some entry \<Rightarrow> (case read_data w entry of
              None \<Rightarrow> Inl ObjectNotFound
            | Some data \<Rightarrow> res_bind (read_meta ev w entry) (\<lambda>meta. Inr (Some (data, meta))))))"

definition is_in_wal :: "local_volume \<Rightarrow> string \<Rightarrow> string \<Rightarrow> bool" where
  "is_in_wal v bucket key = (case lv_wal v of None \<Rightarrow> False | Some w \<Rightarrow> contains_versioned w bucket key [])"

section \<open>Object shards\<close>

text \<open>The object in the file tier: inline data, or the shard of the first live version.\<close>

definition strip_inline :: "object_meta \<Rightarrow> object_meta" where
  "strip_inline meta = meta\<lparr> om_inline_data := None \<rparr>"

definition read_file_tier ::
  "env \<Rightarrow> (object_meta \<Rightarrow> object_meta) \<Rightarrow> path \<Rightarrow> files \<Rightarrow> string \<Rightarrow> string \<Rightarrow> storage_error + bytes \<times> object_meta" where
  "read_file_tier ev shown root fs bucket key = res_bind (lift_path (object_dir root bucket key)) (\<lambda>obj_dir.
     if \<not> is_dir fs obj_dir then Inl ObjectNotFound
     else res_bind (lift_path (object_meta_path root bucket key)) (\<lambda>meta_path.
       case read_meta_file ev fs meta_path of
         None \<Rightarrow> Inl ObjectNotFound
       | Some mf \<Rightarrow> (case find (\<lambda>m. \<not> om_is_delete_marker m) (mf_versions mf) of
           None \<Rightarrow> Inl ObjectNotFound
         | Some version \<Rightarrow> (case om_inline_data version of
             Some inline_b64 \<Rightarrow> (case e_b64_dec ev inline_b64 of
                 None \<Rightarrow> Inl (Internal ''inline base64 decode'')
               | Some data \<Rightarrow> Inr (data, shown version))
           | None \<Rightarrow> res_bind (lift_path (if om_version_id version = [] then object_shard_path root bucket key
                 else version_shard_path (e_is_uuid ev) root bucket key (om_version_id version))) (\<lambda>shard_path.
               case fs_read fs shard_path of None \<Rightarrow> Inl ObjectNotFound | Some data \<Rightarrow> Inr (data, version))))))"

definition read_shard :: "env \<Rightarrow> local_volume \<Rightarrow> string \<Rightarrow> string \<Rightarrow> storage_error + bytes \<times> object_meta" where
  "read_shard ev v bucket key = (case read_shard_from_wal_versioned ev v bucket key [] of
      Inr (Some dm) \<Rightarrow> Inr dm
    | _ \<Rightarrow> read_file_tier ev strip_inline (lv_root v) (lv_files v) bucket key)"

text \<open>\<open>read_shard_stream\<close> does not look at the log.\<close>

definition read_shard_stream :: "env \<Rightarrow> local_volume \<Rightarrow> string \<Rightarrow> string \<Rightarrow> storage_error + bytes \<times> object_meta" where
  "read_shard_stream ev v bucket key = read_file_tier ev strip_inline (lv_root v) (lv_files v) bucket key"

text \<open>\<open>mmap_shard\<close> hands out the metadata with the inline data in it.\<close>

definition mmap_shard :: "env \<Rightarrow> local_volume \<Rightarrow> string \<Rightarrow> string \<Rightarrow> storage_error + bytes \<times> object_meta" where
  "mmap_shard ev v bucket key = (case read_shard_from_wal_versioned ev v bucket key [] of
      Inr (Some dm) \<Rightarrow> Inr dm
    | _ \<Rightarrow> read_file_tier ev (\<lambda>m. m) (lv_root v) (lv_files v) bucket key)"

definition send_request :: "bool \<Rightarrow> materialize_request \<Rightarrow> local_volume \<Rightarrow> local_volume" where
  "send_request has_room req v = (if has_room then v\<lparr> lv_queue := lv_queue v @ [req] \<rparr> else v)"

definition wal_put ::
  "env \<Rightarrow> u64 \<Rightarrow> bool \<Rightarrow> wal \<Rightarrow> string \<Rightarrow> string \<Rightarrow> string \<Rightarrow> bytes \<Rightarrow> object_meta \<Rightarrow> local_volume
    \<Rightarrow> (storage_error + unit) \<times> local_volume" where
  "wal_put ev now has_room w bucket key version_id data meta v =
     (let n = needle_new (e_meta_enc ev) bucket key (if version_id = [] then None else Some version_id) meta data
      in case wal_append ev now n w of
          (Inl e, w') \<Rightarrow> (Inl e, v\<lparr> lv_wal := Some w' \<rparr>)
        | (Inr entry, w') \<Rightarrow> (Inr (), send_request has_room
             \<lparr> mr_bucket = bucket, mr_key = key, mr_version_id = version_id, mr_entry = entry \<rparr> (v\<lparr> lv_wal := Some w' \<rparr>)))"

definition write_shard ::
  "env \<Rightarrow> u64 \<Rightarrow> bool \<Rightarrow> string \<Rightarrow> string \<Rightarrow> bytes \<Rightarrow> object_meta \<Rightarrow> local_volume \<Rightarrow> (storage_error + unit) \<times> local_volume" where
  "write_shard ev now has_room bucket key data meta v =
     then_do (lift_path (validate_bucket_name bucket), v) (\<lambda>_ v.
     then_do (lift_path (validate_object_key key), v) (\<lambda>_ v.
     let is_versioned = (om_version_id meta \<noteq> []) in
     case (if length data \<le> lv_threshold v then lv_wal v else None) of
       Some w \<Rightarrow> wal_put ev now has_room w bucket key (om_version_id meta) data meta v
     | None \<Rightarrow>
         then_do (lift_path (object_dir (lv_root v) bucket key), v) (\<lambda>obj_dir v.
           if \<not> is_versioned \<and> unat (om_size meta) \<le> DEFAULT_WAL_THRESHOLD
           then on_files (\<lambda>fs. then_do (create_dir_all obj_dir fs) (\<lambda>_ fs.
                  write_meta_file ev (push obj_dir ''meta.json'')
                    (single_version bucket key (meta\<lparr> om_inline_data := Some (e_b64_enc ev data) \<rparr>)) fs)) v
           else on_files (write_object_files ev obj_dir data (single_version bucket key meta)) v)))"

definition delete_object :: "string \<Rightarrow> string \<Rightarrow> local_volume \<Rightarrow> (storage_error + unit) \<times> local_volume" where
  "delete_object bucket key v = (case (if is_in_wal v bucket key then lv_wal v else None) of
      Some w \<Rightarrow> (Inr (), v\<lparr> lv_wal := Some (mark_materialized_versioned bucket key [] w) \<rparr>)
    | None \<Rightarrow> then_do (lift_path (object_dir (lv_root v) bucket key), v) (\<lambda>obj_dir v.
        if \<not> is_dir (lv_files v) obj_dir then (Inl ObjectNotFound, v)
        else (Inr (), v\<lparr> lv_files := remove_dir_all obj_dir (lv_files v) \<rparr>)))"

definition stat_object :: "env \<Rightarrow> local_volume \<Rightarrow> string \<Rightarrow> string \<Rightarrow> storage_error + object_meta" where
  "stat_object ev v bucket key =
     (let from_files = res_bind (lift_path (object_dir (lv_root v) bucket key)) (\<lambda>obj_dir.
            if \<not> is_dir (lv_files v) obj_dir then Inl ObjectNotFound
            else res_bind (lift_path (object_meta_path (lv_root v) bucket key)) (\<lambda>meta_path.
              case read_meta_file ev (lv_files v) meta_path of
                None \<Rightarrow> Inl ObjectNotFound
              | Some mf \<Rightarrow> (case find (\<lambda>m. \<not> om_is_delete_marker m) (mf_versions mf) of
                  None \<Rightarrow> Inl ObjectNotFound | Some m \<Rightarrow> Inr (strip_inline m))))
      in case Option.bind (lv_wal v) (\<lambda>w. Option.bind (get_versioned w bucket key []) (\<lambda>e.
            case read_meta ev w e of Inr m \<Rightarrow> Some m | Inl _ \<Rightarrow> None)) of
          Some m \<Rightarrow> Inr m
        | None \<Rightarrow> from_files)"

text \<open>\<open>iter_mut().find\<close>: replace the first match.\<close>

fun replace_first :: "('a \<Rightarrow> bool) \<Rightarrow> 'a \<Rightarrow> 'a list \<Rightarrow> 'a list" where
  "replace_first P y [] = []"
| "replace_first P y (x # xs) = (if P x then y # xs else x # replace_first P y xs)"

definition update_meta :: "env \<Rightarrow> string \<Rightarrow> string \<Rightarrow> object_meta \<Rightarrow> local_volume \<Rightarrow> (storage_error + unit) \<times> local_volume" where
  "update_meta ev bucket key meta v =
     then_do (lift_path (object_dir (lv_root v) bucket key), v) (\<lambda>obj_dir v.
       if \<not> is_dir (lv_files v) obj_dir then (Inl ObjectNotFound, v)
       else then_do (lift_path (object_meta_path (lv_root v) bucket key), v) (\<lambda>meta_path v.
         case read_meta_file ev (lv_files v) meta_path of
           None \<Rightarrow> (Inl ObjectNotFound, v)
         | Some mf \<Rightarrow> on_files (write_meta_file ev meta_path (mf\<lparr> mf_versions := replace_first
             (\<lambda>m. em_index (om_erasure m) = em_index (om_erasure meta) \<or> om_version_id m = om_version_id meta)
             meta (mf_versions mf) \<rparr>)) v))"

section \<open>Parts\<close>

definition part_name :: "int \<Rightarrow> string" where
  "part_name n = ''part.'' @ (if n < 0 then ''-'' @ show_nat (nat (- n)) else show_nat (nat n))"

definition write_part_shard :: "string \<Rightarrow> string \<Rightarrow> int \<Rightarrow> bytes \<Rightarrow> local_volume \<Rightarrow> (storage_error + unit) \<times> local_volume" where
  "write_part_shard bucket key part_number data v =
     then_do (lift_path (object_dir (lv_root v) bucket key), v) (\<lambda>obj_dir v.
       on_files (\<lambda>fs. then_do (create_dir_all obj_dir fs) (\<lambda>_ fs. fs_write (push obj_dir (part_name part_number)) data fs)) v)"

definition read_part_shard :: "local_volume \<Rightarrow> string \<Rightarrow> string \<Rightarrow> int \<Rightarrow> storage_error + bytes" where
  "read_part_shard v bucket key part_number = res_bind (lift_path (object_dir (lv_root v) bucket key)) (\<lambda>obj_dir.
     case fs_read (lv_files v) (push obj_dir (part_name part_number)) of None \<Rightarrow> Inl ObjectNotFound | Some data \<Rightarrow> Inr data)"

definition write_meta_only :: "env \<Rightarrow> string \<Rightarrow> string \<Rightarrow> object_meta \<Rightarrow> local_volume \<Rightarrow> (storage_error + unit) \<times> local_volume" where
  "write_meta_only ev bucket key meta v =
     then_do (lift_path (object_dir (lv_root v) bucket key), v) (\<lambda>obj_dir v.
     then_do (on_files (create_dir_all obj_dir) v) (\<lambda>_ v.
     then_do (lift_path (object_meta_path (lv_root v) bucket key), v) (\<lambda>meta_path v.
       on_files (write_meta_file ev meta_path (single_version bucket key meta)) v)))"

section \<open>Versions\<close>

definition not_latest :: "object_meta \<Rightarrow> object_meta" where
  "not_latest m = m\<lparr> om_is_latest := False \<rparr>"

text \<open>A new version in front; \<open>write_versioned_shard\<close> and \<open>LocalShardWriter\<close> keep
  an older entry with the same version id.\<close>

definition push_version :: "object_meta_file \<Rightarrow> string \<Rightarrow> object_meta \<Rightarrow> object_meta_file" where
  "push_version mf version_id meta = mf\<lparr> mf_versions :=
     meta\<lparr> om_is_latest := True, om_version_id := version_id \<rparr> # map not_latest (mf_versions mf) \<rparr>"

definition write_versioned_shard ::
  "env \<Rightarrow> string \<Rightarrow> string \<Rightarrow> string \<Rightarrow> bytes \<Rightarrow> object_meta \<Rightarrow> local_volume \<Rightarrow> (storage_error + unit) \<times> local_volume" where
  "write_versioned_shard ev bucket key version_id data meta v =
     then_do (lift_path (version_dir (e_is_uuid ev) (lv_root v) bucket key version_id), v) (\<lambda>ver_dir v.
     then_do (on_files (create_dir_all ver_dir) v) (\<lambda>_ v.
     then_do (lift_path (version_shard_path (e_is_uuid ev) (lv_root v) bucket key version_id), v) (\<lambda>shard_path v.
     then_do (on_files (fs_write shard_path data) v) (\<lambda>_ v.
     then_do (lift_path (object_meta_path (lv_root v) bucket key), v) (\<lambda>meta_path v.
       on_files (write_meta_file ev meta_path
         (push_version (meta_or_empty ev (lv_files v) meta_path bucket key) version_id meta)) v)))))"

definition read_versioned_shard :: "env \<Rightarrow> local_volume \<Rightarrow> string \<Rightarrow> string \<Rightarrow> string \<Rightarrow> storage_error + bytes \<times> object_meta" where
  "read_versioned_shard ev v bucket key version_id = (case read_shard_from_wal_versioned ev v bucket key version_id of
      Inr (Some (data, meta)) \<Rightarrow> Inr (data, if om_version_id meta = [] then meta\<lparr> om_version_id := version_id \<rparr> else meta)
    | _ \<Rightarrow> res_bind (lift_path (object_meta_path (lv_root v) bucket key)) (\<lambda>meta_path.
        case read_meta_file ev (lv_files v) meta_path of
          None \<Rightarrow> Inl ObjectNotFound
        | Some mf \<Rightarrow> (case find (\<lambda>m. om_version_id m = version_id) (mf_versions mf) of
            None \<Rightarrow> Inl ObjectNotFound
          | Some version \<Rightarrow> res_bind (lift_path (version_shard_path (e_is_uuid ev) (lv_root v) bucket key version_id)) (\<lambda>shard_path.
              case fs_read (lv_files v) shard_path of None \<Rightarrow> Inl ObjectNotFound | Some data \<Rightarrow> Inr (data, version)))))"

definition first_latest :: "object_meta list \<Rightarrow> object_meta list" where
  "first_latest ms = (case ms of [] \<Rightarrow> [] | m # ms' \<Rightarrow> m\<lparr> om_is_latest := True \<rparr> # ms')"

definition delete_version_data :: "env \<Rightarrow> string \<Rightarrow> string \<Rightarrow> string \<Rightarrow> local_volume \<Rightarrow> (storage_error + unit) \<times> local_volume" where
  "delete_version_data ev bucket key version_id v =
     then_do (lift_path (version_dir (e_is_uuid ev) (lv_root v) bucket key version_id), v) (\<lambda>ver_dir v.
     let v1 = (if is_dir (lv_files v) ver_dir then v\<lparr> lv_files := remove_dir_all ver_dir (lv_files v) \<rparr> else v) in
     then_do (lift_path (object_meta_path (lv_root v1) bucket key), v1) (\<lambda>meta_path v.
       case read_meta_file ev (lv_files v) meta_path of
         None \<Rightarrow> (Inr (), v)
       | Some mf \<Rightarrow> (Inr (), snd (on_files (write_meta_file ev meta_path (mf\<lparr> mf_versions :=
           first_latest (filter (\<lambda>m. om_version_id m \<noteq> version_id) (mf_versions mf)) \<rparr>)) v))))"

definition merge_wal_version :: "env \<Rightarrow> wal \<Rightarrow> string \<Rightarrow> string \<Rightarrow> string \<Rightarrow> object_meta list \<Rightarrow> object_meta list" where
  "merge_wal_version ev w bucket key vid ms =
     (if vid = [] then ms
      else case get_versioned w bucket key vid of
          None \<Rightarrow> ms
        | Some entry \<Rightarrow> (case read_meta ev w entry of
              Inl _ \<Rightarrow> ms
            | Inr meta \<Rightarrow> not_latest (if om_version_id meta = [] then meta\<lparr> om_version_id := vid \<rparr> else meta)
                # filter (\<lambda>m. om_version_id m \<noteq> vid) ms))"

text \<open>Only the first version that is not a delete marker is the latest one.\<close>

fun mark_latest :: "bool \<Rightarrow> object_meta list \<Rightarrow> object_meta list" where
  "mark_latest seen [] = []"
| "mark_latest seen (m # ms) =
     (if seen then not_latest m # mark_latest True ms
      else if \<not> om_is_delete_marker m then m\<lparr> om_is_latest := True \<rparr> # mark_latest True ms
      else m # mark_latest False ms)"

definition read_meta_versions :: "env \<Rightarrow> local_volume \<Rightarrow> string \<Rightarrow> string \<Rightarrow> storage_error + object_meta list" where
  "read_meta_versions ev v bucket key = res_bind (lift_path (object_meta_path (lv_root v) bucket key)) (\<lambda>meta_path.
     let disk = (case read_meta_file ev (lv_files v) meta_path of Some mf \<Rightarrow> mf_versions mf | None \<Rightarrow> []);
         merged = (case lv_wal v of None \<Rightarrow> disk
                   | Some w \<Rightarrow> fold (merge_wal_version ev w bucket key) (versions_for w bucket key) disk)
     in Inr (mark_latest False merged))"

definition write_meta_versions :: "env \<Rightarrow> string \<Rightarrow> string \<Rightarrow> object_meta list \<Rightarrow> local_volume \<Rightarrow> (storage_error + unit) \<times> local_volume" where
  "write_meta_versions ev bucket key versions v =
     then_do (lift_path (object_dir (lv_root v) bucket key), v) (\<lambda>obj_dir v.
     then_do (on_files (create_dir_all obj_dir) v) (\<lambda>_ v.
     then_do (lift_path (object_meta_path (lv_root v) bucket key), v) (\<lambda>meta_path v.
       on_files (write_meta_file ev meta_path \<lparr> mf_bucket = bucket, mf_key = key, mf_versions = versions \<rparr>) v)))"

section \<open>Buckets and settings\<close>

definition make_bucket :: "string \<Rightarrow> local_volume \<Rightarrow> (storage_error + unit) \<times> local_volume" where
  "make_bucket bucket v = then_do (lift_path (bucket_dir (lv_root v) bucket), v) (\<lambda>p v.
     if is_dir (lv_files v) p then (Inl BucketExists, v) else on_files (create_dir_all p) v)"

definition delete_bucket :: "string \<Rightarrow> local_volume \<Rightarrow> (storage_error + unit) \<times> local_volume" where
  "delete_bucket bucket v = then_do (lift_path (bucket_dir (lv_root v) bucket), v) (\<lambda>p v.
     if \<not> is_dir (lv_files v) p then (Inl BucketNotFound, v)
     else if list_ex (\<lambda>(q, c). path_below p q \<and> q \<noteq> p) (lv_files v) then (Inl BucketNotEmpty, v)
     else (Inr (), v\<lparr> lv_files := remove_dir_all p (lv_files v) \<rparr>))"

definition bucket_exists :: "local_volume \<Rightarrow> string \<Rightarrow> bool" where
  "bucket_exists v bucket = (case bucket_dir (lv_root v) bucket of Inr p \<Rightarrow> is_dir (lv_files v) p | Inl _ \<Rightarrow> False)"

text \<open>\<open>read_dir\<close>: the names directly below a directory.\<close>

definition child_name :: "path \<Rightarrow> path \<Rightarrow> string option" where
  "child_name d p = (if length p = Suc (length d) \<and> path_below d p
     then (case last p of NormalComp s \<Rightarrow> Some s | _ \<Rightarrow> None) else None)"

definition child_dirs :: "files \<Rightarrow> path \<Rightarrow> string list" where
  "child_dirs fs d = List.map_filter (\<lambda>(p, c). if c = None then child_name d p else None) fs"

definition starts_with_dot :: "string \<Rightarrow> bool" where
  "starts_with_dot s = (take 1 s = ''.'')"

definition list_buckets :: "local_volume \<Rightarrow> string list" where
  "list_buckets v = sort (filter (\<lambda>s. \<not> starts_with_dot s) (child_dirs (lv_files v) (lv_root v)))"

definition read_bucket_settings :: "env \<Rightarrow> local_volume \<Rightarrow> string \<Rightarrow> bucket_settings" where
  "read_bucket_settings ev v bucket = (case bucket_settings_path (lv_root v) bucket of
      Inl _ \<Rightarrow> default_settings
    | Inr p \<Rightarrow> (case Option.bind (fs_read (lv_files v) p) (e_settings_dec ev) of Some s \<Rightarrow> s | None \<Rightarrow> default_settings))"

definition write_bucket_settings :: "env \<Rightarrow> string \<Rightarrow> bucket_settings \<Rightarrow> local_volume \<Rightarrow> (storage_error + unit) \<times> local_volume" where
  "write_bucket_settings ev bucket settings v =
     then_do (lift_path (bucket_settings_dir (lv_root v) bucket), v) (\<lambda>d v.
     then_do (on_files (create_dir_all d) v) (\<lambda>_ v.
       on_files (fs_write (push d ''settings.json'') (e_settings_enc ev settings)) v))"

section \<open>Listing\<close>

definition comp_str :: "component \<Rightarrow> string" where
  "comp_str c = (case c of NormalComp s \<Rightarrow> s | RootDir \<Rightarrow> ''/'' | CurDir \<Rightarrow> ''.'' | ParentDir \<Rightarrow> ''..'')"

definition rel_name :: "path \<Rightarrow> path \<Rightarrow> string" where
  "rel_name base p = join_with (CHR ''/'') (map comp_str (drop (length base) p))"

definition max_depth :: "files \<Rightarrow> nat" where
  "max_depth fs = fold max (map (length \<circ> fst) fs) 0"

lemma fold_max_ge: "m \<le> fold max ns m" for m :: nat
proof (induction ns arbitrary: m)
  case (Cons a ns)
  have "max a m \<le> fold max ns (max a m)" by (rule Cons.IH)
  then show ?case by simp
qed simp

lemma fold_max_mem: "n \<in> set ns \<Longrightarrow> n \<le> fold max ns m" for m n :: nat
proof (induction ns arbitrary: m)
  case (Cons a ns)
  have "max a m \<le> fold max ns (max a m)" by (rule fold_max_ge)
  with Cons show ?case by auto
qed simp

lemma max_depth_ge: "(p, c) \<in> set fs \<Longrightarrow> length p \<le> max_depth fs"
  unfolding max_depth_def by (rule fold_max_mem) force

lemma child_dirs_depth: "name \<in> set (child_dirs fs d) \<Longrightarrow> length d < max_depth fs"
  by (auto simp: child_dirs_def List.map_filter_def child_name_def split: if_splits dest!: max_depth_ge)

function walk_keys :: "files \<Rightarrow> path \<Rightarrow> path \<Rightarrow> string \<Rightarrow> string list" where
  "walk_keys fs base dir prefix = concat (map (\<lambda>name.
     if starts_with_dot name then []
     else let p = dir @ [NormalComp name] in
       if map_of fs (p @ [NormalComp ''meta.json'']) \<noteq> None
       then (if take (length prefix) (rel_name base p) = prefix then [rel_name base p] else [])
       else walk_keys fs base p prefix) (child_dirs fs dir))"
  by pat_completeness auto
termination
  by (relation "measure (\<lambda>(fs, base, dir, prefix). max_depth fs - length dir)")
    (auto dest!: child_dirs_depth)

declare walk_keys.simps [simp del]

definition list_objects :: "local_volume \<Rightarrow> string \<Rightarrow> string \<Rightarrow> storage_error + string list" where
  "list_objects v bucket prefix = res_bind (lift_path (bucket_dir (lv_root v) bucket)) (\<lambda>d.
     res_bind (if is_dir (lv_files v) d
               then res_bind (lift_path (validate_object_prefix prefix)) (\<lambda>_. Inr (walk_keys (lv_files v) d d prefix))
               else Inr []) (\<lambda>keys.
       let wal_keys = (case lv_wal v of None \<Rightarrow> [] | Some w \<Rightarrow> wal_list_keys w bucket prefix)
       in Inr (sort (keys @ filter (\<lambda>k. k \<notin> set keys) wal_keys))))"

section \<open>Shard writers\<close>

datatype wal_mode = Buffering bytes | Streaming path

record wal_writer =
  ww_bucket :: string
  ww_key :: string
  ww_version_id :: string
  ww_mode :: wal_mode

record local_writer =
  lw_path :: path
  lw_bucket :: string
  lw_key :: string
  lw_version_id :: "string option"

text \<open>\<open>File::create\<close> empties the file; \<open>write_all\<close> on the handle appends to it.\<close>

definition fs_append :: "path \<Rightarrow> bytes \<Rightarrow> files \<Rightarrow> files" where
  "fs_append p bs fs = (case fs_read fs p of Some old \<Rightarrow> AList.update p (Some (old @ bs)) fs | None \<Rightarrow> fs)"

definition open_shard_file ::
  "env \<Rightarrow> string \<Rightarrow> string \<Rightarrow> string \<Rightarrow> local_volume \<Rightarrow> (storage_error + path) \<times> local_volume" where
  "open_shard_file ev bucket key version_id v =
     then_do (if version_id \<noteq> [] then lift_path (version_dir (e_is_uuid ev) (lv_root v) bucket key version_id)
              else lift_path (object_dir (lv_root v) bucket key), v) (\<lambda>d v.
     then_do (on_files (create_dir_all d) v) (\<lambda>_ v.
     then_do (on_files (fs_write (push d ''shard.dat'') []) v) (\<lambda>_ v. (Inr (push d ''shard.dat''), v))))"

definition ww_write_chunk ::
  "env \<Rightarrow> bytes \<Rightarrow> wal_writer \<Rightarrow> local_volume \<Rightarrow> (storage_error + wal_writer) \<times> local_volume" where
  "ww_write_chunk ev data wr v = (case ww_mode wr of
      Buffering buf \<Rightarrow>
        if length buf + length data > WAL_STREAMING_PROMOTE_BYTES
        then then_do (open_shard_file ev (ww_bucket wr) (ww_key wr) (ww_version_id wr) v) (\<lambda>p v.
               (Inr (wr\<lparr> ww_mode := Streaming p \<rparr>), v\<lparr> lv_files := fs_append p data (fs_append p buf (lv_files v)) \<rparr>))
        else (Inr (wr\<lparr> ww_mode := Buffering (buf @ data) \<rparr>), v)
    | Streaming p \<Rightarrow> (Inr wr, v\<lparr> lv_files := fs_append p data (lv_files v) \<rparr>))"

text \<open>The metadata update of a finished shard: merged into the versions, or the only version.\<close>

definition finish_meta ::
  "env \<Rightarrow> string \<Rightarrow> string \<Rightarrow> string \<Rightarrow> object_meta \<Rightarrow> local_volume \<Rightarrow> (storage_error + unit) \<times> local_volume" where
  "finish_meta ev bucket key version_id meta v =
     then_do (lift_path (object_meta_path (lv_root v) bucket key), v) (\<lambda>meta_path v.
       on_files (write_meta_file ev meta_path
         (if version_id \<noteq> [] then merge_version (meta_or_empty ev (lv_files v) meta_path bucket key) version_id
             (meta\<lparr> om_is_latest := True, om_version_id := version_id \<rparr>)
          else single_version bucket key meta)) v)"

definition ww_finalize ::
  "env \<Rightarrow> u64 \<Rightarrow> bool \<Rightarrow> object_meta \<Rightarrow> wal_writer \<Rightarrow> local_volume \<Rightarrow> (storage_error + unit) \<times> local_volume" where
  "ww_finalize ev now has_room meta wr v = (let b = ww_bucket wr; k = ww_key wr; vid = ww_version_id wr in
     case ww_mode wr of
       Streaming p \<Rightarrow> finish_meta ev b k vid meta v
     | Buffering buf \<Rightarrow>
         (case (if length buf \<le> lv_threshold v then lv_wal v else None) of
            Some w \<Rightarrow> wal_put ev now has_room w b k vid buf meta v
          | None \<Rightarrow>
              if vid \<noteq> []
              then then_do (lift_path (version_dir (e_is_uuid ev) (lv_root v) b k vid), v) (\<lambda>ver_dir v.
                   then_do (on_files (create_dir_all ver_dir) v) (\<lambda>_ v.
                   then_do (lift_path (version_shard_path (e_is_uuid ev) (lv_root v) b k vid), v) (\<lambda>shard_path v.
                   then_do (lift_path (object_meta_path (lv_root v) b k), v) (\<lambda>meta_path v.
                     let mf = merge_version (meta_or_empty ev (lv_files v) meta_path b k) vid
                                (meta\<lparr> om_is_latest := True, om_version_id := vid \<rparr>) in
                     then_do (on_files (fs_write shard_path buf) v) (\<lambda>_ v. on_files (write_meta_file ev meta_path mf) v)))))
              else then_do (lift_path (object_dir (lv_root v) b k), v) (\<lambda>obj_dir v.
                     on_files (write_object_files ev obj_dir buf (single_version b k meta)) v)))"

definition lw_write_chunk :: "bytes \<Rightarrow> local_writer \<Rightarrow> local_volume \<Rightarrow> local_volume" where
  "lw_write_chunk data wr v = v\<lparr> lv_files := fs_append (lw_path wr) data (lv_files v) \<rparr>"

definition lw_finalize :: "env \<Rightarrow> object_meta \<Rightarrow> local_writer \<Rightarrow> local_volume \<Rightarrow> (storage_error + unit) \<times> local_volume" where
  "lw_finalize ev meta wr v =
     then_do (lift_path (object_meta_path (lv_root v) (lw_bucket wr) (lw_key wr)), v) (\<lambda>meta_path v.
       on_files (write_meta_file ev meta_path (case lw_version_id wr of
           Some vid \<Rightarrow> push_version (meta_or_empty ev (lv_files v) meta_path (lw_bucket wr) (lw_key wr)) vid meta
         | None \<Rightarrow> single_version (lw_bucket wr) (lw_key wr) meta)) v)"

datatype shard_writer = WalWriter wal_writer | FileWriter local_writer

definition open_shard_writer ::
  "env \<Rightarrow> string \<Rightarrow> string \<Rightarrow> string option \<Rightarrow> local_volume \<Rightarrow> (storage_error + shard_writer) \<times> local_volume" where
  "open_shard_writer ev bucket key version_id v = (case lv_wal v of
      Some w \<Rightarrow> (Inr (WalWriter \<lparr> ww_bucket = bucket, ww_key = key,
        ww_version_id = (case version_id of Some s \<Rightarrow> s | None \<Rightarrow> []), ww_mode = Buffering [] \<rparr>), v)
    | None \<Rightarrow>
        then_do (case version_id of Some vid \<Rightarrow> lift_path (version_dir (e_is_uuid ev) (lv_root v) bucket key vid)
                 | None \<Rightarrow> lift_path (object_dir (lv_root v) bucket key), v) (\<lambda>d v.
        then_do (on_files (create_dir_all d) v) (\<lambda>_ v.
        then_do (on_files (fs_write (push d ''shard.dat'') []) v) (\<lambda>_ v.
          (Inr (FileWriter \<lparr> lw_path = push d ''shard.dat'', lw_bucket = bucket, lw_key = key, lw_version_id = version_id \<rparr>), v)))))"

end
