(* ===== verification/Durability.thy ===== *)
theory Durability
  imports Local_Volume
begin

text \<open>
  What a volume promises: an object that was acknowledged can be read, whatever the workers
  do and however often the process stops and recovers.  The state machine has one step per
  event: a write, a request of a worker, a request that is lost, a stop between the files of
  an object and the entry that is dropped, a restart.  Every key is written once: overwriting
  is the subject of the counterexamples at the end.
\<close>

section \<open>Objects that can be stored\<close>

definition obj_needle :: "env \<Rightarrow> string \<Rightarrow> string \<Rightarrow> bytes \<Rightarrow> object_meta \<Rightarrow> needle" where
  "obj_needle ev b k data m = needle_new (e_meta_enc ev) b k None m data"

definition inline_meta :: "env \<Rightarrow> bytes \<Rightarrow> object_meta \<Rightarrow> object_meta" where
  "inline_meta ev data m = m\<lparr> om_inline_data := Some (e_b64_enc ev data) \<rparr>"

text \<open>The serializers read back what they wrote for this object.\<close>

definition codecs_ok :: "env \<Rightarrow> string \<Rightarrow> string \<Rightarrow> bytes \<Rightarrow> object_meta \<Rightarrow> bool" where
  "codecs_ok ev b k data m \<longleftrightarrow> e_meta_dec ev (e_meta_enc ev m) = Some m
     \<and> e_json_dec ev (e_json_enc ev (single_version b k m)) = Some (single_version b k m)
     \<and> e_json_dec ev (e_json_enc ev (single_version b k (inline_meta ev data m))) = Some (single_version b k (inline_meta ev data m))
     \<and> e_b64_dec ev (e_b64_enc ev data) = Some data"

text \<open>An unversioned object with valid names that fits in a needle.\<close>

definition storable :: "env \<Rightarrow> string \<Rightarrow> string \<Rightarrow> bytes \<Rightarrow> object_meta \<Rightarrow> bool" where
  "storable ev b k data m \<longleftrightarrow> validate_bucket_name b = Inr () \<and> validate_object_key k = Inr () \<and> tier_safe k
     \<and> om_version_id m = [] \<and> om_is_latest m \<and> \<not> om_is_delete_marker m \<and> om_inline_data m = None
     \<and> needle_fits (obj_needle ev b k data m) \<and> codecs_ok ev b k data m"

lemma storable_dir: "storable ev b k data m \<Longrightarrow> \<exists>d. object_dir root b k = Inr d"
  by (simp add: storable_def object_dir_eq)

lemma single_version_latest: "om_is_latest m \<Longrightarrow> mf_versions (single_version b k m) = [m]"
  by (simp add: single_version_def)

section \<open>Reading the file tier\<close>

lemma read_file_tier_single:
  assumes d: "object_dir root b k = Inr d" and dir: "is_dir fs d"
    and meta: "fs_read fs (d @ [NormalComp ''meta.json'']) = Some (e_json_enc ev (single_version b k m))"
    and shard: "fs_read fs (d @ [NormalComp ''shard.dat'']) = Some data" and st: "storable ev b k data m"
  shows "read_file_tier ev shown root fs b k = Inr (data, m)"
  using assms object_paths(1,2) [OF d]
  by (simp add: read_file_tier_def read_meta_file_def storable_def codecs_ok_def single_version_def)

lemma read_file_tier_inline:
  assumes d: "object_dir root b k = Inr d" and dir: "is_dir fs d"
    and meta: "fs_read fs (d @ [NormalComp ''meta.json'']) = Some (e_json_enc ev (single_version b k (inline_meta ev data m)))"
    and st: "storable ev b k data m"
  shows "read_file_tier ev strip_inline root fs b k = Inr (data, m)"
proof -
  have "strip_inline (m\<lparr> om_inline_data := Some (e_b64_enc ev data), om_is_latest := True \<rparr>) = m"
    using st by (cases m) (simp add: strip_inline_def storable_def)
  then show ?thesis using assms object_paths(2) [OF d]
    by (simp add: read_file_tier_def read_meta_file_def storable_def codecs_ok_def single_version_def inline_meta_def)
qed

text \<open>Reading depends on the two files and the directory only.\<close>

lemma read_file_tier_frame:
  assumes r: "read_file_tier ev shown root fs b k = Inr (data, m)" and d: "object_dir root b k = Inr d"
    and dir: "is_dir fs' d" and nv: "om_version_id m = []" and sh: "\<And>x. om_version_id (shown x) = om_version_id x"
    and same: "fs_read fs' (d @ [NormalComp ''meta.json'']) = fs_read fs (d @ [NormalComp ''meta.json''])"
      "fs_read fs' (d @ [NormalComp ''shard.dat'']) = fs_read fs (d @ [NormalComp ''shard.dat''])"
  shows "read_file_tier ev shown root fs' b k = Inr (data, m)"
  using r object_paths(1,2) [OF d] dir nv same d sh
  by (auto simp: read_file_tier_def read_meta_file_def res_bind_Inr_iff split: if_splits option.splits)

section \<open>The state machine\<close>

type_synonym acked = "string \<times> string \<rightharpoonup> bytes \<times> object_meta"

definition restart :: "env \<Rightarrow> u64 \<Rightarrow> wal \<Rightarrow> local_volume \<Rightarrow> local_volume" where
  "restart ev now w v = enable_wal_with_config ev now (w_capacity w) (lv_threshold v) (w_dir w) (v\<lparr> lv_wal := None, lv_queue := [] \<rparr>)"

inductive vol_step :: "env \<Rightarrow> local_volume \<times> acked \<Rightarrow> local_volume \<times> acked \<Rightarrow> bool" for ev where
  Put: "write_shard ev now has_room b k data m v = (Inr (), v') \<Longrightarrow> a (b, k) = None \<Longrightarrow> storable ev b k data m
    \<Longrightarrow> lv_wal v = Some w \<Longrightarrow> w_next w < 0xFFFFFFFF \<Longrightarrow> vol_step ev (v, a) (v', a((b, k) \<mapsto> (data, m)))"
| Put_fails: "write_shard ev now has_room b k data m v = (Inl e, v') \<Longrightarrow> a (b, k) = None \<Longrightarrow> storable ev b k data m
    \<Longrightarrow> lv_wal v = Some w \<Longrightarrow> w_next w < 0xFFFFFFFF \<Longrightarrow> vol_step ev (v, a) (v', a)"
| Work: "lv_queue v = q1 @ req # q2 \<Longrightarrow> lv_wal v = Some w \<Longrightarrow> materialize_worker ev (lv_root v) req (w, lv_files v) = (w', fs')
    \<Longrightarrow> vol_step ev (v, a) (v\<lparr> lv_wal := Some w', lv_files := fs', lv_queue := q1 @ q2 \<rparr>, a)"
| Stop_in_work: "req \<in> set (lv_queue v) \<Longrightarrow> lv_wal v = Some w \<Longrightarrow> process_materialize ev (lv_root v) w req (lv_files v) = (r, fs')
    \<Longrightarrow> vol_step ev (v, a) (v\<lparr> lv_files := fs' \<rparr>, a)"
| Lose: "lv_queue v = q1 @ req # q2 \<Longrightarrow> vol_step ev (v, a) (v\<lparr> lv_queue := q1 @ q2 \<rparr>, a)"
| Restart: "lv_wal v = Some w \<Longrightarrow> w_next w \<le> 0xFFFFFFFE \<Longrightarrow> vol_step ev (v, a) (restart ev now w v, a)"

inductive vol_reach :: "env \<Rightarrow> local_volume \<times> acked \<Rightarrow> bool" for ev where
  Init: "(\<And>p. fs_read fs p = None) \<Longrightarrow> dirs_clean root fs \<Longrightarrow> SUPERBLOCK_SIZE \<le> cap \<Longrightarrow> cap < 2 ^ 32
    \<Longrightarrow> vol_reach ev (enable_wal_with_config ev now cap th []
          \<lparr> lv_root = root, lv_volume_id = vid, lv_wal = None, lv_threshold = 0, lv_files = fs, lv_queue = [] \<rparr>, Map.empty)"
| Step: "vol_reach ev s \<Longrightarrow> vol_step ev s s' \<Longrightarrow> vol_reach ev s'"

section \<open>The invariant\<close>

definition in_files :: "env \<Rightarrow> local_volume \<Rightarrow> acked \<Rightarrow> string \<Rightarrow> string \<Rightarrow> bool" where
  "in_files ev v a b k \<longleftrightarrow> (\<exists>dm. a (b, k) = Some dm \<and> read_file_tier ev strip_inline (lv_root v) (lv_files v) b k = Inr dm)"

definition needles_acked :: "env \<Rightarrow> acked \<Rightarrow> needle set \<Rightarrow> bool" where
  "needles_acked ev a N \<longleftrightarrow> (\<forall>n \<in> N. \<exists>b k data m. a (b, k) = Some (data, m) \<and> n = obj_needle ev b k data m)"

definition req_ok :: "env \<Rightarrow> (u32 \<Rightarrow> needle list) \<Rightarrow> wal \<Rightarrow> acked \<Rightarrow> materialize_request \<Rightarrow> bool" where
  "req_ok ev nd w a req \<longleftrightarrow> mr_version_id req = [] \<and> a (mr_bucket req, mr_key req) \<noteq> None
     \<and> we_segment_id (mr_entry req) < w_next w
     \<and> (we_segment_id (mr_entry req) \<in> live w \<longrightarrow> (\<exists>n. points_to ev (nd (we_segment_id (mr_entry req))) (mr_entry req) n
          \<and> needle_key n = (mr_bucket req, mr_key req, [])))"

definition vol_inv :: "env \<Rightarrow> (u32 \<Rightarrow> needle list) \<Rightarrow> wal \<Rightarrow> local_volume \<Rightarrow> acked \<Rightarrow> bool" where
  "vol_inv ev nd w v a \<longleftrightarrow> lv_wal v = Some w \<and> wal_ok ev nd w \<and> dirs_clean (lv_root v) (lv_files v)
     \<and> needles_acked ev a (all_needles nd w)
     \<and> (\<forall>b k data m. a (b, k) = Some (data, m) \<longrightarrow> storable ev b k data m \<and> (get_versioned w b k [] \<noteq> None \<or> in_files ev v a b k))
     \<and> (\<forall>b k d. object_dir (lv_root v) b k = Inr d \<longrightarrow> fs_read (lv_files v) (d @ [NormalComp ''shard.dat'']) \<noteq> None \<longrightarrow> in_files ev v a b k)
     \<and> (\<forall>req \<in> set (lv_queue v). req_ok ev nd w a req)"

lemma vol_invD:
  assumes "vol_inv ev nd w v a"
  shows "lv_wal v = Some w" "wal_ok ev nd w" "dirs_clean (lv_root v) (lv_files v)" "needles_acked ev a (all_needles nd w)"
    "a (b, k) = Some (data, m) \<Longrightarrow> storable ev b k data m"
    "a (b, k) = Some (data, m) \<Longrightarrow> get_versioned w b k [] \<noteq> None \<or> in_files ev v a b k"
    "object_dir (lv_root v) b k = Inr d \<Longrightarrow> fs_read (lv_files v) (d @ [NormalComp ''shard.dat'']) \<noteq> None \<Longrightarrow> in_files ev v a b k"
    "req \<in> set (lv_queue v) \<Longrightarrow> req_ok ev nd w a req"
  using assms unfolding vol_inv_def by blast+

lemma needles_acked_mono: "needles_acked ev a N \<Longrightarrow> M \<subseteq> N \<Longrightarrow> a \<subseteq>\<^sub>m a' \<Longrightarrow> needles_acked ev a' M"
  unfolding needles_acked_def map_le_def by (metis domI subsetD)

lemma req_ok_acked: "req_ok ev nd w a req \<Longrightarrow> a \<subseteq>\<^sub>m a' \<Longrightarrow> req_ok ev nd w a' req"
  unfolding req_ok_def map_le_def by (metis domIff)

lemma in_files_frame:
  assumes inf: "in_files ev v a b' k'" and ne: "(b', k') \<noteq> (b, k)"
    and st: "\<And>data m. a (b', k') = Some (data, m) \<Longrightarrow> storable ev b' k' data m"
    and d: "object_dir (lv_root v) b k = Inr d" and grow: "dirs_grow (lv_root v) (lv_files v) fs'"
    and frame: "\<And>q. q \<noteq> d @ [NormalComp ''meta.json''] \<Longrightarrow> q \<noteq> d @ [NormalComp ''shard.dat''] \<Longrightarrow> fs_read fs' q = fs_read (lv_files v) q"
    and le: "a \<subseteq>\<^sub>m a'"
  shows "in_files ev (v\<lparr> lv_files := fs' \<rparr>) a' b' k'"
proof -
  from inf obtain data m where am: "a (b', k') = Some (data, m)"
    and r: "read_file_tier ev strip_inline (lv_root v) (lv_files v) b' k' = Inr (data, m)" by (auto simp: in_files_def)
  from st [OF am] obtain d' where d': "object_dir (lv_root v) b' k' = Inr d'" using storable_dir by blast
  have dd: "d' \<noteq> d" using d d' object_dir_inj [of "lv_root v" b' k' d b k] ne by auto
  have "is_dir (lv_files v) d'" using r d' by (auto simp: read_file_tier_def split: if_splits)
  then have "is_dir fs' d'" using grow by (simp add: dirs_grow_def)
  then have "read_file_tier ev strip_inline (lv_root v) fs' b' k' = Inr (data, m)"
    by (rule read_file_tier_frame [OF r d']) (use st [OF am] dd frame in \<open>auto simp: storable_def strip_inline_def\<close>)
  moreover have "a' (b', k') = Some (data, m)" using am le by (metis domI map_le_def)
  ultimately show ?thesis by (simp add: in_files_def)
qed

text \<open>Changing only the files of one acknowledged object.\<close>

lemma vol_inv_write_files:
  assumes inv: "vol_inv ev nd w v a" and st: "storable ev b k data m" and d: "object_dir (lv_root v) b k = Inr d"
    and grow: "dirs_grow (lv_root v) (lv_files v) fs'"
    and frame: "\<And>q. q \<noteq> d @ [NormalComp ''meta.json''] \<Longrightarrow> q \<noteq> d @ [NormalComp ''shard.dat''] \<Longrightarrow> fs_read fs' q = fs_read (lv_files v) q"
    and new: "read_file_tier ev strip_inline (lv_root v) fs' b k = Inr (data, m)"
    and fresh: "a (b, k) = None \<or> a (b, k) = Some (data, m)"
  shows "vol_inv ev nd w (v\<lparr> lv_files := fs' \<rparr>) (a((b, k) \<mapsto> (data, m)))"
proof -
  let ?v = "v\<lparr> lv_files := fs' \<rparr>" and ?a = "a((b, k) \<mapsto> (data, m))"
  note D = vol_invD [OF inv]
  have le: "a \<subseteq>\<^sub>m ?a" using fresh by (auto simp: map_le_def)
  have here: "in_files ev ?v ?a b k" using new by (simp add: in_files_def)
  have other: "in_files ev ?v ?a b' k'" if "in_files ev v a b' k'" "(b', k') \<noteq> (b, k)" for b' k'
    by (rule in_files_frame [OF that D(5) d grow frame le])
  have shard: "in_files ev ?v ?a b' k'"
    if d': "object_dir (lv_root v) b' k' = Inr d'" and f: "fs_read fs' (d' @ [NormalComp ''shard.dat'']) \<noteq> None" for b' k' d'
  proof (cases "(b', k') = (b, k)")
    case False
    then have "d' \<noteq> d" using d d' object_dir_inj [of "lv_root v" b' k' d b k] by auto
    then have "fs_read (lv_files v) (d' @ [NormalComp ''shard.dat'']) \<noteq> None" using f frame by simp
    then show ?thesis using other [OF D(7) [OF d'] False] by blast
  qed (use here in simp)
  have main: "storable ev b' k' data' m' \<and> (get_versioned w b' k' [] \<noteq> None \<or> in_files ev ?v ?a b' k')"
    if "?a (b', k') = Some (data', m')" for b' k' data' m'
  proof (cases "(b', k') = (b, k)")
    case True
    then show ?thesis using that st here by auto
  next
    case False
    then have "a (b', k') = Some (data', m')" using that by (auto split: if_splits)
    then show ?thesis using D(5) [of b' k' data' m'] D(6) [of b' k' data' m'] other [of b' k'] False by blast
  qed
  have "dirs_clean (lv_root v) fs'" using grow by (simp add: dirs_grow_def)
  then show ?thesis unfolding vol_inv_def
    using D(1,2) needles_acked_mono [OF D(4) subset_refl le] main shard req_ok_acked [OF D(8) le] by simp
qed

lemma vol_inv_same_files:
  assumes inv: "vol_inv ev nd w v a" and grow: "dirs_grow (lv_root v) (lv_files v) fs'"
    and same: "\<And>q. fs_read fs' q = fs_read (lv_files v) q"
  shows "vol_inv ev nd w (v\<lparr> lv_files := fs' \<rparr>) a"
proof -
  note D = vol_invD [OF inv]
  have keep: "in_files ev (v\<lparr> lv_files := fs' \<rparr>) a b k" if inf: "in_files ev v a b k" for b k
  proof -
    from inf obtain data m where am: "a (b, k) = Some (data, m)"
      and r: "read_file_tier ev strip_inline (lv_root v) (lv_files v) b k = Inr (data, m)" by (auto simp: in_files_def)
    from D(5) [OF am] obtain d where d: "object_dir (lv_root v) b k = Inr d" using storable_dir by blast
    have "is_dir fs' d" using r d grow by (auto simp: read_file_tier_def dirs_grow_def split: if_splits)
    then have "read_file_tier ev strip_inline (lv_root v) fs' b k = Inr (data, m)"
      by (rule read_file_tier_frame [OF r d]) (use D(5) [OF am] same in \<open>auto simp: storable_def strip_inline_def\<close>)
    then show ?thesis using am by (simp add: in_files_def)
  qed
  have main: "storable ev b k data m \<and> (get_versioned w b k [] \<noteq> None \<or> in_files ev (v\<lparr> lv_files := fs' \<rparr>) a b k)"
    if "a (b, k) = Some (data, m)" for b k data m using D(5,6) [OF that] keep by blast
  have shard: "in_files ev (v\<lparr> lv_files := fs' \<rparr>) a b k"
    if "object_dir (lv_root v) b k = Inr d" "fs_read fs' (d @ [NormalComp ''shard.dat'']) \<noteq> None" for b k d
    using that D(7) same keep by simp
  have "dirs_clean (lv_root v) fs'" using grow by (simp add: dirs_grow_def)
  then show ?thesis unfolding vol_inv_def using D(1,2,4,8) main shard by simp
qed

section \<open>Steps keep the invariant\<close>

lemma obj_needle_fields [simp]:
  "needle_key (obj_needle ev b k data m) = (b, k, [])" "n_flags (obj_needle ev b k data m) = FLAG_NORMAL"
  "n_data (obj_needle ev b k data m) = data" "n_meta_bytes (obj_needle ev b k data m) = e_meta_enc ev m"
  "n_bucket (obj_needle ev b k data m) = b" "n_key (obj_needle ev b k data m) = k" "n_version_id (obj_needle ev b k data m) = []"
  by (simp_all add: obj_needle_def needle_new_def needle_key_def)

text \<open>An entry that points to a needle with this key reads as the acknowledged object.\<close>

lemma acked_entry_reads:
  assumes inv: "vol_inv ev nd w v a" and live: "we_segment_id e \<in> live w"
    and pt: "points_to ev (nd (we_segment_id e)) e n" and key: "needle_key n = (b, k, [])"
  shows "\<exists>data m. a (b, k) = Some (data, m) \<and> storable ev b k data m \<and> read_data w e = Some data
      \<and> read_meta ev w e = Inr m"
proof -
  note D = vol_invD [OF inv]
  have "n \<in> all_needles nd w" using points_to_mem [OF pt] live by (auto simp: all_needles_def)
  then obtain b' k' data m where am: "a (b', k') = Some (data, m)" and n: "n = obj_needle ev b' k' data m"
    using D(4) unfolding needles_acked_def by blast
  have bk: "b' = b" "k' = k" using key n by simp_all
  have "storable ev b k data m" using D(5) am bk by blast
  moreover from this have "e_meta_dec ev (e_meta_enc ev m) = Some m" by (simp add: storable_def codecs_ok_def)
  ultimately show ?thesis using read_points_to [OF D(2) live pt] am bk n
    by (simp add: read_meta_def decode_meta_def)
qed

lemma pending_entry:
  assumes "wal_ok ev nd w" and "get_versioned w b k vid = Some e"
  shows "we_segment_id e \<in> live w" and "\<exists>n. points_to ev (nd (we_segment_id e)) e n \<and> needle_key n = (b, k, vid)"
  using assms by (auto simp: wal_ok_def pend_ok_def get_versioned_def)

text \<open>A volume in good order answers every read of an acknowledged object with that object.\<close>

lemma vol_inv_reads:
  assumes inv: "vol_inv ev nd w v a" and am: "a (b, k) = Some (data, m)"
  shows "read_shard ev v b k = Inr (data, m)"
proof (cases "get_versioned w b k []")
  case None
  then have "in_files ev v a b k" using vol_invD(6) [OF inv am] by blast
  then show ?thesis using None am vol_invD(1) [OF inv]
    by (simp add: read_shard_def read_shard_from_wal_versioned_def in_files_def)
next
  case (Some e)
  note p = pending_entry [OF vol_invD(2) [OF inv] Some]
  from p(2) obtain n where "points_to ev (nd (we_segment_id e)) e n" "needle_key n = (b, k, [])" by blast
  from acked_entry_reads [OF inv p(1) this] show ?thesis using Some am vol_invD(1) [OF inv]
    by (auto simp: read_shard_def read_shard_from_wal_versioned_def)
qed

lemma process_materialize_inv:
  assumes inv: "vol_inv ev nd w v a" and req: "req \<in> set (lv_queue v)"
    and p: "process_materialize ev (lv_root v) w req (lv_files v) = (r, fs')"
  shows "vol_inv ev nd w (v\<lparr> lv_files := fs' \<rparr>) a"
    and "r = Inr () \<Longrightarrow> in_files ev (v\<lparr> lv_files := fs' \<rparr>) a (mr_bucket req) (mr_key req)"
proof -
  let ?e = "mr_entry req" and ?b = "mr_bucket req" and ?k = "mr_key req"
  note D = vol_invD [OF inv] and rq = vol_invD(8) [OF inv req]
  have "vol_inv ev nd w (v\<lparr> lv_files := fs' \<rparr>) a \<and> (r = Inr () \<longrightarrow> in_files ev (v\<lparr> lv_files := fs' \<rparr>) a ?b ?k)"
  proof (cases "we_segment_id ?e \<in> live w")
    case False
    then have "find (\<lambda>s. ss_segment_id s = we_segment_id ?e) (w_sealed w) = None" "we_segment_id ?e \<noteq> as_segment_id (w_active w)"
      by (force simp: live_def find_None_iff image_iff)+
    then have "read_segment w (we_segment_id ?e) off len = None" for off len by (simp add: read_segment_def)
    then show ?thesis using p inv by (auto simp: process_materialize_def read_data_def)
  next
    case True
    from rq True obtain n where "points_to ev (nd (we_segment_id ?e)) ?e n" "needle_key n = (?b, ?k, [])"
      by (auto simp: req_ok_def)
    from acked_entry_reads [OF inv True this] obtain data m where am: "a (?b, ?k) = Some (data, m)"
      and st: "storable ev ?b ?k data m" and rd: "read_data w ?e = Some data" "read_meta ev w ?e = Inr m" by blast
    obtain d where d: "object_dir (lv_root v) ?b ?k = Inr d" using storable_dir [OF st] by blast
    have w: "write_object_files ev d data (single_version ?b ?k m) (lv_files v) = (r, fs')"
      using p rd d rq by (simp add: process_materialize_def Let_def req_ok_def)
    have ts: "tier_safe ?k" using st by (simp add: storable_def)
    note c = write_object_files_cases [OF d ts D(3) w]
    show ?thesis
    proof (cases "r = Inr ()")
      case True
      with c have dir: "is_dir fs' d" and rds: "\<And>q. fs_read fs' q = (if q = d @ [NormalComp ''meta.json''] then Some (e_json_enc ev (single_version ?b ?k m))
           else if q = d @ [NormalComp ''shard.dat''] then Some data else fs_read (lv_files v) q)" by blast+
      have new: "read_file_tier ev strip_inline (lv_root v) fs' ?b ?k = Inr (data, m)"
        by (rule read_file_tier_single [OF d dir _ _ st]) (simp_all add: rds)
      have "vol_inv ev nd w (v\<lparr> lv_files := fs' \<rparr>) (a((?b, ?k) \<mapsto> (data, m)))"
        by (rule vol_inv_write_files [OF inv st d _ _ new]) (use c am in \<open>simp_all add: rds\<close>)
      moreover have "a((?b, ?k) \<mapsto> (data, m)) = a" using am by auto
      ultimately show ?thesis using am new by (simp add: in_files_def)
    next
      case False
      then show ?thesis using vol_inv_same_files [OF inv, of fs'] c by blast
    qed
  qed
  then show "vol_inv ev nd w (v\<lparr> lv_files := fs' \<rparr>) a"
    "r = Inr () \<Longrightarrow> in_files ev (v\<lparr> lv_files := fs' \<rparr>) a ?b ?k" by blast+
qed

lemma req_ok_fewer_live:
  "req_ok ev nd w a req \<Longrightarrow> live w' \<subseteq> live w \<Longrightarrow> w_next w' = w_next w \<Longrightarrow> req_ok ev nd w' a req"
  by (auto simp: req_ok_def)

lemma in_files_cong: "lv_root v' = lv_root v \<Longrightarrow> lv_files v' = lv_files v \<Longrightarrow> in_files ev v' a b k = in_files ev v a b k"
  by (simp add: in_files_def)

lemma vol_inv_mark:
  assumes inv: "vol_inv ev nd w v a" and inf: "in_files ev v a b k" and q: "set q \<subseteq> set (lv_queue v)"
  shows "vol_inv ev nd (mark_materialized_versioned b k [] w)
     (v\<lparr> lv_wal := Some (mark_materialized_versioned b k [] w), lv_queue := q \<rparr>) a"
proof -
  let ?w = "mark_materialized_versioned b k [] w"
  note D = vol_invD [OF inv] and m = mark_materialized_ok [OF vol_invD(2) [OF inv], of b k "[]"]
  have "all_needles nd ?w \<subseteq> all_needles nd w" using m(3) by (auto simp: all_needles_def)
  then have "needles_acked ev a (all_needles nd ?w)" using needles_acked_mono [OF D(4)] by simp
  moreover have "storable ev b' k' data m \<and> (get_versioned ?w b' k' [] \<noteq> None \<or> in_files ev v a b' k')"
    if "a (b', k') = Some (data, m)" for b' k' data m
    using D(5,6) [OF that] inf m(2) by (cases "(b', k') = (b, k)") (auto simp: get_versioned_def)
  moreover have "\<forall>req \<in> set q. req_ok ev nd ?w a req" using req_ok_fewer_live [OF D(8) m(3,4)] q by blast
  moreover have "in_files ev (v\<lparr> lv_wal := Some ?w, lv_queue := q \<rparr>) a b' k' = in_files ev v a b' k'" for b' k'
    by (rule in_files_cong) simp_all
  ultimately show ?thesis unfolding vol_inv_def using D(3,7) m(1) by simp
qed

text \<open>Appending to the log keeps what was there; a needle that is added must be acknowledged.\<close>

lemma vol_inv_wal_put:
  assumes inv: "vol_inv ev nd w v a" and st: "storable ev b k data m" and fresh: "a (b, k) = None"
    and room: "w_next w < 0xFFFFFFFF" and put: "wal_put ev now has_room w b k [] data m v = (r, v')"
  shows "\<exists>nd' w'. vol_inv ev nd' w' v' (if r = Inr () then a((b, k) \<mapsto> (data, m)) else a)"
proof -
  let ?n = "obj_needle ev b k data m"
  note D = vol_invD [OF inv]
  obtain r1 w' where app: "wal_append ev now ?n w = (r1, w')" by fastforce
  have fit: "needle_fits ?n" using st by (simp add: storable_def)
  from wal_append_ok [OF D(2) fit room app] obtain nd' where
    ok: "wal_ok ev nd' w'" and live: "live w \<subseteq> live w'" "live w' \<subseteq> insert (w_next w) (live w)" and nx: "w_next w \<le> w_next w'"
    and ext: "\<forall>i \<in> live w. \<exists>ms. nd' i = nd i @ ms"
    and cases: "case r1 of Inl _ \<Rightarrow> w_pending w' = w_pending w \<and> all_needles nd' w' \<subseteq> all_needles nd w
        | Inr e \<Rightarrow> map_of (w_pending w') = (map_of (w_pending w))(needle_key ?n \<mapsto> e)
            \<and> all_needles nd' w' \<subseteq> insert ?n (all_needles nd w) \<and> we_segment_id e \<in> live w'
            \<and> points_to ev (nd' (we_segment_id e)) e ?n" by blast
  have reqs: "req_ok ev nd' w' a req" if "req \<in> set (lv_queue v)" for req
  proof -
    have q: "req_ok ev nd w a req" by (rule D(8) [OF that])
    show ?thesis unfolding req_ok_def
    proof (intro conjI impI)
      assume "we_segment_id (mr_entry req) \<in> live w'"
      with live q have "we_segment_id (mr_entry req) \<in> live w" by (auto simp: req_ok_def)
      then show "\<exists>n. points_to ev (nd' (we_segment_id (mr_entry req))) (mr_entry req) n \<and> needle_key n = (mr_bucket req, mr_key req, [])"
        using q ext points_to_append unfolding req_ok_def by metis
    qed (use q nx in \<open>auto simp: req_ok_def\<close>)
  qed
  have put': "wal_put ev now has_room w b k [] data m v = (case (r1, w') of
      (Inl e, w') \<Rightarrow> (Inl e, v\<lparr> lv_wal := Some w' \<rparr>)
    | (Inr entry, w') \<Rightarrow> (Inr (), send_request has_room
         \<lparr> mr_bucket = b, mr_key = k, mr_version_id = [], mr_entry = entry \<rparr> (v\<lparr> lv_wal := Some w' \<rparr>)))"
    using app by (simp add: wal_put_def obj_needle_def)
  show ?thesis
  proof (cases r1)
    case (Inl e)
    then have v': "v' = v\<lparr> lv_wal := Some w' \<rparr>" "r \<noteq> Inr ()" using put put' by auto
    have "needles_acked ev a (all_needles nd' w')" using cases Inl needles_acked_mono [OF D(4)] by simp
    moreover have "get_versioned w' x y z = get_versioned w x y z" for x y z using cases Inl by (simp add: get_versioned_def)
    moreover have "in_files ev v' a x y = in_files ev v a x y" for x y by (rule in_files_cong) (simp_all add: v')
    ultimately show ?thesis using v' ok D(3,5,6,7) reqs
      by (intro exI [of _ nd'] exI [of _ w']) (auto simp: vol_inv_def)
  next
    case (Inr e)
    let ?a = "a((b, k) \<mapsto> (data, m))"
    let ?req = "\<lparr> mr_bucket = b, mr_key = k, mr_version_id = [], mr_entry = e \<rparr>"
    have v': "v' = send_request has_room ?req (v\<lparr> lv_wal := Some w' \<rparr>)" "r = Inr ()" using put put' Inr by auto
    have f: "lv_wal v' = Some w'" "lv_root v' = lv_root v" "lv_files v' = lv_files v"
      "set (lv_queue v') \<subseteq> insert ?req (set (lv_queue v))" by (auto simp: v' send_request_def)
    have le: "a \<subseteq>\<^sub>m ?a" using fresh by (auto simp: map_le_def)
    have e: "map_of (w_pending w') = (map_of (w_pending w))((b, k, []) \<mapsto> e)" "we_segment_id e \<in> live w'"
      "points_to ev (nd' (we_segment_id e)) e ?n" "all_needles nd' w' \<subseteq> insert ?n (all_needles nd w)"
      using cases Inr by simp_all
    have na: "needles_acked ev ?a (all_needles nd' w')"
    proof -
      have "needles_acked ev ?a (all_needles nd w)" using needles_acked_mono [OF D(4) subset_refl le] .
      moreover have "\<exists>b' k' data' m'. ?a (b', k') = Some (data', m') \<and> ?n = obj_needle ev b' k' data' m'"
        by (intro exI [of _ b] exI [of _ k] exI [of _ data] exI [of _ m]) simp
      ultimately show ?thesis using e(4) unfolding needles_acked_def by blast
    qed
    have keep: "in_files ev v' ?a x y" if "in_files ev v a x y" for x y
      using that fresh f(2,3) by (auto simp: in_files_def)
    have main: "storable ev x y dt mt \<and> (get_versioned w' x y [] \<noteq> None \<or> in_files ev v' ?a x y)"
      if "?a (x, y) = Some (dt, mt)" for x y dt mt
    proof (cases "(x, y) = (b, k)")
      case True
      then show ?thesis using that st e(1) by (auto simp: get_versioned_def)
    next
      case False
      then have axy: "a (x, y) = Some (dt, mt)" using that by (auto split: if_splits)
      have "get_versioned w' x y [] = get_versioned w x y []" using e(1) False by (auto simp: get_versioned_def)
      then show ?thesis using D(5,6) [OF axy] keep by auto
    qed
    have "req_ok ev nd' w' ?a ?req" using e ok by (auto simp: req_ok_def wal_ok_def)
    then have "\<forall>req \<in> set (lv_queue v'). req_ok ev nd' w' ?a req" using f(4) reqs req_ok_acked [OF _ le] by blast
    then have "vol_inv ev nd' w' v' ?a" unfolding vol_inv_def using f(1,2,3) ok D(3,7) na main keep by simp
    then show ?thesis using v'(2) by auto
  qed
qed

lemma write_shard_storable:
  assumes "storable ev b k data m" and "lv_wal v = Some w" and "object_dir (lv_root v) b k = Inr d"
  shows "write_shard ev now has_room b k data m v =
    (if length data \<le> lv_threshold v then wal_put ev now has_room w b k [] data m v
     else if unat (om_size m) \<le> DEFAULT_WAL_THRESHOLD
     then on_files (\<lambda>fs. then_do (create_dir_all d fs) (\<lambda>_ fs.
            write_meta_file ev (push d ''meta.json'') (single_version b k (inline_meta ev data m)) fs)) v
     else on_files (write_object_files ev d data (single_version b k m)) v)"
  using assms by (simp add: write_shard_def storable_def inline_meta_def)

lemma vol_inv_put:
  assumes inv: "vol_inv ev nd w v a" and st: "storable ev b k data m" and fresh: "a (b, k) = None"
    and room: "w_next w < 0xFFFFFFFF" and put: "write_shard ev now has_room b k data m v = (r, v')"
  shows "\<exists>nd' w'. vol_inv ev nd' w' v' (if r = Inr () then a((b, k) \<mapsto> (data, m)) else a)"
proof -
  note D = vol_invD [OF inv]
  obtain d where d: "object_dir (lv_root v) b k = Inr d" using storable_dir [OF st] by blast
  have ts: "tier_safe k" using st by (simp add: storable_def)
  note ws = write_shard_storable [OF st D(1) d, of now has_room, unfolded put]
  consider (log) "length data \<le> lv_threshold v"
    | (inline) "length data > lv_threshold v" "unat (om_size m) \<le> DEFAULT_WAL_THRESHOLD"
    | (files) "length data > lv_threshold v" "unat (om_size m) > DEFAULT_WAL_THRESHOLD" by linarith
  then show ?thesis
  proof cases
    case log
    then show ?thesis using vol_inv_wal_put [OF inv st fresh room, of now has_room r v'] ws by simp
  next
    case inline
    obtain fs' where w: "then_do (create_dir_all d (lv_files v)) (\<lambda>_ fs.
            write_meta_file ev (push d ''meta.json'') (single_version b k (inline_meta ev data m)) fs) = (r, fs')"
      and v': "v' = v\<lparr> lv_files := fs' \<rparr>" using inline ws by (auto simp: on_files_def split: prod.splits)
    note c = write_inline_cases [OF d ts D(3) w]
    show ?thesis
    proof (cases "r = Inr ()")
      case True
      have new: "read_file_tier ev strip_inline (lv_root v) fs' b k = Inr (data, m)"
        by (rule read_file_tier_inline [OF d _ _ st]) (use c True in auto)
      have "vol_inv ev nd w v' (a((b, k) \<mapsto> (data, m)))" unfolding v'
        by (rule vol_inv_write_files [OF inv st d _ _ new]) (use c True fresh in auto)
      then show ?thesis using True by auto
    next
      case False
      then show ?thesis using vol_inv_same_files [OF inv, of fs'] c v' by auto
    qed
  next
    case files
    obtain fs' where w: "write_object_files ev d data (single_version b k m) (lv_files v) = (r, fs')"
      and v': "v' = v\<lparr> lv_files := fs' \<rparr>" using files ws by (auto simp: on_files_def split: prod.splits)
    note c = write_object_files_cases [OF d ts D(3) w]
    show ?thesis
    proof (cases "r = Inr ()")
      case True
      have new: "read_file_tier ev strip_inline (lv_root v) fs' b k = Inr (data, m)"
        by (rule read_file_tier_single [OF d _ _ _ st]) (use c True in auto)
      have "vol_inv ev nd w v' (a((b, k) \<mapsto> (data, m)))" unfolding v'
        by (rule vol_inv_write_files [OF inv st d _ _ new]) (use c True fresh in auto)
      then show ?thesis using True by auto
    next
      case False
      then show ?thesis using vol_inv_same_files [OF inv, of fs'] c v' by auto
    qed
  qed
qed

text \<open>Opening a log on files whose needles are acknowledged objects.\<close>

lemma vol_inv_open:
  fixes v :: local_volume and now :: u64
  assumes dir: "dir_ok ev cap nd P d" and nd0: "nd 0 = []" and lim: "\<forall>i \<in> P. i \<le> 0xFFFFFFFD"
    and cap: "SUPERBLOCK_SIZE \<le> cap" "cap < 2 ^ 32" and clean: "dirs_clean (lv_root v) (lv_files v)"
    and na: "needles_acked ev a (\<Union>i \<in> P. set (nd i))"
    and st: "\<And>b k data m. a (b, k) = Some (data, m) \<Longrightarrow> storable ev b k data m"
    and main: "\<And>b k. a (b, k) \<noteq> None \<Longrightarrow> (\<exists>i \<in> P. \<exists>n \<in> set (nd i). needle_key n = (b, k, [])) \<or> in_files ev v a b k"
    and shard: "\<And>b k d. object_dir (lv_root v) b k = Inr d \<Longrightarrow> fs_read (lv_files v) (d @ [NormalComp ''shard.dat'']) \<noteq> None \<Longrightarrow> in_files ev v a b k"
  defines "w' \<equiv> wal_open ev (lv_root v) (lv_files v) now cap d"
  shows "\<exists>nd'. vol_inv ev nd' w' (v\<lparr> lv_wal := Some w', lv_threshold := th, lv_queue := drain_recovery_requests w' \<rparr>) a"
proof -
  let ?v = "v\<lparr> lv_wal := Some w', lv_threshold := th, lv_queue := drain_recovery_requests w' \<rparr>"
  from wal_open_ok [OF dir nd0 lim cap, of "lv_root v" "lv_files v" now, unfolded Let_def, folded w'_def]
  obtain nd' where ok: "wal_ok ev nd' w'" and sub: "all_needles nd' w' \<subseteq> (\<Union>i \<in> P. set (nd i))"
    and cov: "(\<forall>i \<in> P. no_tombstones (nd i)) \<Longrightarrow> (\<forall>i \<in> P. covered ev (lv_root v) (lv_files v) (nd i) w')" by blast
  have nt: "no_tombstones (nd i)" if "i \<in> P" for i
    unfolding no_tombstones_def list_all_iff
  proof
    fix n assume "n \<in> set (nd i)"
    with that na obtain b k data m where "n = obj_needle ev b k data m" unfolding needles_acked_def by blast
    then show "n_flags n \<noteq> FLAG_DELETE" by (simp add: FLAG_NORMAL_def FLAG_DELETE_def)
  qed
  have nak: "needles_acked ev a (all_needles nd' w')" using needles_acked_mono [OF na sub] by simp
  have keep: "in_files ev ?v a b k = in_files ev v a b k" for b k by (rule in_files_cong) simp_all
  have recov: "get_versioned w' b k [] \<noteq> None \<or> in_files ev v a b k" if ab: "a (b, k) = Some (data, m)" for b k data m
  proof (cases "in_files ev v a b k")
    case False
    then obtain i n where i: "i \<in> P" and n: "n \<in> set (nd i)" "needle_key n = (b, k, [])" using main [of b k] ab by auto
    obtain dd where dd: "object_dir (lv_root v) b k = Inr dd" using storable_dir [OF st [OF ab]] by blast
    have "\<not> dest_exists ev (lv_root v) (lv_files v) b k []"
      using False shard [OF dd] object_paths(1) [OF dd]
      by (cases "fs_read (lv_files v) (dd @ [NormalComp ''shard.dat'']) = None") (auto simp: dest_exists_def is_file_def)
    moreover have "covered ev (lv_root v) (lv_files v) (nd i) w'" using cov nt i by blast
    ultimately show ?thesis using n by (auto simp: covered_def needle_key_def get_versioned_def)
  qed simp
  have "req_ok ev nd' w' a req" if "req \<in> set (drain_recovery_requests w')" for req
  proof -
    from that obtain b k vid e where mem: "((b, k, vid), e) \<in> set (w_pending w')"
      and req: "req = \<lparr> mr_bucket = b, mr_key = k, mr_version_id = vid, mr_entry = e \<rparr>" by (auto simp: drain_recovery_requests_def)
    have "distinct (map fst (w_pending w'))" using ok by (simp add: wal_ok_def pend_ok_def)
    then have "get_versioned w' b k vid = Some e" using mem by (simp add: get_versioned_def)
    note p = pending_entry [OF ok this]
    from p(2) obtain n where n: "points_to ev (nd' (we_segment_id e)) e n" "needle_key n = (b, k, vid)" by blast
    have "n \<in> all_needles nd' w'" using points_to_mem [OF n(1)] p(1) by (auto simp: all_needles_def)
    then obtain b' k' data m where "a (b', k') = Some (data, m)" "n = obj_needle ev b' k' data m"
      using nak unfolding needles_acked_def by blast
    then have "vid = []" "a (b, k) \<noteq> None" using n(2) by auto
    then show ?thesis using p(1) n ok by (auto simp: req_ok_def req wal_ok_def)
  qed
  then have "vol_inv ev nd' w' ?v a" unfolding vol_inv_def keep using ok clean nak st recov shard by simp
  then show ?thesis by blast
qed

lemma vol_inv_restart:
  assumes inv: "vol_inv ev nd w v a" and room: "w_next w \<le> 0xFFFFFFFE"
  shows "\<exists>nd' w'. vol_inv ev nd' w' (restart ev now w v) a"
proof -
  note D = vol_invD [OF inv]
  from D(2) obtain P where P: "dir_ok ev (w_capacity w) nd P (w_dir w)" "live w \<subseteq> P" "P \<subseteq> insert 0 (live w)" and nd0: "nd 0 = []"
    and cap: "SUPERBLOCK_SIZE \<le> w_capacity w" "w_capacity w < 2 ^ 32" and ids: "\<forall>i \<in> live w. i < w_next w"
    by (auto simp: wal_ok_def files_ok_def)
  have lim: "\<forall>i \<in> P. i \<le> 0xFFFFFFFD"
  proof
    fix i assume "i \<in> P"
    then consider "i = 0" | "i < w_next w" using P(3) ids by blast
    then show "i \<le> 0xFFFFFFFD" by cases (use room in \<open>simp_all add: word_le_nat_alt word_less_nat_alt\<close>)
  qed
  have "(\<Union>i \<in> P. set (nd i)) \<subseteq> all_needles nd w" using P(3) nd0 by (auto simp: all_needles_def)
  then have na: "needles_acked ev a (\<Union>i \<in> P. set (nd i))" using needles_acked_mono [OF D(4)] by simp
  have main: "(\<exists>i \<in> P. \<exists>n \<in> set (nd i). needle_key n = (b, k, [])) \<or> in_files ev v a b k" if "a (b, k) \<noteq> None" for b k
  proof (cases "get_versioned w b k []")
    case None
    then show ?thesis using D(6) [of b k] that by auto
  next
    case (Some e)
    note p = pending_entry [OF D(2) Some]
    then show ?thesis using P(2) points_to_mem by blast
  qed
  have "restart ev now w v = (let w' = wal_open ev (lv_root v) (lv_files v) now (w_capacity w) (w_dir w)
      in v\<lparr> lv_wal := Some w', lv_threshold := lv_threshold v, lv_queue := drain_recovery_requests w' \<rparr>)"
    by (simp add: restart_def enable_wal_with_config_def Let_def)
  moreover have "\<exists>nd'. vol_inv ev nd' (wal_open ev (lv_root v) (lv_files v) now (w_capacity w) (w_dir w))
      (v\<lparr> lv_wal := Some (wal_open ev (lv_root v) (lv_files v) now (w_capacity w) (w_dir w)), lv_threshold := lv_threshold v,
         lv_queue := drain_recovery_requests (wal_open ev (lv_root v) (lv_files v) now (w_capacity w) (w_dir w)) \<rparr>) a"
    by (rule vol_inv_open [OF P(1) nd0 lim cap D(3) na D(5) main]) (assumption | (rule D(7); assumption))+
  ultimately show ?thesis by (metis (lifting) Let_def)
qed

lemma vol_step_inv:
  assumes "vol_step ev s s'" and "\<exists>nd w. vol_inv ev nd w (fst s) (snd s)"
  shows "\<exists>nd w. vol_inv ev nd w (fst s') (snd s')"
  using assms
proof (induction rule: vol_step.induct)
  case (Put now has_room b k data m v v' a w)
  then obtain nd w' where inv: "vol_inv ev nd w' v a" by auto
  then have "w' = w" using Put vol_invD(1) by fastforce
  with vol_inv_put [OF inv Put(3,2) _ Put(1)] Put(5) show ?case by (auto simp del: fun_upd_apply)
next
  case (Put_fails now has_room b k data m v e v' a w)
  then obtain nd w' where inv: "vol_inv ev nd w' v a" by auto
  then have "w' = w" using Put_fails vol_invD(1) by fastforce
  with vol_inv_put [OF inv Put_fails(3,2) _ Put_fails(1)] Put_fails(5) show ?case by auto
next
  case (Work v q1 req q2 w w' fs' a)
  then obtain nd w0 where "vol_inv ev nd w0 v a" by auto
  with Work have inv: "vol_inv ev nd w v a" using vol_invD(1) by fastforce
  have req: "req \<in> set (lv_queue v)" and sub: "set (q1 @ q2) \<subseteq> set (lv_queue v)" using Work(1) by auto
  obtain r fs1 where p: "process_materialize ev (lv_root v) w req (lv_files v) = (r, fs1)" by fastforce
  note pm = process_materialize_inv [OF inv req p]
  have vid: "mr_version_id req = []" using vol_invD(8) [OF inv req] by (simp add: req_ok_def)
  show ?case
  proof (cases r)
    case (Inl e)
    then have "w' = w" "fs' = fs1" using Work(3) p by (simp_all add: materialize_worker_def)
    then show ?thesis using pm(1) sub Work(2) unfolding vol_inv_def in_files_def
      by (intro exI [of _ nd] exI [of _ w]) auto
  next
    case (Inr u)
    then have "w' = mark_materialized_versioned (mr_bucket req) (mr_key req) [] w" "fs' = fs1"
      using Work(3) p vid by (simp_all add: materialize_worker_def)
    moreover have "vol_inv ev nd (mark_materialized_versioned (mr_bucket req) (mr_key req) [] w)
        (v\<lparr> lv_files := fs1, lv_wal := Some (mark_materialized_versioned (mr_bucket req) (mr_key req) [] w), lv_queue := q1 @ q2 \<rparr>) a"
      by (rule vol_inv_mark [OF pm(1) pm(2)]) (use Inr sub in simp_all)
    moreover have "v\<lparr> lv_wal := x, lv_files := y, lv_queue := z \<rparr> = v\<lparr> lv_files := y, lv_wal := x, lv_queue := z \<rparr>" for x y z by simp
    ultimately show ?thesis by (metis fst_conv snd_conv)
  qed
next
  case (Stop_in_work req v w r fs' a)
  then obtain nd w0 where "vol_inv ev nd w0 v a" by auto
  with Stop_in_work have inv: "vol_inv ev nd w v a" using vol_invD(1) by fastforce
  from process_materialize_inv(1) [OF inv Stop_in_work(1,3)] show ?case by auto
next
  case (Lose v q1 req q2 a)
  then obtain nd w where inv: "vol_inv ev nd w v a" by auto
  then have "vol_inv ev nd w (v\<lparr> lv_queue := q1 @ q2 \<rparr>) a" using Lose(1) unfolding vol_inv_def in_files_def by simp
  then show ?case by auto
next
  case (Restart v w a now)
  then obtain nd w0 where "vol_inv ev nd w0 v a" by auto
  with Restart have "vol_inv ev nd w v a" using vol_invD(1) by fastforce
  from vol_inv_restart [OF this Restart(2)] show ?case by auto
qed

lemma vol_reach_inv: "vol_reach ev s \<Longrightarrow> \<exists>nd w. vol_inv ev nd w (fst s) (snd s)"
proof (induction rule: vol_reach.induct)
  case (Init fs root cap now th vid)
  let ?v = "\<lparr> lv_root = root, lv_volume_id = vid, lv_wal = None, lv_threshold = 0, lv_files = fs, lv_queue = [] \<rparr>"
  have dir: "dir_ok ev cap (\<lambda>_. []) {} []" by (simp add: dir_ok_def)
  from vol_inv_open [where v = ?v and a = Map.empty and now = now and th = th, OF dir _ _ Init(3,4)] Init(1,2)
  show ?case by (auto simp: enable_wal_with_config_def Let_def needles_acked_def)
next
  case (Step s s')
  then show ?case using vol_step_inv by blast
qed


section \<open>A run\<close>

lemma wal_open_empty:
  assumes "SUPERBLOCK_SIZE \<le> cap" and "cap < 2 ^ 32"
  shows "w_next (wal_open ev root fs now cap []) = 3"
    and "w_active (wal_open ev root fs now cap []) = \<lparr> as_segment_id = 2, as_write_offset = SUPERBLOCK_SIZE, as_capacity = cap \<rparr>"
proof -
  obtain act d0 where c: "segment_create now 1 cap [] = (act, d0)" by fastforce
  have "active_holds (e_xxh64 ev) [] act d0" "as_segment_id act = 1"
    using segment_create_fresh [of "[]" 1 cap now act d0] assms c by auto
  then have h: "seg_holds (e_xxh64 ev) 1 [] d0" by (simp add: active_holds_def)
  have names: "filter has_dat_extension (map fst d0) = [seg_name 1]"
    using c by (auto simp: segment_create_def Let_def has_dat_seg_name)
  note so = sealed_open_holds [OF h]
  show "w_next (wal_open ev root fs now cap []) = 3"
    "w_active (wal_open ev root fs now cap []) = \<lparr> as_segment_id = 2, as_write_offset = SUPERBLOCK_SIZE, as_capacity = cap \<rparr>"
    by (simp_all add: wal_open_def c names Let_def recover_file_def so recover_segment_def count_of_def)
      (simp_all add: segment_create_def Let_def)
qed

lemma wal_append_room:
  assumes "as_write_offset (w_active w) + serialized_size n \<le> as_capacity (w_active w)"
  shows "\<exists>e w'. wal_append ev now n w = (Inr e, w') \<and> w_next w' = w_next w
    \<and> w_active w' = (w_active w)\<lparr> as_write_offset := as_write_offset (w_active w) + serialized_size n \<rparr>"
  using assms by (simp add: wal_append_def try_append_def segment_append_def Let_def)

definition demo_meta :: object_meta where
  "demo_meta = \<lparr> om_size = 1, om_etag = [], om_content_type = [], om_created_at = 0,
     om_erasure = \<lparr> em_ftt = 0, em_index = 0, em_epoch_id = 0, em_volume_ids = [] \<rparr>, om_checksum = [],
     om_user_metadata = Map.empty, om_tags = Map.empty, om_version_id = [], om_is_latest = True,
     om_is_delete_marker = False, om_parts = [], om_inline_data = None \<rparr>"

definition demo_env :: env where
  "demo_env = \<lparr> e_xxh64 = (\<lambda>_. 0), e_meta_enc = (\<lambda>_. []), e_meta_dec = (\<lambda>_. Some demo_meta),
     e_json_enc = (\<lambda>mf. case om_inline_data (hd (mf_versions mf)) of None \<Rightarrow> [0] | Some s \<Rightarrow> 1 # str_bytes s),
     e_json_dec = (\<lambda>bs. Some (single_version ''bk'' ''k''
       (demo_meta\<lparr> om_inline_data := (if bs = [0] then None else Some (bytes_str (drop 1 bs))) \<rparr>))),
     e_settings_enc = (\<lambda>_. []), e_settings_dec = (\<lambda>_. None), e_b64_enc = bytes_str, e_b64_dec = (\<lambda>s. Some (str_bytes s)),
     e_is_uuid = (\<lambda>_. False) \<rparr>"

lemma str_bytes_bytes_str [simp]: "str_bytes (bytes_str bs) = bs"
proof -
  have "unat x mod 256 = unat x" for x :: u8 using unsigned_less [of x, where ?'a = nat] by simp
  then show ?thesis by (simp add: str_bytes_def bytes_str_def comp_def)
qed

lemma demo_enc [simp]: "e_meta_enc demo_env m = []"
  by (simp add: demo_env_def)

lemma demo_storable: "length data < 100 \<Longrightarrow> storable demo_env ''bk'' ''k'' data demo_meta"
  using sample_names(1,2) rust_str_ascii [of "''bk''"] rust_str_ascii [of "''k''"]
  by (simp add: storable_def tier_safe_def codecs_ok_def demo_env_def demo_meta_def obj_needle_def needle_new_def
      needle_fits_def inline_meta_def single_version_def)


section \<open>Overwriting\<close>

text \<open>An entry whose shard is in the files is not recovered.\<close>

lemma get_add_pending: "get_versioned (add_pending key e w) b k v = (if key = (b, k, v) then Some e else get_versioned w b k v)"
  by (auto simp: get_versioned_def)

lemma recover_entry_skip:
  assumes "dest_exists ev root fs b k vid" and "get_versioned w b k vid = None"
  shows "get_versioned (recover_entry ev root fs seg vo w) b k vid = None"
  using assms
  by (auto simp: recover_entry_def Let_def get_add_pending split: prod.splits)
    (auto simp: get_versioned_def delete_conv' restrict_map_def)

lemma recover_file_skip:
  assumes de: "dest_exists ev root fs b k vid" and "get_versioned w b k vid = None"
  shows "get_versioned (recover_file ev root fs name w) b k vid = None"
proof -
  have scan: "get_versioned (fold (recover_entry ev root fs seg) vs w1) b k vid = None"
    if "get_versioned w1 b k vid = None" for vs seg w1
    using that by (induction vs arbitrary: w1) (simp_all add: recover_entry_skip [OF de])
  show ?thesis
  proof (cases "sealed_open (e_xxh64 ev) name (w_dir w)")
    case (Inr seg)
    let ?w1 = "if ss_segment_id seg \<ge> w_next w then w\<lparr> w_next := ss_segment_id seg + 1 \<rparr> else w"
    have "get_versioned ?w1 b k vid = None" using assms(2) by (simp add: get_versioned_def)
    then have "get_versioned (recover_segment ev root fs seg ?w1) b k vid = None"
      unfolding recover_segment_def by (rule scan)
    then show ?thesis using Inr by (simp add: recover_file_def Let_def get_versioned_def)
  qed (use assms(2) in \<open>simp add: recover_file_def\<close>)
qed

lemma wal_open_skip:
  assumes de: "dest_exists ev root fs b k vid"
  shows "get_versioned (wal_open ev root fs now cap d) b k vid = None"
proof -
  have files: "get_versioned (fold (recover_file ev root fs) names w) b k vid = None"
    if "get_versioned w b k vid = None" for names w
    using that by (induction names arbitrary: w) (simp_all add: recover_file_skip [OF de])
  show ?thesis unfolding wal_open_def Let_def case_prod_beta
    by (simp add: get_versioned_def) (use files in \<open>simp add: get_versioned_def\<close>)
qed

text \<open>When a shard of the object lies in the files, a restart answers from the files, whatever
  the log holds.  So an acknowledged overwrite that is still in the log is forgotten in favour
  of the older object, and an object whose worker was stopped between its shard and its metadata
  is not found any more.\<close>

theorem restart_prefers_files:
  assumes d: "object_dir (lv_root v) b k = Inr d" and f: "is_file (lv_files v) (d @ [NormalComp ''shard.dat''])"
  shows "read_shard ev (restart ev now w v) b k = read_file_tier ev strip_inline (lv_root v) (lv_files v) b k"
proof -
  have "dest_exists ev (lv_root v) (lv_files v) b k []" using f object_paths(1) [OF d] by (simp add: dest_exists_def)
  from wal_open_skip [OF this, of now "w_capacity w" "w_dir w"] show ?thesis
    by (simp add: restart_def enable_wal_with_config_def Let_def read_shard_def read_shard_from_wal_versioned_def)
qed

definition torn_files :: files where
  "torn_files = [([RootDir, NormalComp ''bk'', NormalComp ''k''], None),
     ([RootDir, NormalComp ''bk'', NormalComp ''k'', NormalComp ''shard.dat''], Some [7])]"

theorem restart_prefers_files_witness:
  "read_shard demo_env (restart demo_env 0 (wal_open demo_env [RootDir] [] 0 200 [])
     \<lparr> lv_root = [RootDir], lv_volume_id = [], lv_wal = None, lv_threshold = 0, lv_files = torn_files, lv_queue = [] \<rparr>) ''bk'' ''k''
   = Inl ObjectNotFound"
proof -
  let ?v = "\<lparr> lv_root = [RootDir], lv_volume_id = [], lv_wal = None, lv_threshold = 0, lv_files = torn_files, lv_queue = [] \<rparr>"
  let ?d = "[RootDir, NormalComp ''bk'', NormalComp ''k'']"
  have d: "object_dir (lv_root ?v) ''bk'' ''k'' = Inr ?d"
    using sample_names by (simp add: object_dir_eq Pathing.normalize_path_def norm_step_def)
  have f: "is_file (lv_files ?v) (?d @ [NormalComp ''shard.dat''])" by (simp add: torn_files_def is_file_def fs_read_def)
  have "read_file_tier demo_env strip_inline (lv_root ?v) (lv_files ?v) ''bk'' ''k'' = Inl ObjectNotFound"
    using d object_paths(2) [OF d] by (simp add: read_file_tier_def read_meta_file_def torn_files_def fs_read_def is_dir_def)
  then show ?thesis using restart_prefers_files [OF d f] by simp
qed


definition nested_volume :: local_volume where
  "nested_volume = \<lparr> lv_root = [RootDir], lv_volume_id = [], lv_wal = None, lv_threshold = 0,
     lv_files = [([RootDir, NormalComp ''bk'', NormalComp ''k''], None)], lv_queue = [] \<rparr>"


lemma wal_put_fields:
  assumes "wal_put ev now has_room w b k vid data m v = (Inr (), v')"
  shows "lv_root v' = lv_root v" "lv_files v' = lv_files v" "lv_threshold v' = lv_threshold v"
    and "\<exists>e w'. wal_append ev now (needle_new (e_meta_enc ev) b k (if vid = [] then None else Some vid) m data) w = (Inr e, w')
      \<and> lv_wal v' = Some w'
      \<and> lv_queue v' = lv_queue v @ (if has_room then [\<lparr> mr_bucket = b, mr_key = k, mr_version_id = vid, mr_entry = e \<rparr>] else [])"
  using assms by (auto simp: wal_put_def Let_def send_request_def split: prod.splits sum.splits)

text \<open>
  The log got a newer object for the key while the request of the older one waits: the worker
  writes the older object and the key is not pending any more.
\<close>

lemma stale_request:
  assumes inv: "vol_inv ev nd1 w1 v1 a1" and a1: "a1 (b, k) = Some (data1, m1)"
    and rq: "req \<in> set (lv_queue v1)" "mr_bucket req = b" "mr_key req = k" and lv: "we_segment_id (mr_entry req) \<in> live w1"
    and fit: "needle_fits (obj_needle ev b k data2 m2)" and room: "w_next w1 < 0xFFFFFFFF"
    and app: "wal_append ev now (obj_needle ev b k data2 m2) w1 = (Inr e2, w2)"
    and d: "object_dir (lv_root v1) b k = Inr d" and nf: "\<forall>p \<in> set (prefixes_of d). \<not> is_file (lv_files v1) p"
  shows "\<exists>fs3. process_materialize ev (lv_root v1) w2 req (lv_files v1) = (Inr (), fs3)
      \<and> read_file_tier ev strip_inline (lv_root v1) fs3 b k = Inr (data1, m1)"
    and "get_versioned (mark_materialized_versioned b k [] w2) b k [] = None"
proof -
  note D = vol_invD [OF inv]
  have ro: "req_ok ev nd1 w1 a1 req" by (rule D(8) [OF rq(1)])
  then have vid: "mr_version_id req = []" by (simp add: req_ok_def)
  from ro lv rq obtain n where pt: "points_to ev (nd1 (we_segment_id (mr_entry req))) (mr_entry req) n" and key: "needle_key n = (b, k, [])"
    by (auto simp: req_ok_def)
  have "n \<in> all_needles nd1 w1" using points_to_mem [OF pt] lv by (auto simp: all_needles_def)
  then obtain b' k' data m where "a1 (b', k') = Some (data, m)" and "n = obj_needle ev b' k' data m"
    using D(4) unfolding needles_acked_def by blast
  then have n: "n = obj_needle ev b k data1 m1" using key a1 by auto
  from wal_append_ok [OF D(2) fit room app] obtain nd2 where ok2: "wal_ok ev nd2 w2" and sub: "live w1 \<subseteq> live w2"
    and ext: "\<forall>i \<in> live w1. \<exists>ms. nd2 i = nd1 i @ ms" by auto
  have "points_to ev (nd2 (we_segment_id (mr_entry req))) (mr_entry req) n" using pt ext lv points_to_append by metis
  note rd = read_points_to [OF ok2 subsetD [OF sub lv] this]
  have st: "storable ev b k data1 m1" by (rule D(5) [OF a1])
  have p: "process_materialize ev (lv_root v1) w2 req (lv_files v1) = write_object_files ev d data1 (single_version b k m1) (lv_files v1)"
    using rd n vid rq d st
    by (simp add: process_materialize_def Let_def read_meta_def decode_meta_def storable_def codecs_ok_def)
  have ts: "tier_safe k" using st by (simp add: storable_def)
  obtain fs3 where w: "write_object_files ev d data1 (single_version b k m1) (lv_files v1) = (Inr (), fs3)"
    using write_object_files_ok [OF d ts D(3) nf] by blast
  have "read_file_tier ev strip_inline (lv_root v1) fs3 b k = Inr (data1, m1)"
    using write_object_files_cases [OF d ts D(3) w] by (intro read_file_tier_single [OF d _ _ _ st]) auto
  then show "\<exists>fs3. process_materialize ev (lv_root v1) w2 req (lv_files v1) = (Inr (), fs3)
      \<and> read_file_tier ev strip_inline (lv_root v1) fs3 b k = Inr (data1, m1)" using p w by simp
  show "get_versioned (mark_materialized_versioned b k [] w2) b k [] = None"
    using mark_materialized_ok(2) [OF ok2] by (simp add: get_versioned_def)
qed


lemma demo_put:
  assumes w: "lv_wal v = Some w" and th: "length data \<le> lv_threshold v" "lv_threshold v \<le> 50"
    and off: "as_write_offset (w_active w) + 77 \<le> as_capacity (w_active w)"
  shows "\<exists>v' w'. write_shard demo_env 0 has_room ''bk'' ''k'' data demo_meta v = (Inr (), v') \<and> lv_wal v' = Some w' \<and> w_next w' = w_next w
    \<and> as_write_offset (w_active w') \<le> as_write_offset (w_active w) + 77 \<and> as_capacity (w_active w') = as_capacity (w_active w)
    \<and> lv_root v' = lv_root v \<and> lv_files v' = lv_files v \<and> lv_threshold v' = lv_threshold v"
proof -
  have st: "storable demo_env ''bk'' ''k'' data demo_meta" by (rule demo_storable) (use th in simp)
  obtain d where d: "object_dir (lv_root v) ''bk'' ''k'' = Inr d" using storable_dir [OF st] by blast
  let ?n = "obj_needle demo_env ''bk'' ''k'' data demo_meta"
  have sz: "serialized_size ?n \<le> 77" using th by (simp add: serialized_size_def HEADER_SIZE_def)
  with off have "as_write_offset (w_active w) + serialized_size ?n \<le> as_capacity (w_active w)" by simp
  from wal_append_room [OF this, of demo_env 0] obtain e w' where
    app: "wal_append demo_env 0 ?n w = (Inr e, w')" "w_next w' = w_next w"
      "w_active w' = (w_active w)\<lparr> as_write_offset := as_write_offset (w_active w) + serialized_size ?n \<rparr>" by blast
  have "write_shard demo_env 0 has_room ''bk'' ''k'' data demo_meta v = wal_put demo_env 0 has_room w ''bk'' ''k'' [] data demo_meta v"
    using write_shard_storable [OF st w d, of 0 has_room] th by simp
  then show ?thesis using app sz by (auto simp: wal_put_def obj_needle_def Let_def send_request_def)
qed


end
