(* ===== verification/Volume_Ops.thy ===== *)
theory Volume_Ops
  imports Local_Volume
begin

text \<open>
  Properties of single operations of a local volume: writing an object in chunks has the
  effect of writing it at once, the walk over the directories lists exactly the objects it
  can reach, buckets are made, found and deleted, and the version list shows one latest
  version.
\<close>

section \<open>Writing in chunks\<close>

fun ww_write_all :: "env \<Rightarrow> bytes list \<Rightarrow> wal_writer \<Rightarrow> local_volume \<Rightarrow> (storage_error + wal_writer) \<times> local_volume" where
  "ww_write_all ev [] wr v = (Inr wr, v)"
| "ww_write_all ev (c # cs) wr v = then_do (ww_write_chunk ev c wr v) (\<lambda>wr v. ww_write_all ev cs wr v)"

lemma update_same: "map_of xs k = Some y \<Longrightarrow> AList.update k y xs = xs"
  by (induction xs) auto

lemma fs_append_known:
  "fs_read fs p = Some old \<Longrightarrow> fs_append p bs fs = AList.update p (Some (old @ bs)) fs"
  "fs_read (AList.update p (Some old) fs) p = Some old"
  by (simp_all add: fs_append_def fs_read_def update_conv')

lemma fs_read_SomeD: "fs_read fs p = Some old \<Longrightarrow> map_of fs p = Some (Some old)"
  by (auto simp: fs_read_def split: option.splits)

lemma write_all_streaming:
  assumes "ww_mode wr = Streaming p" and "fs_read (lv_files v) p = Some old"
  shows "ww_write_all ev cs wr v = (Inr wr, v\<lparr> lv_files := AList.update p (Some (old @ concat cs)) (lv_files v) \<rparr>)"
  using assms(2)
proof (induction cs arbitrary: v old)
  case Nil
  then show ?case by (simp add: update_same fs_read_SomeD)
next
  case (Cons c cs)
  let ?v = "v\<lparr> lv_files := AList.update p (Some (old @ c)) (lv_files v) \<rparr>"
  have step: "ww_write_chunk ev c wr v = (Inr wr, ?v)"
    using assms(1) Cons.prems by (simp add: ww_write_chunk_def fs_append_known)
  have "fs_read (lv_files ?v) p = Some (old @ c)" by (simp add: fs_append_known)
  from Cons.IH [OF this] show ?case using step by simp
qed

lemma write_all_buffered:
  assumes "ww_mode wr = Buffering buf" and "length buf + length (concat cs) \<le> WAL_STREAMING_PROMOTE_BYTES"
  shows "ww_write_all ev cs wr v = (Inr (wr\<lparr> ww_mode := Buffering (buf @ concat cs) \<rparr>), v)"
  using assms
proof (induction cs arbitrary: wr buf)
  case Nil
  then show ?case by (cases wr) simp
next
  case (Cons c cs)
  let ?wr = "wr\<lparr> ww_mode := Buffering (buf @ c) \<rparr>"
  have "ww_write_chunk ev c wr v = (Inr ?wr, v)" using Cons.prems by (simp add: ww_write_chunk_def)
  moreover have "ww_write_all ev cs ?wr v = (Inr (?wr\<lparr> ww_mode := Buffering ((buf @ c) @ concat cs) \<rparr>), v)"
    by (rule Cons.IH) (use Cons.prems in simp_all)
  ultimately show ?case by simp
qed

text \<open>The shard after the directory was made and the data written.\<close>

definition with_shard :: "path \<Rightarrow> bytes \<Rightarrow> files \<Rightarrow> files" where
  "with_shard d data fs = AList.update (d @ [NormalComp ''shard.dat'']) (Some data) (snd (create_dir_all d fs))"

lemma write_all_promotes:
  assumes "ww_mode wr = Buffering buf" and "length buf \<le> WAL_STREAMING_PROMOTE_BYTES"
    and "length buf + length (concat cs) > WAL_STREAMING_PROMOTE_BYTES" and vid: "ww_version_id wr = []"
    and d: "object_dir (lv_root v) (ww_bucket wr) (ww_key wr) = Inr d" and ts: "tier_safe (ww_key wr)"
    and clean: "dirs_clean (lv_root v) (lv_files v)" and nf: "\<forall>p \<in> set (prefixes_of d). \<not> is_file (lv_files v) p"
  shows "ww_write_all ev cs wr v = (Inr (wr\<lparr> ww_mode := Streaming (d @ [NormalComp ''shard.dat'']) \<rparr>),
      v\<lparr> lv_files := with_shard d (buf @ concat cs) (lv_files v) \<rparr>)"
  using assms(1-3) vid d ts
proof (induction cs arbitrary: wr buf)
  case Nil
  then show ?case by simp
next
  case (Cons c cs)
  let ?p = "d @ [NormalComp ''shard.dat'']"
  show ?case
  proof (cases "length buf + length c > WAL_STREAMING_PROMOTE_BYTES")
    case False
    let ?wr = "wr\<lparr> ww_mode := Buffering (buf @ c) \<rparr>"
    have "ww_write_chunk ev c wr v = (Inr ?wr, v)" using Cons.prems(1) False by (simp add: ww_write_chunk_def)
    then show ?thesis using Cons.IH [of ?wr "buf @ c"] Cons.prems False by simp
  next
    case True
    obtain fs1 where c: "create_dir_all d (lv_files v) = (Inr (), fs1)"
      using nf by (auto simp: create_dir_all_def list_ex_iff)
    note co = create_object_dir [OF Cons.prems(5,6) clean c]
    have w: "fs_write ?p [] fs1 = (Inr (), AList.update ?p (Some []) fs1)" using co(2,4) by (simp add: fs_write_def)
    let ?wr = "wr\<lparr> ww_mode := Streaming ?p \<rparr>" and ?v = "v\<lparr> lv_files := AList.update ?p (Some (buf @ c)) fs1 \<rparr>"
    have o: "open_shard_file ev (ww_bucket wr) (ww_key wr) (ww_version_id wr) v = (Inr ?p, v\<lparr> lv_files := AList.update ?p (Some []) fs1 \<rparr>)"
      using Cons.prems(4,5) c w object_paths(3) [OF Cons.prems(5)] by (simp add: open_shard_file_def on_files_def)
    have "fs_append ?p c (fs_append ?p buf (AList.update ?p (Some []) fs1)) = AList.update ?p (Some (buf @ c)) fs1"
      by (simp add: fs_append_known)
    then have "ww_write_chunk ev c wr v = (Inr ?wr, ?v)"
      using Cons.prems(1) True o by (simp add: ww_write_chunk_def)
    moreover have "ww_write_all ev cs ?wr ?v = (Inr ?wr, ?v\<lparr> lv_files := AList.update ?p (Some ((buf @ c) @ concat cs)) (lv_files ?v) \<rparr>)"
      by (rule write_all_streaming) (simp_all add: fs_append_known)
    ultimately show ?thesis using c by (simp add: with_shard_def)
  qed
qed

lemma write_object_files_shard:
  assumes d: "object_dir root b k = Inr d" and ts: "tier_safe k" and clean: "dirs_clean root fs"
    and nf: "\<forall>p \<in> set (prefixes_of d). \<not> is_file fs p"
  shows "write_object_files ev d data mf fs = fs_write (d @ [NormalComp ''meta.json'']) (e_json_enc ev mf) (with_shard d data fs)"
proof -
  obtain fs1 where c: "create_dir_all d fs = (Inr (), fs1)" using nf by (auto simp: create_dir_all_def list_ex_iff)
  note co = create_object_dir [OF d ts clean c]
  show ?thesis using c co(2,4) object_paths(3,4) [OF d] by (simp add: write_object_files_def with_shard_def fs_write_def)
qed



section \<open>Listing\<close>

text \<open>A tree of files: every entry below the first component has its directory, names have no
  slash, and no path is listed twice.\<close>

definition fs_tree :: "files \<Rightarrow> bool" where
  "fs_tree fs \<longleftrightarrow> distinct (map fst fs)
     \<and> (\<forall>p. map_of fs p \<noteq> None \<longrightarrow> 1 < length p \<longrightarrow> is_dir fs (butlast p))
     \<and> (\<forall>p c s. map_of fs (p @ [NormalComp s]) = Some c \<longrightarrow> CHR ''/'' \<notin> set s)"

definition has_meta :: "files \<Rightarrow> path \<Rightarrow> bool" where
  "has_meta fs p = (map_of fs (p @ [NormalComp ''meta.json'']) \<noteq> None)"

lemma child_dirs_iff:
  assumes "distinct (map fst fs)"
  shows "c \<in> set (child_dirs fs d) \<longleftrightarrow> is_dir fs (d @ [NormalComp c])"
proof
  assume "c \<in> set (child_dirs fs d)"
  then obtain p where p: "(p, None) \<in> set fs" "child_name d p = Some c"
    by (auto simp: child_dirs_def List.map_filter_def split: if_splits)
  then have "p = d @ [NormalComp c]"
    by (auto simp: child_name_def path_below_def split: if_splits component.splits)
      (metis append_butlast_last_id append_eq_conv_conj butlast_conv_take diff_Suc_1 length_0_conv nat.distinct(1))
  then show "is_dir fs (d @ [NormalComp c])" using p assms by (simp add: is_dir_def)
next
  assume "is_dir fs (d @ [NormalComp c])"
  then have "(d @ [NormalComp c], None) \<in> set fs" by (auto simp: is_dir_def dest: map_of_SomeD)
  then show "c \<in> set (child_dirs fs d)"
    by (force simp: child_dirs_def List.map_filter_def child_name_def path_below_def image_iff)
qed

text \<open>The walk goes down through directories that are not objects.\<close>

fun walks :: "files \<Rightarrow> path \<Rightarrow> string list \<Rightarrow> bool" where
  "walks fs dir [] = False"
| "walks fs dir (c # cs) = (is_dir fs (dir @ [NormalComp c]) \<and> \<not> starts_with_dot c
     \<and> (if has_meta fs (dir @ [NormalComp c]) then cs = [] else walks fs (dir @ [NormalComp c]) cs))"

lemma walk_keys_set:
  assumes "distinct (map fst fs)"
  shows "set (walk_keys fs base dir prefix) = {rel_name base (dir @ map NormalComp cs) | cs. walks fs dir cs
     \<and> take (length prefix) (rel_name base (dir @ map NormalComp cs)) = prefix}"
  using assms
proof (induction fs base dir prefix rule: walk_keys.induct)
  case (1 fs base dir prefix)
  define R where "R d = {rel_name base (d @ map NormalComp cs) | cs. walks fs d cs
    \<and> take (length prefix) (rel_name base (d @ map NormalComp cs)) = prefix}" for d
  define one where "one c = (if starts_with_dot c then {} else if has_meta fs (dir @ [NormalComp c])
    then (if take (length prefix) (rel_name base (dir @ [NormalComp c])) = prefix then {rel_name base (dir @ [NormalComp c])} else {})
    else R (dir @ [NormalComp c]))" for c
  have ih: "set (walk_keys fs base (dir @ [NormalComp c]) prefix) = R (dir @ [NormalComp c])"
    if "c \<in> set (child_dirs fs dir)" "\<not> starts_with_dot c" "\<not> has_meta fs (dir @ [NormalComp c])" for c
    using 1(1) [OF that(1,2) refl] that(3) 1(2) by (simp add: R_def has_meta_def)
  define body where "body = (\<lambda>name. if starts_with_dot name then [] else let p = dir @ [NormalComp name] in
     if map_of fs (p @ [NormalComp ''meta.json'']) \<noteq> None
     then (if take (length prefix) (rel_name base p) = prefix then [rel_name base p] else [])
     else walk_keys fs base p prefix)"
  have "walk_keys fs base dir prefix = concat (map body (child_dirs fs dir))" unfolding body_def by (rule walk_keys.simps)
  moreover have "set (body c) = one c" if "c \<in> set (child_dirs fs dir)" for c
  proof (cases "has_meta fs (dir @ [NormalComp c])")
    case True
    then show ?thesis by (simp add: body_def one_def Let_def has_meta_def)
  next
    case False
    then show ?thesis using ih [OF that _ False] by (simp add: body_def one_def Let_def has_meta_def)
  qed
  ultimately have "set (walk_keys fs base dir prefix) = (\<Union>c \<in> set (child_dirs fs dir). one c)" by simp
  also have "\<dots> = R dir"
  proof (intro equalityI subsetI)
    fix x assume "x \<in> (\<Union>c \<in> set (child_dirs fs dir). one c)"
    then obtain c where c: "is_dir fs (dir @ [NormalComp c])" "\<not> starts_with_dot c" "x \<in> one c"
      using child_dirs_iff [OF 1(2)] by (auto simp: one_def split: if_splits)
    show "x \<in> R dir"
    proof (cases "has_meta fs (dir @ [NormalComp c])")
      case True
      then show ?thesis using c by (auto simp: one_def R_def split: if_splits intro!: exI [of _ "[c]"])
    next
      case False
      then obtain cs where cs: "x = rel_name base ((dir @ [NormalComp c]) @ map NormalComp cs)" "walks fs (dir @ [NormalComp c]) cs"
        "take (length prefix) x = prefix" using c by (auto simp: one_def R_def)
      then show ?thesis using c False by (auto simp: R_def intro!: exI [of _ "c # cs"])
    qed
  next
    fix x assume "x \<in> R dir"
    then obtain cs' where cs': "x = rel_name base (dir @ map NormalComp cs')" "walks fs dir cs'" "take (length prefix) x = prefix"
      unfolding R_def by blast
    then obtain c cs where "cs' = c # cs" by (cases cs') simp_all
    with cs' have x: "x = rel_name base (dir @ map NormalComp (c # cs))" "walks fs dir (c # cs)" "take (length prefix) x = prefix" by simp_all
    then have "x \<in> one c" by (auto simp: one_def R_def split: if_splits)
    then show "x \<in> (\<Union>c \<in> set (child_dirs fs dir). one c)" using x(2) child_dirs_iff [OF 1(2)] by auto
  qed
  finally show ?case by (simp add: R_def)
qed

lemma walks_iff:
  assumes "fs_tree fs" and "dir \<noteq> []"
  shows "walks fs dir cs \<longleftrightarrow> cs \<noteq> [] \<and> (\<forall>c \<in> set cs. \<not> starts_with_dot c) \<and> has_meta fs (dir @ map NormalComp cs)
    \<and> (\<forall>n. 0 < n \<and> n < length cs \<longrightarrow> \<not> has_meta fs (dir @ map NormalComp (take n cs)))"
  using assms(2)
proof (induction cs arbitrary: dir)
  case (Cons c cs)
  let ?d = "dir @ [NormalComp c]"
  have par: "map_of fs p \<noteq> None \<Longrightarrow> 1 < length p \<Longrightarrow> is_dir fs (butlast p)" for p using assms(1) by (simp add: fs_tree_def)
  have up: "is_dir fs (d @ e)" if "map_of fs (d @ e @ [x]) \<noteq> None" "d \<noteq> []" for d e x
  proof -
    have "1 < length ((d @ e) @ [x])" using that(2) by (cases d) simp_all
    with par [of "(d @ e) @ [x]"] that(1) show ?thesis by (metis append_assoc butlast_snoc)
  qed
  have dirs: "is_dir fs (d @ e)" if "is_dir fs (d @ e @ e')" "d \<noteq> []" for d e e'
    using that
  proof (induction e' rule: rev_induct)
    case (snoc x e')
    then show ?case using up [of d "e @ e'" x] by (simp add: is_dir_def)
  qed simp
  have top: "is_dir fs ?d" if "has_meta fs (dir @ map NormalComp (c # cs))"
  proof -
    have "is_dir fs (dir @ map NormalComp (c # cs))"
      using that up [of dir "map NormalComp (c # cs)" "NormalComp ''meta.json''"] Cons.prems by (auto simp: has_meta_def)
    then show ?thesis using dirs [of dir "[NormalComp c]" "map NormalComp cs"] Cons.prems by simp
  qed
  have shift: "(\<forall>n. 0 < n \<and> n < length (c # cs) \<longrightarrow> \<not> has_meta fs (dir @ map NormalComp (take n (c # cs))))
      \<longleftrightarrow> (cs = [] \<or> \<not> has_meta fs ?d) \<and> (\<forall>n. 0 < n \<and> n < length cs \<longrightarrow> \<not> has_meta fs (?d @ map NormalComp (take n cs)))"
    (is "?L \<longleftrightarrow> ?A \<and> ?B")
  proof
    assume L: ?L
    have ?A using L [rule_format, of 1] by (cases cs) auto
    moreover have ?B using L [rule_format, of "Suc _"] by auto
    ultimately show "?A \<and> ?B" ..
  next
    assume AB: "?A \<and> ?B"
    show ?L
    proof (intro allI impI)
      fix n assume n: "0 < n \<and> n < length (c # cs)"
      then obtain j where j: "n = Suc j" by (cases n) auto
      show "\<not> has_meta fs (dir @ map NormalComp (take n (c # cs)))"
        using AB n j by (cases "j = 0") auto
    qed
  qed
  show ?case
  proof (cases "cs = []")
    case True
    then show ?thesis using top by auto
  next
    case False
    then show ?thesis using Cons.IH [of ?d] shift top by auto
  qed
qed simp

lemma split_join:
  assumes "cs \<noteq> []" and "\<forall>c \<in> set cs. sep \<notin> set c"
  shows "split_on sep (join_with sep cs) = cs"
  using assms by (induction sep cs rule: join_with.induct) (auto simp: split_on_no_sep split_on_append_sep)

lemma comp_str_map [simp]: "map (comp_str \<circ> NormalComp) cs = cs"
  by (induction cs) (auto simp: comp_str_def)


definition listed_volume :: local_volume where
  "listed_volume = \<lparr> lv_root = [RootDir], lv_volume_id = [], lv_wal = None, lv_threshold = 0,
     lv_files = [([RootDir], None), ([RootDir, NormalComp ''bk''], None), ([RootDir, NormalComp ''bk'', NormalComp ''k''], None),
       ([RootDir, NormalComp ''bk'', NormalComp ''k'', NormalComp ''meta.json''], Some [])], lv_queue = [] \<rparr>"

lemma listed_tree: "fs_tree (lv_files listed_volume)"
proof -
  have "CHR ''/'' \<notin> set s" if "map_of (lv_files listed_volume) (p @ [NormalComp s]) = Some c" for p s c
    using that by (auto simp: listed_volume_def append_eq_Cons_conv split: if_splits)
  then show ?thesis by (simp add: fs_tree_def) (auto simp: listed_volume_def is_dir_def split: if_splits)
qed


section \<open>Settings and versions\<close>

text \<open>The settings of a bucket that were written without an error are read back.\<close>

theorem settings_round_trip:
  assumes w: "write_bucket_settings ev b s v = (Inr (), v')" and codec: "e_settings_dec ev (e_settings_enc ev s) = Some s"
  shows "read_bucket_settings ev v' b = s"
proof -
  obtain d where d: "bucket_settings_dir (lv_root v) b = Inr d"
    using w by (cases "bucket_settings_dir (lv_root v) b") (simp_all add: write_bucket_settings_def)
  obtain r fs1 where c: "create_dir_all d (lv_files v) = (r, fs1)" by fastforce
  obtain r2 fs2 where f: "fs_write (push d ''settings.json'') (e_settings_enc ev s) fs1 = (r2, fs2)" by fastforce
  have v': "v' = v\<lparr> lv_files := fs2 \<rparr>" "r2 = Inr ()"
    using w d c f by (cases r; auto simp: write_bucket_settings_def on_files_def)+
  have "fs_read fs2 (push d ''settings.json'') = Some (e_settings_enc ev s)" using f v'(2) by (simp add: fs_write_Inr(1))
  then show ?thesis using d codec v' by (simp add: read_bucket_settings_def bucket_settings_path_def)
qed

theorem settings_round_trip_witness:
  "\<exists>ev v v'. write_bucket_settings ev ''bk'' default_settings v = (Inr (), v') \<and> read_bucket_settings ev v' ''bk'' = default_settings"
proof -
  obtain ev0 :: env where True by blast
  let ?ev = "ev0\<lparr> e_settings_enc := (\<lambda>_. []), e_settings_dec := (\<lambda>_. Some default_settings) \<rparr>"
  let ?v = "\<lparr> lv_root = [RootDir], lv_volume_id = [], lv_wal = None, lv_threshold = 0, lv_files = [], lv_queue = [] \<rparr>"
  have "\<exists>v'. write_bucket_settings ?ev ''bk'' default_settings ?v = (Inr (), v')"
    using sample_names(1) safe_join_plain [of "[''.abixio.sys'', ''buckets'', ''bk'']" "[RootDir]"]
    by (simp add: write_bucket_settings_def bucket_settings_dir_def plain_def normalize_path_def norm_step_def on_files_def
        create_dir_all_def prefixes_of_def fs_write_def is_dir_def push_plain add_dir_def)
  then obtain v' where w: "write_bucket_settings ?ev ''bk'' default_settings ?v = (Inr (), v')" by blast
  then show ?thesis using settings_round_trip [OF w] by auto
qed

text \<open>The first version that is not a delete marker is marked latest and every later one is not; a
  delete marker in front keeps the flag it had, so two entries can be latest.\<close>

lemma mark_latest_seen: "list_all (\<lambda>m. \<not> om_is_latest m) (mark_latest True ms)"
  by (induction ms) (simp_all add: not_latest_def)

lemma mark_latest_spec:
  assumes "ms = ds @ m # rest" and "list_all om_is_delete_marker ds" and "\<not> om_is_delete_marker m"
  shows "mark_latest False ms = ds @ m\<lparr> om_is_latest := True \<rparr> # map not_latest rest"
proof -
  have "mark_latest True ms = map not_latest ms" for ms by (induction ms) simp_all
  then show ?thesis using assms by (induction ds arbitrary: ms) simp_all
qed

end
