(* ===== verification/Backend.thy ===== *)
theory Backend
  imports Local_Volume
begin

text \<open>
  The storage interface of one disk: the traits \<open>Backend\<close> and \<open>ShardWriter\<close> of
  \<open>src/storage/mod.rs\<close> as a record of functions over the state \<open>'d\<close> of a disk and the state
  \<open>'w\<close> of an open writer, what \<open>Box<dyn Backend>\<close> is at run time.  \<open>local_ops\<close> is the
  implementation by local volumes.  A second record holds the libraries the upper layers call.
\<close>

section \<open>The interface\<close>

record backend_info =
  bki_label :: string
  bki_volume_id :: string

record ('d, 'w) backend_ops =
  bk_open_shard_writer :: "string \<Rightarrow> string \<Rightarrow> string option \<Rightarrow> 'd \<Rightarrow> (storage_error + 'w) \<times> 'd"
  bk_write_chunk :: "bytes \<Rightarrow> 'w \<Rightarrow> 'd \<Rightarrow> (storage_error + 'w) \<times> 'd"
  bk_finalize :: "object_meta \<Rightarrow> 'w \<Rightarrow> 'd \<Rightarrow> (storage_error + unit) \<times> 'd"
  bk_write_shard :: "string \<Rightarrow> string \<Rightarrow> bytes \<Rightarrow> object_meta \<Rightarrow> 'd \<Rightarrow> (storage_error + unit) \<times> 'd"
  bk_read_shard :: "'d \<Rightarrow> string \<Rightarrow> string \<Rightarrow> storage_error + bytes \<times> object_meta"
  bk_mmap_shard :: "'d \<Rightarrow> string \<Rightarrow> string \<Rightarrow> storage_error + bytes \<times> object_meta"
  bk_delete_object :: "string \<Rightarrow> string \<Rightarrow> 'd \<Rightarrow> (storage_error + unit) \<times> 'd"
  bk_list_objects :: "'d \<Rightarrow> string \<Rightarrow> string \<Rightarrow> storage_error + string list"
  bk_list_buckets :: "'d \<Rightarrow> storage_error + string list"
  bk_make_bucket :: "string \<Rightarrow> 'd \<Rightarrow> (storage_error + unit) \<times> 'd"
  bk_delete_bucket :: "string \<Rightarrow> 'd \<Rightarrow> (storage_error + unit) \<times> 'd"
  bk_bucket_exists :: "'d \<Rightarrow> string \<Rightarrow> bool"
  bk_bucket_created_at :: "'d \<Rightarrow> string \<Rightarrow> u64"
  bk_stat_object :: "'d \<Rightarrow> string \<Rightarrow> string \<Rightarrow> storage_error + object_meta"
  bk_update_meta :: "string \<Rightarrow> string \<Rightarrow> object_meta \<Rightarrow> 'd \<Rightarrow> (storage_error + unit) \<times> 'd"
  bk_read_meta_versions :: "'d \<Rightarrow> string \<Rightarrow> string \<Rightarrow> storage_error + object_meta list"
  bk_write_meta_versions :: "string \<Rightarrow> string \<Rightarrow> object_meta list \<Rightarrow> 'd \<Rightarrow> (storage_error + unit) \<times> 'd"
  bk_write_versioned_shard :: "string \<Rightarrow> string \<Rightarrow> string \<Rightarrow> bytes \<Rightarrow> object_meta \<Rightarrow> 'd \<Rightarrow> (storage_error + unit) \<times> 'd"
  bk_read_versioned_shard :: "'d \<Rightarrow> string \<Rightarrow> string \<Rightarrow> string \<Rightarrow> storage_error + bytes \<times> object_meta"
  bk_delete_version_data :: "string \<Rightarrow> string \<Rightarrow> string \<Rightarrow> 'd \<Rightarrow> (storage_error + unit) \<times> 'd"
  bk_read_bucket_settings :: "'d \<Rightarrow> string \<Rightarrow> bucket_settings"
  bk_write_bucket_settings :: "string \<Rightarrow> bucket_settings \<Rightarrow> 'd \<Rightarrow> (storage_error + unit) \<times> 'd"
  bk_info :: "'d \<Rightarrow> backend_info"
  bk_set_volume_id :: "string \<Rightarrow> 'd \<Rightarrow> 'd"
  bk_local :: "'d \<Rightarrow> (path \<times> files) option"

text \<open>
  \<open>bk_local\<close> stands for the label test \<open>info().label.strip_prefix("local:")\<close> followed by direct
  access to the files below that root, which the multipart reader does behind the interface.
\<close>

section \<open>Local volumes behind the interface\<close>

definition lv_write_chunk ::
  "env \<Rightarrow> bytes \<Rightarrow> shard_writer \<Rightarrow> local_volume \<Rightarrow> (storage_error + shard_writer) \<times> local_volume" where
  "lv_write_chunk ev data wr v = (case wr of
      WalWriter w \<Rightarrow> then_do (ww_write_chunk ev data w v) (\<lambda>w v. (Inr (WalWriter w), v))
    | FileWriter w \<Rightarrow> (Inr wr, lw_write_chunk data w v))"

definition lv_finalize ::
  "env \<Rightarrow> u64 \<Rightarrow> bool \<Rightarrow> object_meta \<Rightarrow> shard_writer \<Rightarrow> local_volume \<Rightarrow> (storage_error + unit) \<times> local_volume" where
  "lv_finalize ev now has_room meta wr v = (case wr of
      WalWriter w \<Rightarrow> ww_finalize ev now has_room meta w v
    | FileWriter w \<Rightarrow> lw_finalize ev meta w v)"

text \<open>The modification times of directories and the printing of paths belong to the operating system.\<close>

definition local_ops ::
  "env \<Rightarrow> u64 \<Rightarrow> bool \<Rightarrow> (local_volume \<Rightarrow> string \<Rightarrow> u64) \<Rightarrow> (path \<Rightarrow> string) \<Rightarrow> (local_volume, shard_writer) backend_ops" where
  "local_ops ev now has_room mtime show_path = \<lparr>
     bk_open_shard_writer = open_shard_writer ev,
     bk_write_chunk = lv_write_chunk ev,
     bk_finalize = lv_finalize ev now has_room,
     bk_write_shard = write_shard ev now has_room,
     bk_read_shard = read_shard ev,
     bk_mmap_shard = mmap_shard ev,
     bk_delete_object = delete_object,
     bk_list_objects = list_objects,
     bk_list_buckets = (\<lambda>v. Inr (list_buckets v)),
     bk_make_bucket = make_bucket,
     bk_delete_bucket = delete_bucket,
     bk_bucket_exists = bucket_exists,
     bk_bucket_created_at = mtime,
     bk_stat_object = stat_object ev,
     bk_update_meta = update_meta ev,
     bk_read_meta_versions = read_meta_versions ev,
     bk_write_meta_versions = write_meta_versions ev,
     bk_write_versioned_shard = write_versioned_shard ev,
     bk_read_versioned_shard = read_versioned_shard ev,
     bk_delete_version_data = delete_version_data ev,
     bk_read_bucket_settings = read_bucket_settings ev,
     bk_write_bucket_settings = write_bucket_settings ev,
     bk_info = (\<lambda>v. \<lparr> bki_label = ''local:'' @ show_path (lv_root v), bki_volume_id = lv_volume_id v \<rparr>),
     bk_set_volume_id = (\<lambda>s v. v\<lparr> lv_volume_id := s \<rparr>),
     bk_local = (\<lambda>v. Some (lv_root v, lv_files v)) \<rparr>"

section \<open>Several disks\<close>

text \<open>An operation on the disk at an index; indexing out of range panics in the code.\<close>

definition on_disk :: "nat \<Rightarrow> ('d \<Rightarrow> (storage_error + 'a) \<times> 'd) \<Rightarrow> 'd list \<Rightarrow> (storage_error + 'a) \<times> 'd list" where
  "on_disk i f ds = (if i < length ds then (case f (ds ! i) of (r, d) \<Rightarrow> (r, ds[i := d]))
     else (Inl (Internal ''panic: index out of bounds''), ds))"

lemma length_on_disk [simp]: "length (snd (on_disk i f ds)) = length ds"
  by (simp add: on_disk_def split: prod.splits)

lemma on_disk_other: "j \<noteq> i \<Longrightarrow> snd (on_disk i f ds) ! j = ds ! j"
  by (simp add: on_disk_def split: prod.splits)

text \<open>The same operation on every disk, with all the results.\<close>

definition each_disk :: "('d \<Rightarrow> 'r \<times> 'd) \<Rightarrow> 'd list \<Rightarrow> 'r list \<times> 'd list" where
  "each_disk f ds = (map (fst \<circ> f) ds, map (snd \<circ> f) ds)"

definition is_ok :: "'e + 'a \<Rightarrow> bool" where
  "is_ok r = (case r of Inr _ \<Rightarrow> True | Inl _ \<Rightarrow> False)"

definition ok :: "'e + 'a \<Rightarrow> 'a option" where
  "ok r = (case r of Inr x \<Rightarrow> Some x | Inl _ \<Rightarrow> None)"

lemma is_ok_simps [simp]: "is_ok (Inr x)" "\<not> is_ok (Inl e)"
  by (simp_all add: is_ok_def)

lemma ok_simps [simp]: "ok (Inr x) = Some x" "ok (Inl e) = None"
  by (simp_all add: ok_def)

definition successes :: "('e + 'a) list \<Rightarrow> nat" where
  "successes rs = length (filter is_ok rs)"

definition write_quorum :: "nat \<Rightarrow> nat \<Rightarrow> nat" where
  "write_quorum data_n parity_n = (if parity_n = 0 then data_n else data_n + 1)"

section \<open>Libraries\<close>

text \<open>
  A Reed-Solomon code object: \<open>rs_encode\<close> fills the parity buffers behind the data buffers,
  \<open>rs_reconstruct\<close> fills the empty slots; both fail on shapes they do not accept.
\<close>

record rs_codec =
  rs_encode :: "bytes list \<Rightarrow> bytes list option"
  rs_reconstruct :: "bytes option list \<Rightarrow> bytes option list option"

record libs =
  l_md5_hex :: "bytes \<Rightarrow> string"
  l_blake3_hex :: "bytes \<Rightarrow> string"
  l_sha256_hex :: "bytes \<Rightarrow> string"
  l_xxh64 :: "bytes \<Rightarrow> u64"
  l_reed_solomon :: "nat \<Rightarrow> nat \<Rightarrow> rs_codec option"
  l_placement_hash :: "string \<Rightarrow> string"

text \<open>\<open>verify_shard_checksum\<close>: blake3, or the older sha256.\<close>

definition verify_shard_checksum :: "libs \<Rightarrow> bytes \<Rightarrow> string \<Rightarrow> bool" where
  "verify_shard_checksum L data stored \<longleftrightarrow> l_blake3_hex L data = stored \<or> l_sha256_hex L data = stored"

text \<open>\<open>{:016x}\<close>: sixteen hexadecimal digits.\<close>

definition hex_digit :: "nat \<Rightarrow> char" where
  "hex_digit n = ''0123456789abcdef'' ! n"

definition hex16 :: "u64 \<Rightarrow> string" where
  "hex16 x = map (\<lambda>i. hex_digit ((unat x div 16 ^ i) mod 16)) (rev [0..<16])"

end
