(* ===== verification/Erasure.thy ===== *)
theory Erasure
  imports File_Tier "HOL-Library.Multiset"
begin

text \<open>
  Splitting objects into shards and putting them together again
  (\<open>src/storage/erasure_encode.rs\<close>, \<open>src/storage/erasure_decode.rs\<close>,
  \<open>src/storage/bitrot.rs\<close>).  The Reed-Solomon library is a parameter: \<open>rs_encode\<close>
  gives the parity shards of the data shards and \<open>rs_reconstruct\<close> fills the missing
  ones; \<open>rs_ok\<close> states what the library promises.  The hashes are parameters too.
\<close>

section \<open>Order of the disks\<close>

definition swap_at :: "nat \<Rightarrow> nat \<Rightarrow> 'a list \<Rightarrow> 'a list" where
  "swap_at i j xs = xs[i := xs ! j, j := xs ! i]"

definition shuffle_step :: "bytes \<Rightarrow> nat \<Rightarrow> nat list \<Rightarrow> nat list" where
  "shuffle_step hash i indices =
     (let h_idx = (i * 2) mod length hash;
          rand_val = unat (hash ! h_idx) * 256 + unat (hash ! ((h_idx + 1) mod length hash));
          j = rand_val mod (i + 1)
      in swap_at i j indices)"

definition hash_order :: "(string \<Rightarrow> bytes) \<Rightarrow> string \<Rightarrow> nat \<Rightarrow> nat list" where
  "hash_order sha256 key n = fold (shuffle_step (sha256 key)) (rev [1..<n]) [0..<n]"

lemma mset_swap_at: "i < length xs \<Longrightarrow> j < length xs \<Longrightarrow> mset (swap_at i j xs) = mset xs"
  by (simp add: swap_at_def mset_swap)

lemma hash_order_perm: "mset (hash_order sha256 key n) = mset [0..<n]"
proof -
  have "mset (fold (shuffle_step h) is xs) = mset xs" if "\<forall>i \<in> set is. i < length xs" for "is" h xs
    using that
  proof (induction "is" arbitrary: xs)
    case (Cons i js)
    have "shuffle_step h i xs = swap_at i ((unat (h ! ((i * 2) mod length h)) * 256
        + unat (h ! (((i * 2) mod length h + 1) mod length h))) mod (i + 1)) xs"
      by (simp add: shuffle_step_def Let_def)
    then obtain j where j: "shuffle_step h i xs = swap_at i j xs" "j \<le> i"
      by (metis Suc_eq_plus1 less_Suc_eq_le mod_less_divisor zero_less_Suc)
    have "mset (swap_at i j xs) = mset xs" using Cons.prems j(2) by (intro mset_swap_at) auto
    moreover have "length (swap_at i j xs) = length xs" by (simp add: swap_at_def)
    ultimately show ?case using Cons j(1) by simp
  qed simp
  then show ?thesis by (simp add: hash_order_def)
qed

section \<open>Splitting\<close>

definition div_ceil :: "nat \<Rightarrow> nat \<Rightarrow> nat" where
  "div_ceil a b = (a + b - 1) div b"

definition shard_size :: "nat \<Rightarrow> nat \<Rightarrow> nat" where
  "shard_size len cnt = max 1 (div_ceil len cnt)"

definition resize :: "nat \<Rightarrow> bytes \<Rightarrow> bytes" where
  "resize n bs = take n bs @ replicate (n - length bs) 0"

fun split_loop :: "bytes \<Rightarrow> nat \<Rightarrow> nat list \<Rightarrow> bytes list" where
  "split_loop data sz [] = []"
| "split_loop data sz (i # is) =
     (let start = i * sz in
      if start \<ge> length data then replicate sz 0
      else resize sz (slice_of start (min (start + sz) (length data) - start) data)) # split_loop data sz is"

definition split_data :: "bytes \<Rightarrow> nat \<Rightarrow> bytes list" where
  "split_data data cnt = split_loop data (shard_size (length data) cnt) [0..<cnt]"

text \<open>The version that reuses buffers fills the first \<open>count\<close> of them.\<close>

definition split_data_into :: "bytes \<Rightarrow> nat \<Rightarrow> bytes list \<Rightarrow> bytes list" where
  "split_data_into data cnt buffers =
     (let sz = shard_size (length data) cnt in
      map (\<lambda>i. let start = i * sz in
          if start \<ge> length data then resize sz []
          else resize sz (slice_of start (min (start + sz) (length data) - start) data)) [0..<min cnt (length buffers)]
      @ drop cnt buffers)"

text \<open>Both cut out pieces of one length and fill the last ones with zeros.\<close>

definition piece :: "bytes \<Rightarrow> nat \<Rightarrow> nat \<Rightarrow> bytes" where
  "piece data sz i = resize sz (drop (i * sz) data)"

lemma length_resize [simp]: "length (resize n bs) = n"
  by (simp add: resize_def)

lemma length_piece [simp]: "length (piece data sz i) = sz"
  by (simp add: piece_def)

lemma piece_cut:
  "(if i * sz \<ge> length data then replicate sz 0 else resize sz (slice_of (i * sz) (min (i * sz + sz) (length data) - i * sz) data))
     = piece data sz i"
proof (cases "i * sz \<ge> length data")
  case False
  have "take sz (take (min (i * sz + sz) (length data) - i * sz) (drop (i * sz) data)) = take sz (drop (i * sz) data)"
    by (auto simp: min_def)
  moreover have "length (take (min (i * sz + sz) (length data) - i * sz) (drop (i * sz) data)) = min sz (length data - i * sz)"
    using False by (auto simp: min_def)
  ultimately show ?thesis using False by (simp add: piece_def resize_def slice_of_def)
qed (simp add: piece_def resize_def)

lemma split_loop_pieces: "split_loop data sz is = map (piece data sz) is"
  by (induction "is") (simp_all add: piece_cut Let_def)

lemma split_data_pieces: "split_data data cnt = map (piece data (shard_size (length data) cnt)) [0..<cnt]"
  by (simp add: split_data_def split_loop_pieces)

lemma split_data_into_eq:
  assumes "cnt \<le> length buffers"
  shows "split_data_into data cnt buffers = split_data data cnt @ drop cnt buffers"
proof -
  have r: "resize sz [] = replicate sz 0" for sz by (simp add: resize_def)
  have "min cnt (length buffers) = cnt" using assms by simp
  then show ?thesis unfolding split_data_into_def split_data_pieces Let_def r piece_cut by simp
qed

lemma shard_size_bounds: "0 < cnt \<Longrightarrow> length data \<le> cnt * shard_size (length data) cnt"
proof -
  assume c: "0 < cnt"
  let ?n = "length data + cnt - 1"
  have "cnt * (?n div cnt) + ?n mod cnt = ?n" by (rule mult_div_mod_eq)
  moreover have "?n mod cnt < cnt" using c by simp
  ultimately have "length data \<le> cnt * ((length data + cnt - 1) div cnt)" by linarith
  also have "\<dots> \<le> cnt * shard_size (length data) cnt" by (simp add: shard_size_def div_ceil_def)
  finally show ?thesis .
qed

lemma concat_pieces: "concat (map (piece data sz) [0..<n]) = resize (n * sz) data"
proof (induction n)
  case (Suc n)
  have split: "take (sz + n * sz) data = take (n * sz) data @ take sz (drop (n * sz) data)"
    by (metis add.commute take_add)
  show ?case
  proof (cases "n * sz \<le> length data")
    case True
    then show ?thesis using Suc split by (simp add: resize_def piece_def)
  next
    case False
    then have "replicate (sz + n * sz - length data) 0 = replicate (n * sz - length data) 0 @ replicate sz (0 :: u8)"
      by (simp add: replicate_add [symmetric] add.commute)
    then show ?thesis using False Suc split by (simp add: resize_def piece_def)
  qed
qed (simp add: resize_def)

text \<open>Splitting and joining gives the data back.\<close>

lemma join_split:
  assumes "0 < cnt"
  shows "take (length data) (concat (split_data data cnt)) = data"
  using shard_size_bounds [OF assms, of data] by (simp add: split_data_pieces concat_pieces resize_def)

end
