(* ===== verification/Erasure_Io.thy ===== *)
theory Erasure_Io
  imports Backend Erasure Placement
begin

text \<open>
  Writing an object over several disks and reading it back: \<open>encode_and_write\<close> with its
  single-disk paths and its erasure-coded path (\<open>src/storage/erasure_encode.rs\<close>), and the
  buffered, streaming, versioned and multipart readers (\<open>src/storage/erasure_decode.rs\<close>).  The
  request body is the list of the items the stream yields, an error or a chunk.  Running hashes
  are the hash of the bytes fed so far.
\<close>

definition STREAM_BLOCK_SIZE :: nat where "STREAM_BLOCK_SIZE = 1024 * 1024"
definition PIPELINE_MIN_BYTES :: nat where "PIPELINE_MIN_BYTES = 1024 * 1024"

type_synonym body = "(string + bytes) list"

section \<open>The single-disk paths\<close>

fun serial_loop ::
  "('d, 'w) backend_ops \<Rightarrow> body \<Rightarrow> bytes \<Rightarrow> 'w \<Rightarrow> 'd \<Rightarrow> (storage_error + 'w \<times> bytes) \<times> 'd" where
  "serial_loop ops [] seen w d = (Inr (w, seen), d)"
| "serial_loop ops (Inl e # cs) seen w d = (Inl (Io e), d)"
| "serial_loop ops (Inr c # cs) seen w d =
     then_do (bk_write_chunk ops c w d) (\<lambda>w d. serial_loop ops cs (seen @ c) w d)"

definition put_etag :: "libs \<Rightarrow> put_options \<Rightarrow> bytes \<Rightarrow> string" where
  "put_etag L opts seen = (case po_precomputed_etag opts of
      Some e \<Rightarrow> e
    | None \<Rightarrow> if po_skip_md5 opts then hex16 (l_xxh64 L seen) @ hex16 (of_nat (length seen)) else l_md5_hex L seen)"

definition put_content_type :: "put_options \<Rightarrow> string" where
  "put_content_type opts = (if po_content_type opts = [] then ''application/octet-stream'' else po_content_type opts)"

definition shard_meta ::
  "libs \<Rightarrow> put_options \<Rightarrow> u64 \<Rightarrow> string option \<Rightarrow> nat \<Rightarrow> placement_record \<Rightarrow> bytes \<Rightarrow> nat \<Rightarrow> string \<Rightarrow> object_meta" where
  "shard_meta L opts created_at version_id ftt placement seen idx checksum = \<lparr>
     om_size = of_nat (length seen), om_etag = put_etag L opts seen, om_content_type = put_content_type opts,
     om_created_at = created_at,
     om_erasure = \<lparr> em_ftt = ftt, em_index = idx, em_epoch_id = pr_epoch_id placement,
        em_volume_ids = map ps_volume_id (pr_shards placement) \<rparr>,
     om_checksum = checksum, om_user_metadata = po_user_metadata opts, om_tags = po_tags opts,
     om_version_id = (case version_id of None \<Rightarrow> [] | Some s \<Rightarrow> s), om_is_latest = True, om_is_delete_marker = False,
     om_parts = [], om_inline_data = None \<rparr>"

definition put_info ::
  "libs \<Rightarrow> put_options \<Rightarrow> u64 \<Rightarrow> string option \<Rightarrow> string \<Rightarrow> string \<Rightarrow> bytes \<Rightarrow> object_info" where
  "put_info L opts created_at version_id bucket key seen = \<lparr>
     oi_bucket = bucket, oi_key = key, oi_size = of_nat (length seen), oi_etag = put_etag L opts seen,
     oi_content_type = put_content_type opts, oi_created_at = created_at, oi_user_metadata = po_user_metadata opts,
     oi_tags = po_tags opts, oi_version_id = (case version_id of None \<Rightarrow> [] | Some s \<Rightarrow> s), oi_is_delete_marker = False \<rparr>"

definition finish_1plus0 ::
  "libs \<Rightarrow> ('d, 'w) backend_ops \<Rightarrow> u64 \<Rightarrow> string \<Rightarrow> string \<Rightarrow> put_options \<Rightarrow> string option \<Rightarrow> placement_record
    \<Rightarrow> 'w \<times> bytes \<Rightarrow> 'd \<Rightarrow> (storage_error + object_info) \<times> 'd" where
  "finish_1plus0 L ops created_at bucket key opts version_id placement = (\<lambda>(w, seen) d.
     then_do (bk_finalize ops (shard_meta L opts created_at version_id 0 placement seen 0 (l_blake3_hex L seen)) w d)
       (\<lambda>_ d. (Inr (put_info L opts created_at version_id bucket key seen), d)))"

definition encode_and_write_1plus0_serial ::
  "libs \<Rightarrow> ('d, 'w) backend_ops \<Rightarrow> u64 \<Rightarrow> string \<Rightarrow> string \<Rightarrow> body \<Rightarrow> put_options \<Rightarrow> string option
    \<Rightarrow> placement_record \<Rightarrow> 'd \<Rightarrow> (storage_error + object_info) \<times> 'd" where
  "encode_and_write_1plus0_serial L ops created_at bucket key body opts version_id placement d =
     then_do (bk_open_shard_writer ops bucket key version_id d) (\<lambda>w d.
     then_do (serial_loop ops body [] w d) (finish_1plus0 L ops created_at bucket key opts version_id placement))"

text \<open>
  The pipelined path.  The writer task takes the chunks from a channel.  When it fails at a chunk
  the sender may still place up to \<open>lag\<close> further chunks before it sees the closed channel; an
  error of the body among them is what the caller gets, otherwise it gets the error of the writer.
\<close>

fun first_body_error :: "body \<Rightarrow> string option" where
  "first_body_error [] = None"
| "first_body_error (Inl e # cs) = Some e"
| "first_body_error (Inr c # cs) = first_body_error cs"

fun pipeline_loop ::
  "('d, 'w) backend_ops \<Rightarrow> nat \<Rightarrow> body \<Rightarrow> bytes \<Rightarrow> 'w \<Rightarrow> 'd \<Rightarrow> (storage_error + 'w \<times> bytes) \<times> 'd" where
  "pipeline_loop ops lag [] seen w d = (Inr (w, seen), d)"
| "pipeline_loop ops lag (Inl e # cs) seen w d = (Inl (Io e), d)"
| "pipeline_loop ops lag (Inr c # cs) seen w d = (case bk_write_chunk ops c w d of
      (Inr w, d) \<Rightarrow> pipeline_loop ops lag cs (seen @ c) w d
    | (Inl err, d) \<Rightarrow> (case first_body_error (take lag cs) of Some e \<Rightarrow> (Inl (Io e), d) | None \<Rightarrow> (Inl err, d)))"

definition encode_and_write_1plus0_pipeline ::
  "libs \<Rightarrow> ('d, 'w) backend_ops \<Rightarrow> nat \<Rightarrow> u64 \<Rightarrow> string \<Rightarrow> string \<Rightarrow> body \<Rightarrow> put_options \<Rightarrow> string option
    \<Rightarrow> placement_record \<Rightarrow> 'd \<Rightarrow> (storage_error + object_info) \<times> 'd" where
  "encode_and_write_1plus0_pipeline L ops lag created_at bucket key body opts version_id placement d =
     then_do (bk_open_shard_writer ops bucket key version_id d) (\<lambda>w d.
     then_do (pipeline_loop ops lag body [] w d) (finish_1plus0 L ops created_at bucket key opts version_id placement))"

section \<open>The erasure-coded path\<close>

text \<open>The shards of a block: the data pieces, and the parity behind them.\<close>

definition block_shards :: "rs_codec option \<Rightarrow> nat \<Rightarrow> nat \<Rightarrow> bytes \<Rightarrow> bytes list \<Rightarrow> bytes list option" where
  "block_shards rs data_n parity_n block bufs =
     (let split = split_data_into block data_n bufs in
      case rs of None \<Rightarrow> Some split
      | Some codec \<Rightarrow> rs_encode codec (take data_n split @ map (\<lambda>_. replicate (length (split ! 0)) 0) (take parity_n (drop data_n split))
            @ drop (data_n + parity_n) split))"

record ('d, 'w) enc_state =
  es_disks :: "'d list"
  es_writers :: "'w list"
  es_hashed :: "bytes list"
  es_bufs :: "bytes list"

text \<open>Shard \<open>i\<close> goes to the writer \<open>i\<close>, which works on disk \<open>distribution[i]\<close>.\<close>

fun write_shards ::
  "('d, 'w) backend_ops \<Rightarrow> nat list \<Rightarrow> nat list \<Rightarrow> ('d, 'w) enc_state \<Rightarrow> (storage_error + unit) \<times> ('d, 'w) enc_state" where
  "write_shards ops distribution [] st = (Inr (), st)"
| "write_shards ops distribution (i # is) st =
     (let st = st\<lparr> es_hashed := (es_hashed st)[i := es_hashed st ! i @ es_bufs st ! i] \<rparr> in
      case on_disk (distribution ! i) (bk_write_chunk ops (es_bufs st ! i) (es_writers st ! i)) (es_disks st) of
        (Inl e, ds) \<Rightarrow> (Inl e, st\<lparr> es_disks := ds \<rparr>)
      | (Inr w, ds) \<Rightarrow> write_shards ops distribution is (st\<lparr> es_disks := ds, es_writers := (es_writers st)[i := w] \<rparr>))"

definition write_block ::
  "('d, 'w) backend_ops \<Rightarrow> rs_codec option \<Rightarrow> nat \<Rightarrow> nat \<Rightarrow> nat list \<Rightarrow> bytes \<Rightarrow> ('d, 'w) enc_state
    \<Rightarrow> (storage_error + unit) \<times> ('d, 'w) enc_state" where
  "write_block ops rs data_n parity_n distribution block st = (case block_shards rs data_n parity_n block (es_bufs st) of
      None \<Rightarrow> (Inl (InvalidConfig ''reed-solomon encode''), st)
    | Some bufs \<Rightarrow> write_shards ops distribution [0..<data_n + parity_n] (st\<lparr> es_bufs := bufs \<rparr>))"

function drain_blocks ::
  "(bytes \<Rightarrow> 's \<Rightarrow> (storage_error + unit) \<times> 's) \<Rightarrow> bytes \<Rightarrow> 's \<Rightarrow> (storage_error + bytes) \<times> 's" where
  "drain_blocks wb buf st = (if STREAM_BLOCK_SIZE \<le> length buf
     then then_do (wb (take STREAM_BLOCK_SIZE buf) st) (\<lambda>_ st. drain_blocks wb (drop STREAM_BLOCK_SIZE buf) st)
     else (Inr buf, st))"
  by pat_completeness auto
termination by (relation "measure (\<lambda>(_, buf, _). length buf)") (auto simp: STREAM_BLOCK_SIZE_def)

declare drain_blocks.simps [simp del]

fun encode_loop ::
  "(bytes \<Rightarrow> 's \<Rightarrow> (storage_error + unit) \<times> 's) \<Rightarrow> body \<Rightarrow> bytes \<Rightarrow> bytes \<Rightarrow> 's \<Rightarrow> (storage_error + bytes) \<times> 's" where
  "encode_loop wb [] seen buf st = (if buf = [] then (Inr seen, st) else then_do (wb buf st) (\<lambda>_ st. (Inr seen, st)))"
| "encode_loop wb (Inl e # cs) seen buf st = (Inl (Io e), st)"
| "encode_loop wb (Inr c # cs) seen buf st =
     then_do (drain_blocks wb (buf @ c) st) (\<lambda>buf st. encode_loop wb cs (seen @ c) buf st)"

text \<open>All writers are opened; the first error, if any, is returned after that.\<close>

fun open_writers ::
  "('d, 'w) backend_ops \<Rightarrow> string \<Rightarrow> string \<Rightarrow> string option \<Rightarrow> nat list \<Rightarrow> 'd list \<Rightarrow> (storage_error + 'w) list \<times> 'd list" where
  "open_writers ops bucket key version_id [] ds = ([], ds)"
| "open_writers ops bucket key version_id (i # is) ds =
     (case on_disk i (bk_open_shard_writer ops bucket key version_id) ds of (r, ds) \<Rightarrow>
        (case open_writers ops bucket key version_id is ds of (rs, ds) \<Rightarrow> (r # rs, ds)))"

fun collect_results :: "('e + 'a) list \<Rightarrow> 'e + 'a list" where
  "collect_results [] = Inr []"
| "collect_results (Inl e # rs) = Inl e"
| "collect_results (Inr x # rs) = res_bind (collect_results rs) (\<lambda>xs. Inr (x # xs))"

fun finalize_writers ::
  "('d, 'w) backend_ops \<Rightarrow> (nat \<Rightarrow> object_meta) \<Rightarrow> (nat \<times> nat \<times> 'w) list \<Rightarrow> 'd list \<Rightarrow> (storage_error + unit) list \<times> 'd list" where
  "finalize_writers ops meta_for [] ds = ([], ds)"
| "finalize_writers ops meta_for ((idx, disk_idx, w) # ws) ds =
     (case on_disk disk_idx (bk_finalize ops (meta_for idx) w) ds of (r, ds) \<Rightarrow>
        (case finalize_writers ops meta_for ws ds of (rs, ds) \<Rightarrow> (r # rs, ds)))"

fun rollback ::
  "('d, 'w) backend_ops \<Rightarrow> string \<Rightarrow> string \<Rightarrow> ((storage_error + unit) \<times> nat) list \<Rightarrow> 'd list \<Rightarrow> 'd list" where
  "rollback ops bucket key [] ds = ds"
| "rollback ops bucket key ((r, disk_idx) # rs) ds =
     rollback ops bucket key rs (if is_ok r then snd (on_disk disk_idx (bk_delete_object ops bucket key) ds) else ds)"

text \<open>
  The result carries the disks and whether the object was handed to the repair queue
  (\<open>MrfQueue::enqueue\<close>, whose own result is ignored).
\<close>

definition write_encoded ::
  "libs \<Rightarrow> ('d, 'w) backend_ops \<Rightarrow> u64 \<Rightarrow> placement_record \<Rightarrow> nat \<Rightarrow> nat \<Rightarrow> string \<Rightarrow> string \<Rightarrow> body \<Rightarrow> put_options
    \<Rightarrow> string option \<Rightarrow> 'd list \<Rightarrow> (storage_error + object_info \<times> bool) \<times> 'd list" where
  "write_encoded L ops created_at placement data_n parity_n bucket key body opts version_id disks =
     (let tot = data_n + parity_n; distribution = map ps_backend_index (pr_shards placement) in
      case (if parity_n > 0 then map_option Some (l_reed_solomon L data_n parity_n) else Some None) of
        None \<Rightarrow> (Inl (InvalidConfig ''reed-solomon''), disks)
      | Some rs \<Rightarrow>
          (case open_writers ops bucket key version_id (map (\<lambda>i. distribution ! i) [0..<tot]) disks of (opened, disks) \<Rightarrow>
           then_do (collect_results opened, disks) (\<lambda>writers disks.
           case encode_loop (write_block ops rs data_n parity_n distribution) body [] []
                  \<lparr> es_disks = disks, es_writers = writers, es_hashed = replicate tot [], es_bufs = replicate tot [] \<rparr> of
             (Inl e, st) \<Rightarrow> (Inl e, es_disks st)
           | (Inr seen, st) \<Rightarrow>
               (case finalize_writers ops
                   (\<lambda>i. shard_meta L opts created_at version_id parity_n placement seen i (l_blake3_hex L (es_hashed st ! i)))
                   (zip [0..<tot] (zip (map (\<lambda>i. distribution ! i) [0..<tot]) (es_writers st))) (es_disks st) of (results, disks) \<Rightarrow>
                if successes results < write_quorum data_n parity_n
                then (Inl WriteQuorum, rollback ops bucket key (zip results (map (\<lambda>i. distribution ! i) [0..<tot])) disks)
                else (Inr (put_info L opts created_at version_id bucket key seen, successes results < tot), disks)))))"

definition encode_and_write ::
  "libs \<Rightarrow> ('d, 'w) backend_ops \<Rightarrow> nat \<Rightarrow> u64 \<Rightarrow> placement_planner \<Rightarrow> nat \<Rightarrow> nat \<Rightarrow> string \<Rightarrow> string \<Rightarrow> body \<Rightarrow> put_options
    \<Rightarrow> string option \<Rightarrow> nat option \<Rightarrow> 'd list \<Rightarrow> (storage_error + object_info \<times> bool) \<times> 'd list" where
  "encode_and_write L ops lag created_at planner data_n parity_n bucket key body opts version_id content_length disks =
     (case plan (l_placement_hash L) planner bucket key data_n parity_n of
        Inl e \<Rightarrow> (Inl (InvalidConfig ''placement''), disks)
      | Inr placement \<Rightarrow>
          let distribution = map ps_backend_index (pr_shards placement) in
          if data_n = 1 \<and> parity_n = 0 then
            then_do (on_disk (distribution ! 0)
              (if (case content_length of None \<Rightarrow> True | Some n \<Rightarrow> n \<ge> PIPELINE_MIN_BYTES)
               then encode_and_write_1plus0_pipeline L ops lag created_at bucket key body opts version_id placement
               else encode_and_write_1plus0_serial L ops created_at bucket key body opts version_id placement) disks)
              (\<lambda>info disks. (Inr (info, False), disks))
          else write_encoded L ops created_at placement data_n parity_n bucket key body opts version_id disks)"

definition encode_and_write_bytes ::
  "libs \<Rightarrow> ('d, 'w) backend_ops \<Rightarrow> nat \<Rightarrow> u64 \<Rightarrow> placement_planner \<Rightarrow> nat \<Rightarrow> nat \<Rightarrow> string \<Rightarrow> string \<Rightarrow> bytes \<Rightarrow> put_options
    \<Rightarrow> string option \<Rightarrow> 'd list \<Rightarrow> (storage_error + object_info \<times> bool) \<times> 'd list" where
  "encode_and_write_bytes L ops lag created_at planner data_n parity_n bucket key data opts version_id disks =
     encode_and_write L ops lag created_at planner data_n parity_n bucket key [Inr data] opts version_id (Some (length data)) disks"

section \<open>Reading\<close>

text \<open>Valid shards go to the slots their metadata names; the first valid one gives the metadata.\<close>

fun place_shards ::
  "libs \<Rightarrow> nat \<Rightarrow> (storage_error + bytes \<times> object_meta) list \<Rightarrow> bytes option list \<Rightarrow> object_meta option
    \<Rightarrow> bytes option list \<times> object_meta option" where
  "place_shards L tot [] slots good = (slots, good)"
| "place_shards L tot (Inl e # rs) slots good = place_shards L tot rs slots good"
| "place_shards L tot (Inr (data, meta) # rs) slots good =
     (if \<not> verify_shard_checksum L data (om_checksum meta) then place_shards L tot rs slots good
      else let i = em_index (om_erasure meta) in
      if i < tot then place_shards L tot rs (slots[i := Some data]) (if good = None then Some meta else good)
      else place_shards L tot rs slots good)"

definition count_some :: "'a option list \<Rightarrow> nat" where
  "count_some xs = length (filter (\<lambda>x. x \<noteq> None) xs)"

definition gather_shards ::
  "libs \<Rightarrow> nat \<Rightarrow> nat \<Rightarrow> (storage_error + bytes \<times> object_meta) list \<Rightarrow> storage_error + bytes option list \<times> object_meta" where
  "gather_shards L data_n parity_n reads =
     (if list_all (\<lambda>r. \<not> is_ok r) reads then Inl ObjectNotFound
      else case place_shards L (data_n + parity_n) reads (replicate (data_n + parity_n) None) None of
        (slots, None) \<Rightarrow> Inl ReadQuorum
      | (slots, Some meta) \<Rightarrow> if count_some slots < data_n then Inl ReadQuorum else Inr (slots, meta))"

definition reconstruct_slots :: "libs \<Rightarrow> nat \<Rightarrow> nat \<Rightarrow> bytes option list \<Rightarrow> storage_error + bytes option list" where
  "reconstruct_slots L data_n parity_n slots =
     (if parity_n > 0 \<and> count_some slots < data_n + parity_n
      then case l_reed_solomon L data_n parity_n of
          None \<Rightarrow> Inl (InvalidConfig ''reed-solomon'')
        | Some codec \<Rightarrow> (case rs_reconstruct codec slots of None \<Rightarrow> Inl ReadQuorum | Some s \<Rightarrow> Inr s)
      else Inr slots)"

definition join_slots :: "nat \<Rightarrow> bytes option list \<Rightarrow> bytes" where
  "join_slots data_n slots = concat (List.map_filter (\<lambda>s. s) (take data_n slots))"

definition decode_reads ::
  "libs \<Rightarrow> nat \<Rightarrow> nat \<Rightarrow> (storage_error + bytes \<times> object_meta) list \<Rightarrow> storage_error + bytes \<times> object_meta" where
  "decode_reads L data_n parity_n reads =
     res_bind (gather_shards L data_n parity_n reads) (\<lambda>(slots, meta).
     res_bind (reconstruct_slots L data_n parity_n slots) (\<lambda>slots.
       Inr (take (unat (om_size meta)) (join_slots data_n slots), meta)))"

definition read_and_decode ::
  "libs \<Rightarrow> ('d, 'w) backend_ops \<Rightarrow> 'd list \<Rightarrow> nat \<Rightarrow> nat \<Rightarrow> string \<Rightarrow> string \<Rightarrow> storage_error + bytes \<times> object_meta" where
  "read_and_decode L ops disks data_n parity_n bucket key =
     decode_reads L data_n parity_n (map (\<lambda>d. bk_read_shard ops d bucket key) disks)"

definition read_and_decode_versioned ::
  "libs \<Rightarrow> ('d, 'w) backend_ops \<Rightarrow> 'd list \<Rightarrow> nat \<Rightarrow> nat \<Rightarrow> string \<Rightarrow> string \<Rightarrow> string \<Rightarrow> storage_error + bytes \<times> object_meta" where
  "read_and_decode_versioned L ops disks data_n parity_n bucket key version_id =
     decode_reads L data_n parity_n (map (\<lambda>d. bk_read_versioned_shard ops d bucket key version_id) disks)"

subsection \<open>The streaming reader\<close>

text \<open>The fast path sends a slice of every data shard until the block is complete.\<close>

fun fast_slices :: "nat \<Rightarrow> nat \<Rightarrow> nat \<Rightarrow> bytes list \<Rightarrow> bytes list" where
  "fast_slices off chunk needed [] = []"
| "fast_slices off chunk needed (b # bs) =
     (let n = min (min (off + chunk) (length b) - off) needed in
      if n = 0 then [] else slice_of off n b # fast_slices off chunk (needed - n) bs)"

definition slot_slice :: "nat \<Rightarrow> nat \<Rightarrow> bytes option \<Rightarrow> bytes option" where
  "slot_slice off chunk s = (case s of None \<Rightarrow> None
     | Some b \<Rightarrow> if off < length b then Some (slice_of off (min (off + chunk) (length b) - off) b) else None)"

definition decode_block ::
  "rs_codec option \<Rightarrow> nat \<Rightarrow> nat \<Rightarrow> bytes option list \<Rightarrow> nat \<Rightarrow> nat \<Rightarrow> storage_error + bytes list" where
  "decode_block rs data_n parity_n slots off block_size =
     (let chunk = shard_size block_size data_n in
      if list_all (\<lambda>s. case s of None \<Rightarrow> False | Some b \<Rightarrow> off < length b) (take data_n slots)
      then Inr (fast_slices off chunk block_size (List.map_filter (\<lambda>s. s) (take data_n slots)))
      else let parts = map (slot_slice off chunk) slots in
        if count_some parts < data_n then Inl ReadQuorum
        else case (case rs of None \<Rightarrow> Some parts | Some codec \<Rightarrow> rs_reconstruct codec parts) of
            None \<Rightarrow> Inl ReadQuorum
          | Some parts \<Rightarrow> Inr [take block_size (join_slots data_n parts)])"

text \<open>The items of the stream: chunks, ended by an error when a block cannot be decoded.\<close>

function decode_loop ::
  "rs_codec option \<Rightarrow> nat \<Rightarrow> nat \<Rightarrow> bytes option list \<Rightarrow> nat \<Rightarrow> nat \<Rightarrow> (storage_error + bytes) list" where
  "decode_loop rs data_n parity_n slots off remaining =
     (if remaining = 0 then []
      else let block_size = min remaining STREAM_BLOCK_SIZE in
        case decode_block rs data_n parity_n slots off block_size of
          Inl e \<Rightarrow> [Inl e]
        | Inr chunks \<Rightarrow> map Inr chunks
            @ decode_loop rs data_n parity_n slots (off + shard_size block_size data_n) (remaining - block_size))"
  by pat_completeness auto
termination by (relation "measure (\<lambda>(_, _, _, _, _, remaining). remaining)") (auto simp: STREAM_BLOCK_SIZE_def)

declare decode_loop.simps [simp del]

definition read_and_decode_stream ::
  "libs \<Rightarrow> ('d, 'w) backend_ops \<Rightarrow> 'd list \<Rightarrow> nat \<Rightarrow> nat \<Rightarrow> string \<Rightarrow> string
    \<Rightarrow> storage_error + object_meta \<times> (storage_error + bytes) list" where
  "read_and_decode_stream L ops disks data_n parity_n bucket key =
     res_bind (gather_shards L data_n parity_n (map (\<lambda>d. bk_mmap_shard ops d bucket key) disks)) (\<lambda>(slots, meta).
       Inr (meta, decode_loop (if parity_n > 0 then l_reed_solomon L data_n parity_n else None)
         data_n parity_n slots 0 (unat (om_size meta))))"

subsection \<open>Multipart objects\<close>

text \<open>The part files are read below the roots of the local disks; the index comes from the part's own metadata.\<close>

definition part_slot ::
  "(bytes \<Rightarrow> nat option) \<Rightarrow> string \<Rightarrow> string \<Rightarrow> int \<Rightarrow> (path \<times> files) option \<Rightarrow> (nat \<times> bytes) option" where
  "part_slot part_index bucket key number loc = (case loc of None \<Rightarrow> None
     | Some (root, fs) \<Rightarrow> (case object_dir root bucket key of Inl _ \<Rightarrow> None
       | Inr obj_dir \<Rightarrow> (case Option.bind (fs_read fs (push obj_dir (part_name number @ ''.meta''))) part_index of None \<Rightarrow> None
         | Some idx \<Rightarrow> map_option (Pair idx) (fs_read fs (push obj_dir (part_name number))))))"

definition fill_slots :: "nat \<Rightarrow> (nat \<times> bytes) option list \<Rightarrow> bytes option list" where
  "fill_slots tot found = fold (\<lambda>f slots. case f of Some (i, data) \<Rightarrow> if i < tot then slots[i := Some data] else slots
     | None \<Rightarrow> slots) found (replicate tot None)"

definition decode_part ::
  "libs \<Rightarrow> (bytes \<Rightarrow> nat option) \<Rightarrow> ('d, 'w) backend_ops \<Rightarrow> 'd list \<Rightarrow> string \<Rightarrow> string \<Rightarrow> part_entry \<Rightarrow> storage_error + bytes" where
  "decode_part L part_index ops disks bucket key p = (case em_data (pe_erasure p) of
      None \<Rightarrow> Inl (Internal ''panic: attempt to subtract with overflow'')
    | Some data_n \<Rightarrow>
        let parity_n = em_parity (pe_erasure p);
            slots = fill_slots (data_n + parity_n)
              (map (\<lambda>d. part_slot part_index bucket key (pe_number p) (bk_local ops d)) disks)
        in if count_some slots < data_n then Inl ReadQuorum
           else res_bind (reconstruct_slots L data_n parity_n slots) (\<lambda>slots.
             Inr (take (unat (pe_size p)) (join_slots data_n slots))))"

fun decode_parts ::
  "(part_entry \<Rightarrow> storage_error + bytes) \<Rightarrow> part_entry list \<Rightarrow> bytes \<Rightarrow> storage_error + bytes" where
  "decode_parts dec [] acc = Inr acc"
| "decode_parts dec (p # ps) acc = res_bind (dec p) (\<lambda>data. decode_parts dec ps (acc @ data))"

definition read_and_decode_multipart ::
  "libs \<Rightarrow> (bytes \<Rightarrow> nat option) \<Rightarrow> ('d, 'w) backend_ops \<Rightarrow> 'd list \<Rightarrow> string \<Rightarrow> string \<Rightarrow> object_meta \<Rightarrow> storage_error + bytes" where
  "read_and_decode_multipart L part_index ops disks bucket key meta =
     decode_parts (decode_part L part_index ops disks bucket key) (om_parts meta) []"

end
