(* ===== verification/Erasure_Code.thy ===== *)
theory Erasure_Code
  imports Erasure_Io
begin

text \<open>
  The code itself, apart from the disks: what a block is split and encoded to, that the encoder
  does not depend on how the body arrives in chunks, and that the streaming reader gives back
  the bytes from any slots that hold at least as many shards as there are data shards.
\<close>

section \<open>What the Reed-Solomon library promises\<close>

text \<open>Encoding keeps the data shards and fills the parity shards; from any \<open>data_n\<close> shards of an
  encoding, reconstruction gives the whole encoding.\<close>

definition same_length :: "nat \<Rightarrow> nat \<Rightarrow> bytes list \<Rightarrow> bool" where
  "same_length n l bufs \<longleftrightarrow> length bufs = n \<and> 0 < l \<and> (\<forall>b \<in> set bufs. length b = l)"

definition slots_of :: "bytes list \<Rightarrow> bytes option list \<Rightarrow> bool" where
  "slots_of out slots \<longleftrightarrow> length slots = length out \<and> (\<forall>i < length out. slots ! i = None \<or> slots ! i = Some (out ! i))"

definition rs_ok :: "nat \<Rightarrow> nat \<Rightarrow> rs_codec \<Rightarrow> bool" where
  "rs_ok data_n parity_n codec \<longleftrightarrow>
     (\<forall>bufs l. same_length (data_n + parity_n) l bufs \<longrightarrow>
        (\<exists>out. rs_encode codec bufs = Some out \<and> same_length (data_n + parity_n) l out \<and> take data_n out = take data_n bufs))
   \<and> (\<forall>bufs l out slots. same_length (data_n + parity_n) l bufs \<and> rs_encode codec bufs = Some out
        \<and> slots_of out slots \<and> data_n \<le> count_some slots \<longrightarrow> rs_reconstruct codec slots = Some (map Some out))"

lemma rs_ok_reconstruct:
  assumes "rs_ok data_n parity_n codec" and "same_length (data_n + parity_n) l bufs" and "rs_encode codec bufs = Some out"
    and "slots_of out slots" and "data_n \<le> count_some slots"
  shows "rs_reconstruct codec slots = Some (map Some out)"
proof -
  have "same_length (data_n + parity_n) l bufs \<and> rs_encode codec bufs = Some out \<and> slots_of out slots
      \<and> data_n \<le> count_some slots \<longrightarrow> rs_reconstruct codec slots = Some (map Some out)"
    by (rule spec [OF spec [OF spec [OF spec [OF conjunct2 [OF assms(1) [unfolded rs_ok_def]]]]]])
  then show ?thesis using assms(2-5) by simp
qed

definition code_ok :: "nat \<Rightarrow> nat \<Rightarrow> rs_codec option \<Rightarrow> bool" where
  "code_ok data_n parity_n rs \<longleftrightarrow> 0 < data_n \<and> (case rs of None \<Rightarrow> parity_n = 0 | Some codec \<Rightarrow> rs_ok data_n parity_n codec)"

section \<open>Blocks\<close>

function blocks_of :: "bytes \<Rightarrow> bytes list" where
  "blocks_of data = (if data = [] then [] else take STREAM_BLOCK_SIZE data # blocks_of (drop STREAM_BLOCK_SIZE data))"
  by pat_completeness auto
termination by (relation "measure length") (auto simp: STREAM_BLOCK_SIZE_def)

declare blocks_of.simps [simp del]

lemma block_size_pos: "0 < STREAM_BLOCK_SIZE"
  by (simp add: STREAM_BLOCK_SIZE_def)

lemma blocks_of_Nil [simp]: "blocks_of [] = []"
  by (simp add: blocks_of.simps)

lemma blocks_of_short: "data \<noteq> [] \<Longrightarrow> length data \<le> STREAM_BLOCK_SIZE \<Longrightarrow> blocks_of data = [data]"
  by (subst blocks_of.simps) simp

lemma blocks_of_full: "STREAM_BLOCK_SIZE \<le> length data \<Longrightarrow>
   blocks_of data = take STREAM_BLOCK_SIZE data # blocks_of (drop STREAM_BLOCK_SIZE data)"
  using block_size_pos by (subst blocks_of.simps) auto

fun run_blocks :: "(bytes \<Rightarrow> 's \<Rightarrow> (storage_error + unit) \<times> 's) \<Rightarrow> bytes list \<Rightarrow> 's \<Rightarrow> (storage_error + unit) \<times> 's" where
  "run_blocks wb [] st = (Inr (), st)"
| "run_blocks wb (b # bs) st = then_do (wb b st) (\<lambda>_ st. run_blocks wb bs st)"

lemma then_do_assoc: "then_do (then_do r f) g = then_do r (\<lambda>x s. then_do (f x s) g)"
  by (auto simp: then_do_def split: prod.splits sum.splits)

lemma then_do_cong: "(\<And>x s. f x s = g x s) \<Longrightarrow> then_do r f = then_do r g"
  by (auto simp: then_do_def split: prod.splits sum.splits)

text \<open>Draining full blocks and going on with the rest is going through the blocks of the whole.\<close>

lemma drain_then:
  "then_do (drain_blocks wb buf st) (\<lambda>rest st. run_blocks wb (blocks_of (rest @ tail)) st)
     = run_blocks wb (blocks_of (buf @ tail)) st"
proof (induction wb buf st rule: drain_blocks.induct)
  case (1 wb buf st)
  show ?case
  proof (cases "STREAM_BLOCK_SIZE \<le> length buf")
    case True
    then have "drain_blocks wb buf st
        = then_do (wb (take STREAM_BLOCK_SIZE buf) st) (\<lambda>_ st. drain_blocks wb (drop STREAM_BLOCK_SIZE buf) st)"
      by (subst drain_blocks.simps) simp
    then show ?thesis using 1 [OF True] True blocks_of_full [of "buf @ tail"] by (simp add: then_do_assoc)
  next
    case False
    then show ?thesis by (subst drain_blocks.simps) simp
  qed
qed

lemma drain_rest: "drain_blocks wb buf st = (Inr rest, st') \<Longrightarrow> length rest < STREAM_BLOCK_SIZE"
proof (induction wb buf st arbitrary: rest st' rule: drain_blocks.induct)
  case (1 wb buf st)
  show ?case
  proof (cases "STREAM_BLOCK_SIZE \<le> length buf")
    case True
    then show ?thesis using 1(2) 1(1) [OF True] by (subst (asm) drain_blocks.simps) (auto simp: then_do_Inr_iff)
  next
    case False
    then show ?thesis using 1(2) by (subst (asm) drain_blocks.simps) simp
  qed
qed

text \<open>How the body is cut into chunks does not matter.\<close>

lemma encode_loop_blocks:
  assumes "length buf < STREAM_BLOCK_SIZE"
  shows "encode_loop wb (map Inr chunks) seen buf st
     = then_do (run_blocks wb (blocks_of (buf @ concat chunks)) st) (\<lambda>_ st. (Inr (seen @ concat chunks), st))"
  using assms
proof (induction chunks arbitrary: seen buf st)
  case Nil
  then show ?case by (cases "buf = []") (simp_all add: blocks_of_short then_do_assoc)
next
  case (Cons c cs)
  have "encode_loop wb (map Inr (c # cs)) seen buf st
      = then_do (drain_blocks wb (buf @ c) st) (\<lambda>rest st. encode_loop wb (map Inr cs) (seen @ c) rest st)" by simp
  also have "\<dots> = then_do (drain_blocks wb (buf @ c) st) (\<lambda>rest st.
      then_do (run_blocks wb (blocks_of (rest @ concat cs)) st) (\<lambda>_ st. (Inr ((seen @ c) @ concat cs), st)))"
    using Cons.IH drain_rest [of wb "buf @ c" st]
    by (cases "drain_blocks wb (buf @ c) st"; cases "fst (drain_blocks wb (buf @ c) st)") auto
  also have "\<dots> = then_do (then_do (drain_blocks wb (buf @ c) st) (\<lambda>rest st. run_blocks wb (blocks_of (rest @ concat cs)) st))
      (\<lambda>_ st. (Inr ((seen @ c) @ concat cs), st))" by (simp add: then_do_assoc)
  finally show ?case by (simp add: drain_then)
qed

section \<open>The shards of a block\<close>

definition coded :: "rs_codec option \<Rightarrow> nat \<Rightarrow> nat \<Rightarrow> bytes \<Rightarrow> bytes list" where
  "coded rs data_n parity_n block = (case rs of None \<Rightarrow> split_data block data_n
     | Some codec \<Rightarrow> the (rs_encode codec (split_data block data_n @ replicate parity_n (replicate (shard_size (length block) data_n) 0))))"

lemma shard_size_pos [simp]: "0 < shard_size l n"
  by (simp add: shard_size_def)

lemma split_data_shape: "length (split_data block n) = n" "b \<in> set (split_data block n) \<Longrightarrow> length b = shard_size (length block) n"
  by (auto simp: split_data_pieces)

lemma coded_shape:
  assumes "code_ok data_n parity_n rs"
  shows "same_length (data_n + parity_n) (shard_size (length block) data_n) (coded rs data_n parity_n block)"
    and "take data_n (coded rs data_n parity_n block) = split_data block data_n"
    and "rs = Some codec \<Longrightarrow> rs_encode codec (split_data block data_n @ replicate parity_n (replicate (shard_size (length block) data_n) 0))
        = Some (coded rs data_n parity_n block)"
proof -
  let ?l = "shard_size (length block) data_n"
  let ?bufs = "split_data block data_n @ replicate parity_n (replicate ?l 0)"
  have shape: "same_length (data_n + parity_n) ?l ?bufs" by (auto simp: same_length_def split_data_shape)
  have "same_length (data_n + parity_n) ?l (coded rs data_n parity_n block)
      \<and> take data_n (coded rs data_n parity_n block) = split_data block data_n
      \<and> (rs = Some codec \<longrightarrow> rs_encode codec ?bufs = Some (coded rs data_n parity_n block))" for codec
  proof (cases rs)
    case None
    then show ?thesis using assms by (auto simp: code_ok_def coded_def same_length_def split_data_shape)
  next
    case (Some c)
    then have "rs_ok data_n parity_n c" using assms by (simp add: code_ok_def)
    then obtain out where "rs_encode c ?bufs = Some out" "same_length (data_n + parity_n) ?l out" "take data_n out = take data_n ?bufs"
      using shape unfolding rs_ok_def by blast
    then show ?thesis using Some by (auto simp: coded_def split_data_shape)
  qed
  then show "same_length (data_n + parity_n) ?l (coded rs data_n parity_n block)"
    "take data_n (coded rs data_n parity_n block) = split_data block data_n"
    "rs = Some codec \<Longrightarrow> rs_encode codec ?bufs = Some (coded rs data_n parity_n block)" by auto
qed

lemma block_shards_coded:
  assumes ok: "code_ok data_n parity_n rs" and len: "length bufs = data_n + parity_n"
  shows "block_shards rs data_n parity_n block bufs = Some (coded rs data_n parity_n block)"
proof -
  have split: "split_data_into block data_n bufs = split_data block data_n @ drop data_n bufs"
    using split_data_into_eq [where cnt = data_n and buffers = bufs and data = block] len by simp
  have dn: "0 < data_n" using ok by (simp add: code_ok_def)
  show ?thesis
  proof (cases rs)
    case None
    then have "parity_n = 0" using ok by (simp add: code_ok_def)
    then show ?thesis using None split len by (simp add: block_shards_def coded_def)
  next
    case (Some codec)
    have first: "length ((split_data block data_n @ drop data_n bufs) ! 0) = shard_size (length block) data_n"
      using dn by (simp add: nth_append split_data_shape)
    have "map (\<lambda>_. replicate (shard_size (length block) data_n) (0 :: u8)) (drop data_n bufs) = replicate parity_n (replicate (shard_size (length block) data_n) 0)"
      using len by (simp add: map_replicate_const)
    then show ?thesis using Some split len first coded_shape(3) [where block = block, OF ok Some] split_data_shape(1) [of block data_n]
      by (simp add: block_shards_def Let_def)
  qed
qed

section \<open>Reading a block\<close>

lemma map_filter_all_Some: "list_all (\<lambda>s. s \<noteq> None) ss \<Longrightarrow> List.map_filter (\<lambda>s. s) ss = map the ss"
  by (induction ss) (auto simp: List.map_filter_simps)

lemma map_filter_map_Some [simp]: "List.map_filter (\<lambda>s. s) (map Some xs) = xs"
  by (induction xs) (simp_all add: List.map_filter_simps)

lemma fast_slices_concat:
  assumes "0 < chunk" and "\<forall>b \<in> set bs. off + chunk \<le> length b"
  shows "concat (fast_slices off chunk needed bs) = take needed (concat (map (\<lambda>b. take chunk (drop off b)) bs))"
  using assms(2)
proof (induction bs arbitrary: needed)
  case (Cons b bs)
  have n: "min (off + chunk) (length b) - off = chunk" using Cons.prems by simp
  show ?case
  proof (cases "needed = 0")
    case False
    have "off + chunk \<le> length b" using Cons.prems by simp
    then have l: "length (take chunk (drop off b)) = chunk" by (simp add: min_def) linarith
    have ih: "concat (fast_slices off chunk m bs) = take m (concat (map (\<lambda>b. take chunk (drop off b)) bs))" for m
      using Cons by simp
    have "concat (fast_slices off chunk needed (b # bs))
        = take (min chunk needed) (drop off b) @ concat (fast_slices off chunk (needed - min chunk needed) bs)"
      using False assms(1) by (simp add: n Let_def slice_of_def) (simp add: min_def)
    also have "\<dots> = take needed (take chunk (drop off b)) @ take (needed - chunk) (concat (map (\<lambda>b. take chunk (drop off b)) bs))"
      unfolding ih by (cases "chunk \<le> needed") simp_all
    also have "\<dots> = take needed (take chunk (drop off b) @ concat (map (\<lambda>b. take chunk (drop off b)) bs))"
      unfolding take_append l ..
    finally show ?thesis by simp
  qed (simp add: Let_def)
qed simp

lemma count_some_all: "count_some ss = length ss \<longleftrightarrow> list_all (\<lambda>s. s \<noteq> None) ss"
proof (induction ss)
  case (Cons s ss)
  have "count_some ss \<le> length ss" by (simp add: count_some_def)
  moreover have "count_some (s # ss) = (if s = None then count_some ss else Suc (count_some ss))" by (simp add: count_some_def)
  ultimately show ?case using Cons by (cases s) simp_all
qed (simp add: count_some_def)

lemma count_some_le: "count_some ss \<le> length ss"
  by (simp add: count_some_def)

lemma count_some_card: "count_some ss = card {i. i < length ss \<and> ss ! i \<noteq> None}"
  by (simp add: count_some_def length_filter_conv_card)

text \<open>Slots that hold the encoding of a block at an offset.\<close>

definition holds_block :: "nat \<Rightarrow> bytes list \<Rightarrow> bytes option list \<Rightarrow> bool" where
  "holds_block off out slots \<longleftrightarrow> length slots = length out
     \<and> (\<forall>i < length out. slots ! i = None \<or> (\<exists>pre suf. slots ! i = Some (pre @ out ! i @ suf) \<and> length pre = off))"

lemma holds_block_nth:
  assumes "holds_block off out slots" and "same_length n l out" and "i < n" and "slots ! i \<noteq> None"
  obtains b where "slots ! i = Some b" "off + l \<le> length b" "take l (drop off b) = out ! i"
proof -
  have l: "length out = n" "length (out ! i) = l" using assms(2,3) by (simp_all add: same_length_def)
  have "slots ! i = None \<or> (\<exists>pre suf. slots ! i = Some (pre @ out ! i @ suf) \<and> length pre = off)"
    using assms(1,3) l(1) by (simp add: holds_block_def)
  with assms(4) obtain pre suf where p: "slots ! i = Some (pre @ out ! i @ suf)" "length pre = off" by auto
  show ?thesis by (rule that [OF p(1)]) (use p(2) l(2) in simp_all)
qed

lemma holds_block_slices:
  assumes h: "holds_block off out slots" and shape: "same_length n l out"
  shows "slots_of out (map (slot_slice off l) slots)" and "count_some (map (slot_slice off l) slots) = count_some slots"
proof -
  have len: "length slots = n" "length out = n" "0 < l" using assms by (simp_all add: holds_block_def same_length_def)
  have cut: "slot_slice off l (slots ! i) = map_option (\<lambda>_. out ! i) (slots ! i)" if i: "i < n" for i
  proof (cases "slots ! i")
    case (Some y)
    then have "slots ! i \<noteq> None" by simp
    from holds_block_nth [OF h shape i this] obtain b where
      b: "slots ! i = Some b" "off + l \<le> length b" "take l (drop off b) = out ! i" .
    then have "off < length b" using len(3) by linarith
    then show ?thesis using b by (simp add: slot_slice_def slice_of_def)
  qed (simp add: slot_slice_def)
  show "slots_of out (map (slot_slice off l) slots)"
    unfolding slots_of_def
  proof (intro conjI allI impI)
    fix i assume "i < length out"
    then have i: "i < n" using len by simp
    then show "map (slot_slice off l) slots ! i = None \<or> map (slot_slice off l) slots ! i = Some (out ! i)"
      using cut [OF i] len by (cases "slots ! i") simp_all
  qed (use len in simp)
  have "slot_slice off l (slots ! i) = None \<longleftrightarrow> slots ! i = None" if "i < length slots" for i using cut [of i] len that by simp
  then show "count_some (map (slot_slice off l) slots) = count_some slots"
    unfolding count_some_card length_map by (intro arg_cong [where f = card] Collect_cong conj_cong refl) simp
qed

definition fast_ok :: "nat \<Rightarrow> nat \<Rightarrow> bytes option list \<Rightarrow> bool" where
  "fast_ok data_n off slots = list_all (\<lambda>s. case s of None \<Rightarrow> False | Some b \<Rightarrow> off < length b) (take data_n slots)"

lemma decode_block_fast:
  assumes ok: "code_ok data_n parity_n rs" and h: "holds_block off (coded rs data_n parity_n block) slots"
    and fast: "fast_ok data_n off slots"
  shows "\<exists>chunks. decode_block rs data_n parity_n slots off (length block) = Inr chunks \<and> concat chunks = block"
proof -
  let ?l = "shard_size (length block) data_n" and ?out = "coded rs data_n parity_n block"
  let ?bs = "map the (take data_n slots)"
  note shape = coded_shape [OF ok, where block = block]
  have len: "length slots = data_n + parity_n" "length ?out = data_n + parity_n"
    using h shape(1) by (simp_all add: holds_block_def same_length_def)
  have dn: "0 < data_n" using ok by (simp add: code_ok_def)
  have some: "\<forall>s \<in> set (take data_n slots). s \<noteq> None" using fast unfolding fast_ok_def list_all_iff by (metis option.simps(4))
  have each: "off + ?l \<le> length (the (slots ! i)) \<and> take ?l (drop off (the (slots ! i))) = ?out ! i" if i: "i < data_n" for i
  proof -
    have "take data_n slots ! i \<in> set (take data_n slots)" using i len by (intro nth_mem) simp
    then have "slots ! i \<noteq> None" using some i by simp
    from holds_block_nth [OF h shape(1) _ this] i obtain b where
      "slots ! i = Some b" "off + ?l \<le> length b" "take ?l (drop off b) = ?out ! i" by auto
    then show ?thesis by simp
  qed
  have "map (\<lambda>b. take ?l (drop off b)) ?bs = take data_n ?out"
    by (rule nth_equalityI) (use each len in simp_all)
  moreover have "\<forall>b \<in> set ?bs. off + ?l \<le> length b" using each len by (auto simp: in_set_conv_nth)
  ultimately have "concat (fast_slices off ?l (length block) ?bs) = take (length block) (concat (split_data block data_n))"
    using shape(2) fast_slices_concat [of ?l ?bs off "length block"] by simp
  moreover have "List.map_filter (\<lambda>s. s) (take data_n slots) = ?bs" using some by (intro map_filter_all_Some) (simp add: list_all_iff)
  ultimately show ?thesis using fast join_split [OF dn, of block] by (simp add: decode_block_def Let_def fast_ok_def)
qed

lemma decode_block_slow:
  assumes ok: "code_ok data_n parity_n (Some codec)" and h: "holds_block off (coded (Some codec) data_n parity_n block) slots"
    and enough: "data_n \<le> count_some slots" and slow: "\<not> fast_ok data_n off slots"
  shows "decode_block (Some codec) data_n parity_n slots off (length block) = Inr [block]"
proof -
  let ?l = "shard_size (length block) data_n" and ?out = "coded (Some codec) data_n parity_n block"
  let ?bufs = "split_data block data_n @ replicate parity_n (replicate ?l 0)" and ?parts = "map (slot_slice off ?l) slots"
  note shape = coded_shape [OF ok, where block = block]
  note sl = holds_block_slices [OF h shape(1)]
  have dn: "0 < data_n" and rs: "rs_ok data_n parity_n codec" using ok by (simp_all add: code_ok_def)
  have "same_length (data_n + parity_n) ?l ?bufs" by (auto simp: same_length_def split_data_shape)
  moreover have "rs_encode codec ?bufs = Some ?out" by (rule shape(3)) simp
  moreover have "data_n \<le> count_some ?parts" using enough sl(2) by simp
  ultimately have "rs_reconstruct codec ?parts = Some (map Some ?out)" by (intro rs_ok_reconstruct [OF rs _ _ sl(1)])
  then show ?thesis using slow sl(2) enough shape(2) join_split [OF dn, of block]
    by (simp add: decode_block_def Let_def join_slots_def take_map fast_ok_def)
qed

lemma decode_block_ok:
  assumes ok: "code_ok data_n parity_n rs" and h: "holds_block off (coded rs data_n parity_n block) slots"
    and enough: "data_n \<le> count_some slots"
  shows "\<exists>chunks. decode_block rs data_n parity_n slots off (length block) = Inr chunks \<and> concat chunks = block"
proof (cases "fast_ok data_n off slots")
  case True
  then show ?thesis by (rule decode_block_fast [OF ok h])
next
  case slow: False
  show ?thesis
  proof (cases rs)
    case None
    note shape = coded_shape(1) [OF ok, where block = block]
    have p: "parity_n = 0" using ok None by (simp add: code_ok_def)
    then have len: "length slots = data_n" using h shape by (simp add: holds_block_def same_length_def)
    then have some: "list_all (\<lambda>s. s \<noteq> None) slots" using enough count_some_le [of slots] count_some_all [of slots] by simp
    have "\<exists>b. slots ! i = Some b \<and> off < length b" if i: "i < data_n" for i
    proof -
      have "slots ! i \<noteq> None" using some i len unfolding list_all_length by blast
      from holds_block_nth [OF h shape _ this] i obtain b where
        "slots ! i = Some b" "off + shard_size (length block) data_n \<le> length b" by auto
      then show ?thesis using shard_size_pos [of "length block" data_n] by (intro exI [of _ b]) linarith
    qed
    then have "case take data_n slots ! i of None \<Rightarrow> False | Some b \<Rightarrow> off < length b" if "i < data_n" for i
      using that by fastforce
    then have "fast_ok data_n off slots" using len by (simp add: fast_ok_def list_all_length)
    with slow show ?thesis by simp
  next
    case (Some codec)
    then show ?thesis using decode_block_slow [of data_n parity_n codec off block slots] ok h enough slow by simp
  qed
qed

section \<open>Reading the whole object\<close>

text \<open>The content of every shard after all blocks.\<close>

definition shard_content :: "rs_codec option \<Rightarrow> nat \<Rightarrow> nat \<Rightarrow> bytes \<Rightarrow> nat \<Rightarrow> bytes" where
  "shard_content rs data_n parity_n data i = concat (map (\<lambda>block. coded rs data_n parity_n block ! i) (blocks_of data))"

lemma shard_content_step:
  assumes "data \<noteq> []"
  shows "shard_content rs data_n parity_n data i = coded rs data_n parity_n (take STREAM_BLOCK_SIZE data) ! i
     @ shard_content rs data_n parity_n (drop STREAM_BLOCK_SIZE data) i"
proof -
  have "blocks_of data = take STREAM_BLOCK_SIZE data # blocks_of (drop STREAM_BLOCK_SIZE data)"
    using assms by (subst blocks_of.simps) simp
  then show ?thesis by (simp only: shard_content_def list.map concat.simps)
qed

lemma decode_loop_ok:
  assumes ok: "code_ok data_n parity_n rs" and len: "length slots = data_n + parity_n" and enough: "data_n \<le> count_some slots"
    and "\<forall>i < data_n + parity_n. slots ! i = None
       \<or> (\<exists>pre. slots ! i = Some (pre @ shard_content rs data_n parity_n data i) \<and> length pre = off)"
  shows "\<exists>chunks. decode_loop rs data_n parity_n slots off (length data) = map Inr chunks \<and> concat chunks = data"
  using assms(4)
proof (induction data arbitrary: off rule: blocks_of.induct)
  case (1 data)
  show ?case
  proof (cases "data = []")
    case True
    then show ?thesis by (subst decode_loop.simps) simp
  next
    case False
    let ?b = "take STREAM_BLOCK_SIZE data" and ?rest = "drop STREAM_BLOCK_SIZE data"
    have cont: "shard_content rs data_n parity_n data i = coded rs data_n parity_n ?b ! i @ shard_content rs data_n parity_n ?rest i" for i
      by (rule shard_content_step [OF False])
    note shape = coded_shape(1) [OF ok, where block = ?b]
    have "\<exists>pre suf. slots ! i = Some (pre @ coded rs data_n parity_n ?b ! i @ suf) \<and> length pre = off"
      if i: "i < data_n + parity_n" "slots ! i \<noteq> None" for i
    proof -
      obtain pre where "slots ! i = Some (pre @ shard_content rs data_n parity_n data i)" "length pre = off"
        using 1(2) [rule_format, OF i(1)] i(2) by auto
      then show ?thesis by (intro exI [of _ pre] exI [of _ "shard_content rs data_n parity_n ?rest i"]) (simp add: cont)
    qed
    then have "holds_block off (coded rs data_n parity_n ?b) slots"
      using len shape by (simp only: holds_block_def same_length_def) blast
    from decode_block_ok [OF ok this enough]
    obtain cs where cs: "decode_block rs data_n parity_n slots off (length ?b) = Inr cs" "concat cs = ?b" by (elim exE conjE)
    have "\<forall>i < data_n + parity_n. slots ! i = None \<or> (\<exists>pre. slots ! i = Some (pre @ shard_content rs data_n parity_n ?rest i)
        \<and> length pre = off + shard_size (length ?b) data_n)"
    proof (intro allI impI)
      fix i assume i: "i < data_n + parity_n"
      then have l: "length (coded rs data_n parity_n ?b ! i) = shard_size (length ?b) data_n" using shape by (simp add: same_length_def)
      from 1(2) [rule_format, OF i] consider "slots ! i = None" | pre where "slots ! i = Some (pre @ shard_content rs data_n parity_n data i)" "length pre = off" by auto
      then show "slots ! i = None \<or> (\<exists>pre. slots ! i = Some (pre @ shard_content rs data_n parity_n ?rest i)
          \<and> length pre = off + shard_size (length ?b) data_n)"
      proof cases
        case 2
        then show ?thesis using l by (intro disjI2 exI [of _ "pre @ coded rs data_n parity_n ?b ! i"]) (simp add: cont)
      qed simp
    qed
    from 1(1) [OF False this] obtain rest where rest:
      "decode_loop rs data_n parity_n slots (off + shard_size (length ?b) data_n) (length ?rest) = map Inr rest" "concat rest = ?rest"
      by (elim exE conjE)
    have left: "length data - min STREAM_BLOCK_SIZE (length data) = length ?rest" by simp
    have "decode_loop rs data_n parity_n slots off (length data) = map Inr (cs @ rest)"
      using False cs(1) rest(1) by (subst decode_loop.simps) (simp only: Let_def min.commute [of "length data"] left length_take length_0_conv
          sum.case map_append if_False)
    moreover have "concat (cs @ rest) = data" using cs(2) rest(2) by simp
    ultimately show ?thesis by (intro exI conjI)
  qed
qed

end
