(* ===== verification/Erasure_Store.thy ===== *)
theory Erasure_Store
  imports Erasure_Code
begin

text \<open>
  From the request body to the disks and back.  \<open>shard_backend\<close> is the contract the erasure
  layer needs of a disk: what was written through a shard writer and finalized is what the disk
  returns.  Over any such disk a completely written object is stored shard by shard; the readers
  find it as long as enough disks still return their shard.  Local volumes meet the contract.
\<close>

section \<open>Runs over several disks\<close>

fun on_disks :: "(nat \<times> ('d \<Rightarrow> (storage_error + 'a) \<times> 'd)) list \<Rightarrow> 'd list \<Rightarrow> (storage_error + 'a) list \<times> 'd list" where
  "on_disks [] ds = ([], ds)"
| "on_disks ((i, f) # ps) ds = (case on_disk i f ds of (r, ds) \<Rightarrow> (case on_disks ps ds of (rs, ds) \<Rightarrow> (r # rs, ds)))"

lemma open_writers_on_disks:
  "open_writers ops b k vid is ds = on_disks (map (\<lambda>i. (i, bk_open_shard_writer ops b k vid)) is) ds"
  by (induction "is" arbitrary: ds) (simp_all split: prod.splits)

lemma finalize_writers_on_disks:
  "finalize_writers ops mf ws ds = on_disks (map (\<lambda>(idx, i, w). (i, bk_finalize ops (mf idx) w)) ws) ds"
  by (induction ops mf ws ds rule: finalize_writers.induct) (simp_all split: prod.splits)

lemma on_disks_nth:
  assumes "on_disks ps ds = (rs, ds')" and "distinct (map fst ps)" and "\<forall>i \<in> set (map fst ps). i < length ds"
  shows "length rs = length ps" and "length ds' = length ds"
    and "\<And>j. j < length ps \<Longrightarrow> snd (ps ! j) (ds ! fst (ps ! j)) = (rs ! j, ds' ! fst (ps ! j))"
    and "\<And>i. i \<notin> fst ` set ps \<Longrightarrow> ds' ! i = ds ! i"
proof -
  have "length rs = length ps \<and> length ds' = length ds
      \<and> (\<forall>j < length ps. snd (ps ! j) (ds ! fst (ps ! j)) = (rs ! j, ds' ! fst (ps ! j)))
      \<and> (\<forall>i. i \<notin> fst ` set ps \<longrightarrow> ds' ! i = ds ! i)"
    using assms
  proof (induction ps ds arbitrary: rs ds' rule: on_disks.induct)
    case (2 i f ps ds)
    obtain r d where f: "f (ds ! i) = (r, d)" by fastforce
    have i: "i < length ds" using 2(4) by simp
    let ?ds = "ds[i := d]"
    have o: "on_disk i f ds = (r, ?ds)" using i f by (simp add: on_disk_def)
    obtain rs1 ds1 where rec: "on_disks ps ?ds = (rs1, ds1)" by fastforce
    have res: "rs = r # rs1" "ds' = ds1" using 2(2) o rec by simp_all
    have ih: "length rs1 = length ps" "length ds1 = length ?ds"
      "\<forall>j < length ps. snd (ps ! j) (?ds ! fst (ps ! j)) = (rs1 ! j, ds1 ! fst (ps ! j))"
      "\<forall>j. j \<notin> fst ` set ps \<longrightarrow> ds1 ! j = ?ds ! j"
      using 2(1) [OF o [symmetric] rec] 2(3,4) by auto
    have ni: "i \<notin> fst ` set ps" using 2(3) by auto
    have "snd (((i, f) # ps) ! j) (ds ! fst (((i, f) # ps) ! j)) = (rs ! j, ds' ! fst (((i, f) # ps) ! j))"
      if j: "j < length ((i, f) # ps)" for j
    proof (cases j)
      case 0
      then show ?thesis using f res ih(4) ni i by simp
    next
      case (Suc m)
      then have m: "m < length ps" using j by simp
      then have "fst (ps ! m) \<noteq> i" using ni by (metis image_eqI nth_mem)
      then show ?thesis using Suc ih(3) [rule_format, OF m] res by simp
    qed
    moreover have "ds' ! j = ds ! j" if "j \<notin> fst ` set ((i, f) # ps)" for j using that ih(4) res by simp
    ultimately show ?case using ih(1,2) res by simp
  qed simp
  then show "length rs = length ps" "length ds' = length ds"
    "\<And>j. j < length ps \<Longrightarrow> snd (ps ! j) (ds ! fst (ps ! j)) = (rs ! j, ds' ! fst (ps ! j))"
    "\<And>i. i \<notin> fst ` set ps \<Longrightarrow> ds' ! i = ds ! i" by blast+
qed

lemma successes_all:
  assumes "\<not> successes rs < length rs" and "j < length rs"
  shows "is_ok (rs ! j)"
proof (rule ccontr)
  assume "\<not> is_ok (rs ! j)"
  then have "length (filter is_ok rs) < length rs" using assms(2) by (intro length_filter_less [of "rs ! j"]) simp_all
  then show False using assms(1) by (simp add: successes_def)
qed

lemma collect_results_Inr: "collect_results rs = Inr xs \<Longrightarrow> rs = map Inr xs"
  by (induction rs arbitrary: xs rule: collect_results.induct) (auto simp: res_bind_Inr_iff)

section \<open>What a block run does to one shard\<close>

fun write_all :: "('d, 'w) backend_ops \<Rightarrow> bytes list \<Rightarrow> 'w \<Rightarrow> 'd \<Rightarrow> (storage_error + 'w) \<times> 'd" where
  "write_all ops [] w d = (Inr w, d)"
| "write_all ops (c # cs) w d = then_do (bk_write_chunk ops c w d) (\<lambda>w d. write_all ops cs w d)"

lemma write_all_append: "write_all ops (cs @ cs') w d = then_do (write_all ops cs w d) (\<lambda>w d. write_all ops cs' w d)"
proof (induction cs arbitrary: w d)
  case (Cons c cs)
  show ?case unfolding append_Cons write_all.simps then_do_assoc by (rule then_do_cong) (rule Cons)
qed simp

definition advanced ::
  "('d, 'w) backend_ops \<Rightarrow> nat list \<Rightarrow> nat \<Rightarrow> bytes list \<Rightarrow> ('d, 'w) enc_state \<Rightarrow> ('d, 'w) enc_state \<Rightarrow> bool" where
  "advanced ops dist i cs st st' \<longleftrightarrow>
     write_all ops cs (es_writers st ! i) (es_disks st ! (dist ! i)) = (Inr (es_writers st' ! i), es_disks st' ! (dist ! i))
     \<and> es_hashed st' ! i = es_hashed st ! i @ concat cs"

lemma advanced_trans:
  "advanced ops dist i cs st st1 \<Longrightarrow> advanced ops dist i cs' st1 st2 \<Longrightarrow> advanced ops dist i (cs @ cs') st st2"
  by (simp add: advanced_def write_all_append)

definition same_shape :: "('d, 'w) enc_state \<Rightarrow> ('d, 'w) enc_state \<Rightarrow> bool" where
  "same_shape st st' \<longleftrightarrow> length (es_disks st') = length (es_disks st) \<and> length (es_writers st') = length (es_writers st)
     \<and> length (es_hashed st') = length (es_hashed st) \<and> length (es_bufs st') = length (es_bufs st)"

definition placed :: "nat list \<Rightarrow> nat \<Rightarrow> ('d, 'w) enc_state \<Rightarrow> bool" where
  "placed dist tot st \<longleftrightarrow> length dist = tot \<and> distinct dist \<and> (\<forall>i \<in> set dist. i < length (es_disks st))
     \<and> length (es_writers st) = tot \<and> length (es_hashed st) = tot \<and> length (es_bufs st) = tot"

lemma placed_same_shape: "placed dist tot st \<Longrightarrow> same_shape st st' \<Longrightarrow> placed dist tot st'"
  by (simp add: placed_def same_shape_def)

lemma same_shape_trans: "same_shape a b \<Longrightarrow> same_shape b c \<Longrightarrow> same_shape a c"
  by (simp add: same_shape_def)

lemma write_shards_advance:
  assumes "write_shards ops dist is st = (Inr u, st')" and "placed dist tot st" and "distinct is" and "\<forall>i \<in> set is. i < tot"
  shows "es_bufs st' = es_bufs st \<and> same_shape st st'
     \<and> (\<forall>i < tot. advanced ops dist i (if i \<in> set is then [es_bufs st ! i] else []) st st')"
  using assms
proof (induction "is" arbitrary: st)
  case Nil
  then show ?case by (simp add: same_shape_def advanced_def)
next
  case (Cons i js)
  let ?b = "es_bufs st ! i"
  have len: "length dist = tot" "i < tot" and d: "dist ! i < length (es_disks st)"
    using Cons.prems by (auto simp: placed_def)
  obtain r dd where w: "bk_write_chunk ops ?b (es_writers st ! i) (es_disks st ! (dist ! i)) = (r, dd)" by fastforce
  let ?st1 = "st\<lparr> es_hashed := (es_hashed st)[i := es_hashed st ! i @ ?b] \<rparr>"
  obtain w' where r: "r = Inr w'" using Cons.prems(1) w d by (cases r) (auto simp: on_disk_def Let_def)
  let ?st2 = "?st1\<lparr> es_disks := (es_disks st)[dist ! i := dd], es_writers := (es_writers st)[i := w'] \<rparr>"
  have step: "write_shards ops dist js ?st2 = (Inr u, st')" using Cons.prems(1) w r d by (simp add: on_disk_def Let_def)
  have shape: "same_shape st ?st2" by (simp add: same_shape_def)
  have ih: "es_bufs st' = es_bufs ?st2 \<and> same_shape ?st2 st'
     \<and> (\<forall>j < tot. advanced ops dist j (if j \<in> set js then [es_bufs ?st2 ! j] else []) ?st2 st')"
    using Cons.IH [OF step] placed_same_shape [OF Cons.prems(2) shape] Cons.prems(3,4) by simp
  have here: "advanced ops dist j (if j = i then [?b] else []) st ?st2" if j: "j < tot" for j
  proof (cases "j = i")
    case True
    then show ?thesis using w r d len Cons.prems(2) by (simp add: advanced_def placed_def)
  next
    case False
    then have "dist ! j \<noteq> dist ! i" using j len Cons.prems(2) by (simp add: placed_def nth_eq_iff_index_eq)
    then show ?thesis using False by (simp add: advanced_def)
  qed
  have "advanced ops dist j (if j \<in> set (i # js) then [es_bufs st ! j] else []) st st'" if j: "j < tot" for j
  proof -
    have a: "advanced ops dist j (if j \<in> set js then [es_bufs ?st2 ! j] else []) ?st2 st'" using ih j by blast
    have "advanced ops dist j ((if j = i then [?b] else []) @ (if j \<in> set js then [es_bufs st ! j] else [])) st st'"
      by (rule advanced_trans [OF here [OF j]]) (use a in \<open>cases "j \<in> set js"; simp\<close>)
    then show ?thesis using Cons.prems(3) by (cases "j = i") auto
  qed
  then show ?case using ih shape same_shape_trans [OF shape] by simp
qed

lemma write_block_advance:
  assumes wb: "write_block ops rs dn pn dist block st = (Inr u, st')" and st: "placed dist (dn + pn) st" and code: "code_ok dn pn rs"
  shows "same_shape st st' \<and> (\<forall>i < dn + pn. advanced ops dist i [coded rs dn pn block ! i] st st')"
proof -
  let ?out = "coded rs dn pn block"
  have bs: "block_shards rs dn pn block (es_bufs st) = Some ?out"
    using st by (intro block_shards_coded [OF code]) (simp add: placed_def)
  have len: "length ?out = dn + pn" using coded_shape(1) [OF code] by (simp add: same_length_def)
  let ?st = "st\<lparr> es_bufs := ?out \<rparr>"
  have w: "write_shards ops dist [0..<dn + pn] ?st = (Inr u, st')" using wb bs by (simp add: write_block_def)
  have "placed dist (dn + pn) ?st" using st len by (simp add: placed_def)
  from write_shards_advance [OF w this] have
    "same_shape ?st st' \<and> (\<forall>i < dn + pn. advanced ops dist i [?out ! i] ?st st')" by simp
  moreover have "same_shape st ?st" using st len by (simp add: same_shape_def placed_def)
  ultimately show ?thesis using same_shape_trans [of st ?st st'] by (simp add: advanced_def)
qed

lemma run_blocks_advance:
  assumes "run_blocks (write_block ops rs dn pn dist) blocks st = (Inr u, st')" and "placed dist (dn + pn) st" and "code_ok dn pn rs"
  shows "same_shape st st' \<and> (\<forall>i < dn + pn. advanced ops dist i (map (\<lambda>b. coded rs dn pn b ! i) blocks) st st')"
  using assms(1,2)
proof (induction blocks arbitrary: st)
  case Nil
  then show ?case by (simp add: same_shape_def advanced_def)
next
  case (Cons b bs)
  from Cons.prems(1) obtain u1 st1 where w: "write_block ops rs dn pn dist b st = (Inr u1, st1)"
    and rest: "run_blocks (write_block ops rs dn pn dist) bs st1 = (Inr u, st')" by (auto simp: then_do_Inr_iff)
  note one = write_block_advance [OF w Cons.prems(2) assms(3)]
  have "placed dist (dn + pn) st1" using placed_same_shape [OF Cons.prems(2)] one by blast
  note ih = Cons.IH [OF rest this]
  have "advanced ops dist i ([coded rs dn pn b ! i] @ map (\<lambda>b. coded rs dn pn b ! i) bs) st st'" if "i < dn + pn" for i
    using advanced_trans one ih that by blast
  then show ?case using one ih same_shape_trans by fastforce
qed

text \<open>The steps of a write that succeeded.\<close>

lemma write_encoded_steps:
  assumes enc: "write_encoded L ops now placement dn pn b k (map Inr chunks) opts vid disks = (Inr (info, q), disks')"
    and dist: "dist = map ps_backend_index (pr_shards placement)" "length dist = dn + pn"
    and rs: "rs = (if 0 < pn then l_reed_solomon L dn pn else None)" "0 < pn \<Longrightarrow> rs \<noteq> None"
  obtains ws ds1 st results where "open_writers ops b k vid dist disks = (map Inr ws, ds1)"
    and "run_blocks (write_block ops rs dn pn dist) (blocks_of (concat chunks))
        \<lparr> es_disks = ds1, es_writers = ws, es_hashed = replicate (dn + pn) [], es_bufs = replicate (dn + pn) [] \<rparr> = (Inr (), st)"
    and "finalize_writers ops (\<lambda>i. shard_meta L opts now vid pn placement (concat chunks) i (l_blake3_hex L (es_hashed st ! i)))
        (zip [0..<dn + pn] (zip dist (es_writers st))) (es_disks st) = (results, disks')"
    and "q = (successes results < dn + pn)" and "write_quorum dn pn \<le> successes results"
proof -
  have dl: "map (\<lambda>i. dist ! i) [0..<dn + pn] = dist" using dist(2) by (metis map_nth)
  have sel: "(if pn > 0 then map_option Some (l_reed_solomon L dn pn) else Some None) = Some rs" using rs by auto
  obtain opened ds1 where op: "open_writers ops b k vid dist disks = (opened, ds1)" by fastforce
  note e1 = enc [unfolded write_encoded_def Let_def dist(1) [symmetric] dl sel option.case op prod.case]
  obtain ws where ws: "collect_results opened = Inr ws" using e1 by (cases "collect_results opened") simp_all
  let ?st0 = "\<lparr> es_disks = ds1, es_writers = ws, es_hashed = replicate (dn + pn) [], es_bufs = replicate (dn + pn) [] \<rparr>"
  have loop: "encode_loop (write_block ops rs dn pn dist) (map Inr chunks) [] [] ?st0
     = then_do (run_blocks (write_block ops rs dn pn dist) (blocks_of (concat chunks)) ?st0) (\<lambda>_ st. (Inr (concat chunks), st))"
    by (simp add: encode_loop_blocks block_size_pos)
  note e2 = e1 [unfolded ws then_do_simps loop]
  obtain r st where r: "run_blocks (write_block ops rs dn pn dist) (blocks_of (concat chunks)) ?st0 = (r, st)" by fastforce
  have run: "run_blocks (write_block ops rs dn pn dist) (blocks_of (concat chunks)) ?st0 = (Inr (), st)"
    using e2 r by (cases r) simp_all
  note e3 = e2 [unfolded run then_do_simps prod.case sum.case]
  obtain results ds2 where fin: "finalize_writers ops
      (\<lambda>i. shard_meta L opts now vid pn placement (concat chunks) i (l_blake3_hex L (es_hashed st ! i)))
      (zip [0..<dn + pn] (zip dist (es_writers st))) (es_disks st) = (results, ds2)" by fastforce
  have "q = (successes results < dn + pn)" "write_quorum dn pn \<le> successes results" "ds2 = disks'"
    using e3 [unfolded fin prod.case] by (simp_all split: if_splits)
  then show ?thesis using that op collect_results_Inr [OF ws] run fin by simp
qed

text \<open>No step of a write changes the number of disks.\<close>

lemma write_shards_length: "length (es_disks (snd (write_shards ops dist is st))) = length (es_disks st)"
proof (induction "is" arbitrary: st)
  case (Cons i js)
  let ?st = "st\<lparr> es_hashed := (es_hashed st)[i := es_hashed st ! i @ es_bufs st ! i] \<rparr>"
  obtain r ds where o: "on_disk (dist ! i) (bk_write_chunk ops (es_bufs st ! i) (es_writers st ! i)) (es_disks st) = (r, ds)" by fastforce
  then have "length ds = length (es_disks st)" using length_on_disk by (metis snd_conv)
  then show ?case using o Cons by (cases r) (simp_all add: Let_def)
qed simp

lemma write_block_length: "length (es_disks (snd (write_block ops rs dn pn dist block st))) = length (es_disks st)"
  by (simp add: write_block_def write_shards_length split: option.splits)

lemma run_blocks_length: "length (es_disks (snd (run_blocks (write_block ops rs dn pn dist) bs st))) = length (es_disks st)"
proof (induction bs arbitrary: st)
  case (Cons b bs)
  obtain r st1 where w: "write_block ops rs dn pn dist b st = (r, st1)" by fastforce
  then have "length (es_disks st1) = length (es_disks st)" using write_block_length by (metis snd_conv)
  then show ?case using w Cons by (cases r) simp_all
qed simp

lemma on_disks_length: "length (snd (on_disks ps ds)) = length ds"
proof (induction ps ds rule: on_disks.induct)
  case (2 i f ps ds)
  obtain r d1 where o: "on_disk i f ds = (r, d1)" by fastforce
  then have "length d1 = length ds" using length_on_disk by (metis snd_conv)
  then show ?case using 2 [OF o [symmetric]] o by (cases "on_disks ps d1") simp
qed simp

lemma write_encoded_length:
  assumes enc: "write_encoded L ops now placement dn pn b k (map Inr chunks) opts vid disks = (Inr (info, q), disks')"
    and dist: "dist = map ps_backend_index (pr_shards placement)" "length dist = dn + pn"
    and rs: "rs = (if 0 < pn then l_reed_solomon L dn pn else None)" "0 < pn \<Longrightarrow> rs \<noteq> None"
  shows "length disks' = length disks"
proof -
  obtain ws ds1 st results where op: "open_writers ops b k vid dist disks = (map Inr ws, ds1)"
    and run: "run_blocks (write_block ops rs dn pn dist) (blocks_of (concat chunks))
        \<lparr> es_disks = ds1, es_writers = ws, es_hashed = replicate (dn + pn) [], es_bufs = replicate (dn + pn) [] \<rparr> = (Inr (), st)"
    and fin: "finalize_writers ops (\<lambda>i. shard_meta L opts now vid pn placement (concat chunks) i (l_blake3_hex L (es_hashed st ! i)))
        (zip [0..<dn + pn] (zip dist (es_writers st))) (es_disks st) = (results, disks')"
    by (rule write_encoded_steps [OF enc dist rs])
  have "length ds1 = length disks"
    using on_disks_length [of "map (\<lambda>i. (i, bk_open_shard_writer ops b k vid)) dist" disks] op by (simp add: open_writers_on_disks)
  moreover have "length (es_disks st) = length ds1"
    using run_blocks_length [of ops rs dn pn dist "blocks_of (concat chunks)"
        "\<lparr> es_disks = ds1, es_writers = ws, es_hashed = replicate (dn + pn) [], es_bufs = replicate (dn + pn) [] \<rparr>"] run by simp
  moreover have "length disks' = length (es_disks st)"
    using arg_cong [OF fin, of "length \<circ> snd"] by (simp add: finalize_writers_on_disks on_disks_length)
  ultimately show ?thesis by simp
qed

section \<open>The contract of a disk\<close>

locale shard_backend =
  fixes ops :: "('d, 'w) backend_ops"
    and ready :: "string \<Rightarrow> string \<Rightarrow> object_meta \<Rightarrow> 'd \<Rightarrow> bool"
  assumes write_read: "ready b k m d \<Longrightarrow> bk_open_shard_writer ops b k None d = (Inr w, d1) \<Longrightarrow>
      write_all ops cs w d1 = (Inr w', d2) \<Longrightarrow> bk_finalize ops m w' d2 = (Inr (), d3) \<Longrightarrow>
      bk_mmap_shard ops d3 b k = Inr (concat cs, m) \<and> bk_read_shard ops d3 b k = Inr (concat cs, m)"
begin

lemma written_shards:
  fixes disks :: "'d list"
  assumes enc: "write_encoded L ops now placement dn pn b k (map Inr chunks) opts None disks = (Inr (info, q), disks')"
    and dist: "dist = map ps_backend_index (pr_shards placement)" "length dist = dn + pn" "distinct dist" "\<forall>i \<in> set dist. i < length disks"
    and rs: "rs = (if 0 < pn then l_reed_solomon L dn pn else None)" "0 < pn \<Longrightarrow> rs \<noteq> None" and code: "code_ok dn pn rs"
    and meta: "\<And>i. meta i = shard_meta L opts now None pn placement (concat chunks) i (l_blake3_hex L (shard_content rs dn pn (concat chunks) i))"
    and rdy: "\<And>i. i < dn + pn \<Longrightarrow> ready b k (meta i) (disks ! (dist ! i))"
  obtains good where "good \<subseteq> {..<dn + pn}" and "write_quorum dn pn \<le> card good" and "\<not> q \<Longrightarrow> good = {..<dn + pn}"
    and "\<And>i. i \<in> good \<Longrightarrow> bk_mmap_shard ops (disks' ! (dist ! i)) b k = Inr (shard_content rs dn pn (concat chunks) i, meta i)
      \<and> bk_read_shard ops (disks' ! (dist ! i)) b k = Inr (shard_content rs dn pn (concat chunks) i, meta i)"
proof -
  let ?tot = "dn + pn" and ?data = "concat chunks"
  obtain ws ds1 st results where op: "open_writers ops b k None dist disks = (map Inr ws, ds1)"
    and run: "run_blocks (write_block ops rs dn pn dist) (blocks_of ?data)
        \<lparr> es_disks = ds1, es_writers = ws, es_hashed = replicate ?tot [], es_bufs = replicate ?tot [] \<rparr> = (Inr (), st)"
    and fin: "finalize_writers ops (\<lambda>i. shard_meta L opts now None pn placement ?data i (l_blake3_hex L (es_hashed st ! i)))
        (zip [0..<?tot] (zip dist (es_writers st))) (es_disks st) = (results, disks')"
    and full: "q = (successes results < ?tot)" "write_quorum dn pn \<le> successes results"
    by (rule write_encoded_steps [OF enc dist(1,2) rs])
  let ?st0 = "\<lparr> es_disks = ds1, es_writers = ws, es_hashed = replicate ?tot [], es_bufs = replicate ?tot [] \<rparr>"
  let ?mf = "\<lambda>i. shard_meta L opts now None pn placement ?data i (l_blake3_hex L (es_hashed st ! i))"
  let ?ws = "zip [0..<?tot] (zip dist (es_writers st))"
  have opd: "on_disks (map (\<lambda>i. (i, bk_open_shard_writer ops b k None)) dist) disks = (map Inr ws, ds1)"
    using op by (simp add: open_writers_on_disks)
  have dm: "map fst (map (\<lambda>i. (i, bk_open_shard_writer ops b k None)) dist) = dist" by (simp add: comp_def)
  note o = on_disks_nth [OF opd, unfolded dm, OF dist(3,4)]
  have lens: "length ws = ?tot" "length ds1 = length disks" using o(1,2) dist(2,4) by auto
  have placed: "placed dist ?tot ?st0" using dist(2-4) lens by (simp add: placed_def)
  from run_blocks_advance [OF run placed code] have shape: "same_shape ?st0 st"
    and adv: "\<And>i. i < ?tot \<Longrightarrow> advanced ops dist i (map (\<lambda>b. coded rs dn pn b ! i) (blocks_of ?data)) ?st0 st" by auto
  let ?ps = "map (\<lambda>(idx, i, w). (i, bk_finalize ops (?mf idx) w)) ?ws"
  have lw: "length (es_writers st) = ?tot" "length (es_disks st) = length disks" using shape lens by (simp_all add: same_shape_def)
  have pm: "map fst ?ps = dist" using lw dist(2) by (intro nth_equalityI) simp_all
  have "\<forall>i \<in> set dist. i < length (es_disks st)" using dist(4) lw(2) by simp
  note f = on_disks_nth [OF fin [unfolded finalize_writers_on_disks], unfolded pm, OF dist(3) this]
  have lr: "length results = ?tot" using f(1) lw dist(2) by simp
  let ?good = "{i. i < ?tot \<and> is_ok (results ! i)}"
  have reads: "bk_mmap_shard ops (disks' ! (dist ! i)) b k = Inr (shard_content rs dn pn ?data i, meta i)
      \<and> bk_read_shard ops (disks' ! (dist ! i)) b k = Inr (shard_content rs dn pn ?data i, meta i)" if "i \<in> ?good" for i
  proof -
    have i: "i < ?tot" and "results ! i = Inr ()" using that by (cases "results ! i"; simp)+
    have open_i: "bk_open_shard_writer ops b k None (disks ! (dist ! i)) = (Inr (ws ! i), ds1 ! (dist ! i))"
      using o(3) [of i] i dist(2,4) lens by simp
    have hashed: "es_hashed st ! i = shard_content rs dn pn ?data i"
      and wr: "write_all ops (map (\<lambda>b. coded rs dn pn b ! i) (blocks_of ?data)) (ws ! i) (ds1 ! (dist ! i))
        = (Inr (es_writers st ! i), es_disks st ! (dist ! i))"
      using adv [OF i] i by (simp_all add: advanced_def shard_content_def)
    have "bk_finalize ops (?mf i) (es_writers st ! i) (es_disks st ! (dist ! i)) = (results ! i, disks' ! (dist ! i))"
      using f(3) [of i] i lw dist(2) by simp
    then show ?thesis using write_read [OF rdy [OF i] open_i wr] hashed \<open>results ! i = Inr ()\<close> by (simp add: meta shard_content_def)
  qed
  have "card ?good = successes results" using lr by (simp add: successes_def length_filter_conv_card)
  moreover have "?good = {..<?tot}" if "\<not> q" using successes_all [of results] full(1) that lr by auto
  ultimately show ?thesis by (intro that [of ?good]) (use full(2) reads in auto)
qed

end

section \<open>Finding the shards again\<close>

definition usable :: "libs \<Rightarrow> nat \<Rightarrow> storage_error + bytes \<times> object_meta \<Rightarrow> bool" where
  "usable L tot r = (case r of Inl _ \<Rightarrow> False
     | Inr (data, m) \<Rightarrow> verify_shard_checksum L data (om_checksum m) \<and> em_index (om_erasure m) < tot)"

definition read_index :: "storage_error + bytes \<times> object_meta \<Rightarrow> nat" where
  "read_index r = (case r of Inl _ \<Rightarrow> 0 | Inr (_, m) \<Rightarrow> em_index (om_erasure m))"

definition good_slots :: "nat \<Rightarrow> (nat \<Rightarrow> bytes) \<Rightarrow> bytes option list \<Rightarrow> bool" where
  "good_slots tot sh slots \<longleftrightarrow> length slots = tot \<and> (\<forall>i < tot. slots ! i = None \<or> slots ! i = Some (sh i))"

lemma good_slots_update: "good_slots tot sh slots \<Longrightarrow> i < tot \<Longrightarrow> good_slots tot sh (slots[i := Some (sh i)])"
  by (auto simp: good_slots_def nth_list_update)

lemma place_shards_ok:
  assumes "place_shards L tot reads slots good = (slots', good')"
    and "\<forall>r \<in> set reads. usable L tot r \<longrightarrow> (\<exists>m. r = Inr (sh (em_index (om_erasure m)), m) \<and> om_size m = n)"
    and "good_slots tot sh slots" and "\<forall>m. good = Some m \<longrightarrow> om_size m = n"
  shows "good_slots tot sh slots' \<and> (\<forall>m. good' = Some m \<longrightarrow> om_size m = n)
     \<and> (\<forall>i < tot. slots ! i \<noteq> None \<or> (\<exists>r \<in> set reads. usable L tot r \<and> read_index r = i) \<longrightarrow> slots' ! i \<noteq> None)
     \<and> (good \<noteq> None \<or> (\<exists>r \<in> set reads. usable L tot r) \<longrightarrow> good' \<noteq> None)"
  using assms
proof (induction L tot reads slots good rule: place_shards.induct)
  case (1 L tot slots good)
  then show ?case by simp
next
  case (2 L tot e rs slots good)
  then show ?case by (simp add: usable_def)
next
  case (3 L tot data meta rs slots good)
  show ?case
  proof (cases "usable L tot (Inr (data, meta))")
    case False
    then show ?thesis using 3 by (auto simp: usable_def Let_def split: if_splits)
  next
    case True
    let ?i = "em_index (om_erasure meta)"
    have v: "verify_shard_checksum L data (om_checksum meta)" "?i < tot" using True by (simp_all add: usable_def)
    have data: "data = sh ?i" "om_size meta = n" using 3(5) True by auto
    let ?s = "slots[?i := Some data]" and ?g = "if good = None then Some meta else good"
    have step: "place_shards L tot rs ?s ?g = (slots', good')" using 3(4) v by (simp add: Let_def)
    have gs: "good_slots tot sh ?s" using good_slots_update [OF 3(6) v(2)] data by simp
    have "good_slots tot sh slots' \<and> (\<forall>m. good' = Some m \<longrightarrow> om_size m = n)
     \<and> (\<forall>i < tot. ?s ! i \<noteq> None \<or> (\<exists>r \<in> set rs. usable L tot r \<and> read_index r = i) \<longrightarrow> slots' ! i \<noteq> None)
     \<and> (?g \<noteq> None \<or> (\<exists>r \<in> set rs. usable L tot r) \<longrightarrow> good' \<noteq> None)"
      by (rule 3(2)) (use v step gs 3(5,7) data in auto)
    moreover have "?s ! i \<noteq> None" if "slots ! i \<noteq> None \<or> i = ?i" "i < tot" for i
      using that 3(6) by (cases "i = ?i") (auto simp: good_slots_def)
    ultimately show ?thesis by (auto simp: read_index_def)
  qed
qed

lemma gather_shards_ok:
  assumes reads: "\<forall>r \<in> set reads. usable L (dn + pn) r \<longrightarrow> (\<exists>m. r = Inr (sh (em_index (om_erasure m)), m) \<and> om_size m = n)"
    and enough: "dn \<le> card {i. i < dn + pn \<and> (\<exists>r \<in> set reads. usable L (dn + pn) r \<and> read_index r = i)}" and "0 < dn"
  shows "\<exists>slots m. gather_shards L dn pn reads = Inr (slots, m) \<and> good_slots (dn + pn) sh slots \<and> dn \<le> count_some slots \<and> om_size m = n"
proof -
  let ?tot = "dn + pn" and ?good = "{i. i < dn + pn \<and> (\<exists>r \<in> set reads. usable L (dn + pn) r \<and> read_index r = i)}"
  obtain slots good where p: "place_shards L ?tot reads (replicate ?tot None) None = (slots, good)" by fastforce
  note ok = place_shards_ok [OF p reads]
  have init: "good_slots ?tot sh (replicate ?tot None)" by (simp add: good_slots_def)
  have "?good \<noteq> {}" using enough assms(3) by (metis card.empty not_less)
  then obtain r where r: "r \<in> set reads" "usable L ?tot r" by blast
  then obtain m where m: "good = Some m" using ok init by auto
  have size: "om_size m = n" and gs: "good_slots ?tot sh slots" using ok init m by simp_all
  have "?good \<subseteq> {i. i < length slots \<and> slots ! i \<noteq> None}" using ok init gs by (auto simp: good_slots_def)
  then have "dn \<le> count_some slots" using enough card_mono [of "{i. i < length slots \<and> slots ! i \<noteq> None}" ?good]
    by (simp add: count_some_card)
  moreover have "is_ok r" using r(2) by (simp add: usable_def is_ok_def split: sum.splits)
  then have "\<not> list_all (\<lambda>r. \<not> is_ok r) reads" using r(1) unfolding list_all_iff by blast
  ultimately have "gather_shards L dn pn reads = Inr (slots, m)" using p m by (simp add: gather_shards_def)
  then show ?thesis using gs size \<open>dn \<le> count_some slots\<close> by blast
qed

end
