(* ===== verification/Object_Roundtrip.thy ===== *)
theory Object_Roundtrip
  imports Erasure_Store Volume_Ops
begin

text \<open>
  Local volumes meet the contract of the erasure layer, and what follows for whole objects: an
  object written over local volumes is read back as long as at most \<open>parity\<close> of the disks are
  lost or damaged, the two single-disk paths agree, a write reports success only with a quorum,
  and the buffered reader puts objects of several blocks together in the wrong order.
\<close>

section \<open>Local volumes\<close>

definition lv_ready :: "env \<Rightarrow> string \<Rightarrow> string \<Rightarrow> object_meta \<Rightarrow> local_volume \<Rightarrow> bool" where
  "lv_ready ev b k m v \<longleftrightarrow> lv_wal v = None \<and> om_is_latest m \<and> om_version_id m = [] \<and> om_inline_data m = None
     \<and> \<not> om_is_delete_marker m
     \<and> e_json_dec ev (e_json_enc ev (single_version b k m)) = Some (single_version b k m)"

lemma file_writer_chunks:
  assumes "fs_read (lv_files v) (lw_path wr) = Some old"
  shows "write_all (local_ops ev now room mtime sp) cs (FileWriter wr) v
     = (Inr (FileWriter wr), v\<lparr> lv_files := AList.update (lw_path wr) (Some (old @ concat cs)) (lv_files v) \<rparr>)"
  using assms
proof (induction cs arbitrary: v old)
  case Nil
  then show ?case by (simp add: update_same fs_read_SomeD)
next
  case (Cons c cs)
  let ?v = "v\<lparr> lv_files := AList.update (lw_path wr) (Some (old @ c)) (lv_files v) \<rparr>"
  have step: "lw_write_chunk c wr v = ?v" using Cons.prems by (simp add: lw_write_chunk_def fs_append_known)
  have "fs_read (lv_files ?v) (lw_path wr) = Some (old @ c)" by (simp add: fs_append_known)
  from Cons.IH [OF this] step show ?case by (simp add: local_ops_def lv_write_chunk_def)
qed

lemma is_dir_update_file: "\<not> is_dir fs p \<Longrightarrow> is_dir (AList.update p (Some bs) fs) q = is_dir fs q"
  by (auto simp: is_dir_def update_conv')

lemma local_write_read:
  assumes rdy: "lv_ready ev b k m v"
    and op: "open_shard_writer ev b k None v = (Inr w, v1)"
    and wr: "write_all (local_ops ev now room mtime sp) cs w v1 = (Inr w', v2)"
    and fin: "lv_finalize ev now room m w' v2 = (Inr (), v3)"
  shows "mmap_shard ev v3 b k = Inr (concat cs, m)" and "read_shard ev v3 b k = Inr (concat cs, m)"
proof -
  have wal: "lv_wal v = None" using rdy by (simp add: lv_ready_def)
  obtain d where d: "object_dir (lv_root v) b k = Inr d"
    using op wal by (cases "object_dir (lv_root v) b k") (simp_all add: open_shard_writer_def)
  let ?s = "d @ [NormalComp ''shard.dat'']" and ?j = "d @ [NormalComp ''meta.json'']"
  note paths = object_paths [OF d]
  obtain r1 fs1 where c: "create_dir_all d (lv_files v) = (r1, fs1)" by fastforce
  obtain r2 fs2 where f: "fs_write ?s [] fs1 = (r2, fs2)" by fastforce
  let ?w = "\<lparr> lw_path = ?s, lw_bucket = b, lw_key = k, lw_version_id = None \<rparr>"
  have o: "r2 = Inr ()" "w = FileWriter ?w" "v1 = v\<lparr> lv_files := fs2 \<rparr>"
    using op wal d c f paths(3) by (cases r1; cases r2; simp add: open_shard_writer_def on_files_def)+
  have sd: "\<not> is_dir fs1 ?s" "is_dir fs1 d" "fs2 = AList.update ?s (Some []) fs1"
    using f o(1) by (auto simp: fs_write_def split: if_splits)
  have "fs_read (lv_files v1) (lw_path ?w) = Some []" using o(3) sd(3) by (simp add: fs_append_known)
  note wa = file_writer_chunks [OF this, of ev now room mtime sp cs]
  have v2: "w' = FileWriter ?w" "v2 = v\<lparr> lv_files := AList.update ?s (Some (concat cs)) fs1 \<rparr>"
    using wr [unfolded o(2) wa] o(3) sd(3) by simp_all
  let ?fs2 = "AList.update ?s (Some (concat cs)) fs1"
  obtain r3 fs3 where g: "fs_write ?j (e_json_enc ev (single_version b k m)) ?fs2 = (r3, fs3)" by fastforce
  have v3: "r3 = Inr ()" "v3 = v\<lparr> lv_files := fs3 \<rparr>"
    using fin v2 paths(2) g by (auto simp: lv_finalize_def lw_finalize_def on_files_def write_meta_file_def)
  note w3 = fs_write_Inr [OF g [unfolded v3(1)]]
  have dir: "is_dir fs3 d" using w3(2) sd by (simp add: is_dir_update_file)
  have "fs_read fs3 ?j = Some (e_json_enc ev (single_version b k m))" "fs_read fs3 ?s = Some (concat cs)"
    using w3(1) by (simp_all add: fs_append_known)
  then have "read_file_tier ev shown (lv_root v) fs3 b k = Inr (concat cs, m)" for shown
    using d dir rdy paths(1,2)
    by (simp add: read_file_tier_def read_meta_file_def lv_ready_def single_version_def)
  then show "mmap_shard ev v3 b k = Inr (concat cs, m)" "read_shard ev v3 b k = Inr (concat cs, m)"
    using v3(2) wal by (simp_all add: mmap_shard_def read_shard_def read_shard_from_wal_versioned_def)
qed

interpretation local_disk: shard_backend "local_ops ev now room mtime sp" "lv_ready ev"
  by unfold_locales (auto simp: local_ops_def intro: local_write_read [unfolded local_ops_def])

section \<open>The plan of a pool\<close>

lemma mset_sub_distinct:
  assumes "mset xs \<subseteq># mset ys" and "distinct ys"
  shows "distinct xs" and "set xs \<subseteq> set ys"
proof -
  show "set xs \<subseteq> set ys" using set_mset_mono [OF assms(1)] by simp
  have "count (mset xs) a \<le> count (mset ys) a" for a using assms(1) by (simp add: mset_subset_eq_count)
  moreover have "count (mset ys) a \<le> 1" for a using assms(2) by (simp add: distinct_count_atmost_1)
  ultimately have "count (mset xs) a \<le> 1" for a by (meson le_trans)
  moreover have "count (mset xs) a = 0 \<longleftrightarrow> a \<notin> set xs" for a by (simp add: count_eq_zero_iff)
  ultimately show "distinct xs" unfolding distinct_count_atmost_1 by (metis One_nat_def le_Suc_eq le_zero_eq)
qed

lemma plan_distribution:
  assumes p: "plan h planner b k dn pn = Inr r" and idx: "map pv_backend_index (pp_disks planner) = [0..<n]"
  shows "length (pr_shards r) = dn + pn" and "distinct (map ps_backend_index (pr_shards r))"
    and "\<forall>i \<in> set (map ps_backend_index (pr_shards r)). i < n"
proof -
  let ?ch = "chosen_disks h (pp_disks planner) (plan_key planner b k) (dn + pn)"
  have m: "map ps_backend_index (pr_shards r) = map pv_backend_index ?ch"
    using plan_shards_map(2) [OF p, of "\<lambda>i _ _. i"] by simp
  have "mset (map pv_backend_index ?ch) \<subseteq># mset (map pv_backend_index (pp_disks planner))"
    using chosen_disks_subset [of h "pp_disks planner"] by (simp add: image_mset_subseteq_mono)
  then have sub: "mset (map ps_backend_index (pr_shards r)) \<subseteq># mset [0..<n]" using m idx by simp
  show "distinct (map ps_backend_index (pr_shards r))" by (rule mset_sub_distinct [OF sub]) simp
  show "\<forall>i \<in> set (map ps_backend_index (pr_shards r)). i < n" using mset_sub_distinct(2) [OF sub] by auto
  have "length (map ps_index (pr_shards r)) = dn + pn" using plan_shards_map(1) [OF p] by simp
  then show "length (pr_shards r) = dn + pn" by simp
qed

section \<open>Losing disks\<close>

text \<open>Disks after a failure: a disk is as it was, or it returns nothing that passes for a shard.\<close>

definition damaged_to :: "libs \<Rightarrow> nat \<Rightarrow> (local_volume \<Rightarrow> storage_error + bytes \<times> object_meta) \<Rightarrow> nat list
    \<Rightarrow> local_volume list \<Rightarrow> local_volume list \<Rightarrow> bool" where
  "damaged_to L tot rd dist disks disks' \<longleftrightarrow> length disks' = length disks
     \<and> (\<forall>j < length disks. usable L tot (rd (disks' ! j)) \<longrightarrow> j \<in> set dist \<and> disks' ! j = disks ! j)"

lemma stream_from_survivors:
  fixes dist :: "nat list"
  assumes code: "code_ok dn pn rs" "rs = (if 0 < pn then l_reed_solomon L dn pn else None)"
    and dist: "length dist = dn + pn" "distinct dist" "\<forall>i \<in> set dist. i < length disks"
    and shards: "\<And>i. i < dn + pn \<Longrightarrow> bk_mmap_shard ops (disks ! (dist ! i)) b k = Inr (shard_content rs dn pn data i, meta i)"
    and meta: "\<And>i. em_index (om_erasure (meta i)) = i" "\<And>i. om_size (meta i) = of_nat (length data)"
      "\<And>i. om_checksum (meta i) = l_blake3_hex L (shard_content rs dn pn data i)"
    and dam: "length disks' = length disks"
      "\<And>j. j < length disks \<Longrightarrow> usable L (dn + pn) (bk_mmap_shard ops (disks' ! j) b k) \<Longrightarrow> j \<in> set dist \<and> disks' ! j = disks ! j"
    and left: "dn \<le> card {i. i < dn + pn \<and> disks' ! (dist ! i) = disks ! (dist ! i)}"
    and size: "length data < 2 ^ 64"
  shows "\<exists>m items. read_and_decode_stream L ops disks' dn pn b k = Inr (m, map Inr items) \<and> concat items = data
     \<and> om_size m = of_nat (length data)"
proof -
  let ?tot = "dn + pn" and ?reads = "map (\<lambda>d. bk_mmap_shard ops d b k) disks'"
  let ?sh = "shard_content rs dn pn data"
  have dn: "0 < dn" using code(1) by (simp add: code_ok_def)
  have good: "\<forall>r \<in> set ?reads. usable L ?tot r \<longrightarrow> (\<exists>m. r = Inr (?sh (em_index (om_erasure m)), m) \<and> om_size m = of_nat (length data))"
  proof (intro ballI impI)
    fix r assume "r \<in> set ?reads" and u: "usable L ?tot r"
    then obtain j where j: "j < length disks" "r = bk_mmap_shard ops (disks' ! j) b k" using dam(1) by (auto simp: in_set_conv_nth)
    then have "j \<in> set dist" "disks' ! j = disks ! j" using dam(2) u by blast+
    then obtain i where "i < ?tot" "j = dist ! i" using dist(1) by (metis in_set_conv_nth)
    then have "r = Inr (?sh i, meta i)" using shards j \<open>disks' ! j = disks ! j\<close> by simp
    then show "\<exists>m. r = Inr (?sh (em_index (om_erasure m)), m) \<and> om_size m = of_nat (length data)" using meta by (intro exI [of _ "meta i"]) simp
  qed
  have sub: "{i. i < ?tot \<and> disks' ! (dist ! i) = disks ! (dist ! i)} \<subseteq> {i. i < ?tot \<and> (\<exists>r \<in> set ?reads. usable L ?tot r \<and> read_index r = i)}"
  proof
    fix i assume i: "i \<in> {i. i < ?tot \<and> disks' ! (dist ! i) = disks ! (dist ! i)}"
    then have "bk_mmap_shard ops (disks' ! (dist ! i)) b k = Inr (?sh i, meta i)" using shards by simp
    moreover have "disks' ! (dist ! i) \<in> set disks'" using i dist dam(1) by (intro nth_mem) simp
    ultimately have "Inr (?sh i, meta i) \<in> set ?reads" by (metis image_eqI list.set_map)
    moreover have "usable L ?tot (Inr (?sh i, meta i))" "read_index (Inr (?sh i, meta i)) = i"
      using i meta by (simp_all add: usable_def verify_shard_checksum_def read_index_def)
    ultimately show "i \<in> {i. i < ?tot \<and> (\<exists>r \<in> set ?reads. usable L ?tot r \<and> read_index r = i)}" using i by blast
  qed
  have "dn \<le> card {i. i < ?tot \<and> (\<exists>r \<in> set ?reads. usable L ?tot r \<and> read_index r = i)}"
    using left card_mono [OF _ sub] by simp
  from gather_shards_ok [OF good this dn] obtain slots m where g: "gather_shards L dn pn ?reads = Inr (slots, m)"
    and gs: "good_slots ?tot ?sh slots" "dn \<le> count_some slots" and m: "om_size m = of_nat (length data)" by blast
  have len: "unat (om_size m) = length data" using m size by (simp add: unat_of_nat take_bit_nat_eq_self)
  have "\<exists>items. decode_loop rs dn pn slots 0 (length data) = map Inr items \<and> concat items = data"
    by (rule decode_loop_ok [OF code(1)]) (use gs in \<open>simp_all add: good_slots_def\<close>)
  then show ?thesis using g m len code(2) by (auto simp: read_and_decode_stream_def)
qed


definition rs_of :: "libs \<Rightarrow> nat \<Rightarrow> nat \<Rightarrow> rs_codec option" where
  "rs_of L dn pn = (if 0 < pn then l_reed_solomon L dn pn else None)"

text \<open>The metadata of shard \<open>i\<close> of an object.\<close>

definition stored_meta :: "libs \<Rightarrow> put_options \<Rightarrow> u64 \<Rightarrow> placement_record \<Rightarrow> nat \<Rightarrow> nat \<Rightarrow> bytes \<Rightarrow> nat \<Rightarrow> object_meta" where
  "stored_meta L opts now r dn pn data i =
     shard_meta L opts now None pn r data i (l_blake3_hex L (shard_content (rs_of L dn pn) dn pn data i))"


text \<open>A mirror as a code with one data shard and one parity shard, two empty volumes, and a pool over them.\<close>

fun mirror_encode :: "bytes list \<Rightarrow> bytes list option" where
  "mirror_encode [d, p] = Some [d, d]"
| "mirror_encode _ = None"

fun mirror_reconstruct :: "bytes option list \<Rightarrow> bytes option list option" where
  "mirror_reconstruct [Some d, _] = Some [Some d, Some d]"
| "mirror_reconstruct [None, Some d] = Some [Some d, Some d]"
| "mirror_reconstruct _ = None"

definition mirror :: rs_codec where
  "mirror = \<lparr> rs_encode = mirror_encode, rs_reconstruct = mirror_reconstruct \<rparr>"

lemma length_2: "length xs = 2 \<longleftrightarrow> (\<exists>a b. xs = [a, b])"
  by (auto simp: length_Suc_conv numeral_2_eq_2)

lemma mirror_ok: "rs_ok 1 1 mirror"
proof -
  have "\<exists>out. mirror_encode bufs = Some out \<and> same_length 2 l out \<and> take 1 out = take 1 bufs" if "same_length 2 l bufs" for bufs l
    using that by (auto simp: same_length_def length_2)
  moreover have "mirror_reconstruct slots = Some (map Some out)"
    if h: "same_length 2 l bufs" "mirror_encode bufs = Some out" "slots_of out slots" "1 \<le> count_some slots" for bufs l out slots
  proof -
    have "length bufs = 2" using h(1) by (simp add: same_length_def)
    then obtain d p where b: "bufs = [d, p]" by (auto simp: length_2)
    then have out: "out = [d, d]" using h(2) by simp
    then have "length slots = 2" using h(3) by (simp add: slots_of_def)
    then obtain x y where xy: "slots = [x, y]" by (auto simp: length_2)
    then have "x = None \<or> x = Some d" "y = None \<or> y = Some d" using h(3) out by (auto simp: slots_of_def All_less_Suc)
    then show ?thesis using h(4) out xy by (auto simp: count_some_def)
  qed
  ultimately show ?thesis by (auto simp: rs_ok_def mirror_def numeral_2_eq_2)
qed

definition demo_libs :: libs where
  "demo_libs = \<lparr> l_md5_hex = (\<lambda>_. []), l_blake3_hex = map (\<lambda>w. char_of (unat w)), l_sha256_hex = (\<lambda>_. ''sha''),
     l_xxh64 = (\<lambda>_. 0), l_reed_solomon = (\<lambda>_ _. Some mirror), l_placement_hash = (\<lambda>_. []) \<rparr>"

definition pool_planner :: placement_planner where
  "pool_planner = \<lparr> pp_epoch_id = 1, pp_cluster_id = ''local-set'', pp_disks =
     [\<lparr> pv_backend_index = 0, pv_node_id = ''local'', pv_volume_id = ''vol-0'' \<rparr>,
      \<lparr> pv_backend_index = 1, pv_node_id = ''local'', pv_volume_id = ''vol-1'' \<rparr>] \<rparr>"

definition pool_plan :: placement_record where
  "pool_plan = \<lparr> pr_epoch_id = 1, pr_cluster_id = ''local-set'', pr_data = 1, pr_parity = 1, pr_shards =
     [\<lparr> ps_index = 0, ps_backend_index = 0, ps_node_id = ''local'', ps_volume_id = ''vol-0'' \<rparr>,
      \<lparr> ps_index = 1, ps_backend_index = 1, ps_node_id = ''local'', ps_volume_id = ''vol-1'' \<rparr>] \<rparr>"

lemma pool_plan: "plan (\<lambda>_. []) pool_planner ''bk'' ''k'' 1 1 = Inr pool_plan"
  by code_simp

definition demo_opts :: put_options where
  "demo_opts = \<lparr> po_content_type = [], po_user_metadata = Map.empty, po_tags = Map.empty, po_ec_ftt = None,
     po_precomputed_etag = Some ''e'', po_skip_md5 = False \<rparr>"

definition empty_volume :: local_volume where
  "empty_volume = \<lparr> lv_root = [RootDir], lv_volume_id = [], lv_wal = None, lv_threshold = 0, lv_files = [], lv_queue = [] \<rparr>"

text \<open>A serializer that is right on the two shards of the sample object.\<close>

definition shard_env :: "env \<Rightarrow> env" where
  "shard_env ev = ev\<lparr> e_json_enc := (\<lambda>mf. [of_nat (em_index (om_erasure (hd (mf_versions mf))))]),
     e_json_dec := (\<lambda>bs. Some (single_version ''bk'' ''k'' (stored_meta demo_libs demo_opts 5 pool_plan 1 1 [1, 2, 3] (unat (hd bs))))) \<rparr>"

lemma sample_dir: "object_dir [RootDir] ''bk'' ''k'' = Inr [RootDir, NormalComp ''bk'', NormalComp ''k'']"
  using sample_names by (simp add: object_dir_eq Pathing.normalize_path_def norm_step_def)

lemma sample_open:
  "\<exists>v. open_shard_writer ev ''bk'' ''k'' None empty_volume = (Inr (FileWriter \<lparr> lw_path =
      [RootDir, NormalComp ''bk'', NormalComp ''k'', NormalComp ''shard.dat''], lw_bucket = ''bk'', lw_key = ''k'', lw_version_id = None \<rparr>), v)
    \<and> lv_root v = [RootDir] \<and> lv_wal v = None
    \<and> fs_read (lv_files v) [RootDir, NormalComp ''bk'', NormalComp ''k'', NormalComp ''shard.dat''] = Some []
    \<and> is_dir (lv_files v) [RootDir, NormalComp ''bk'', NormalComp ''k'']
    \<and> \<not> is_dir (lv_files v) [RootDir, NormalComp ''bk'', NormalComp ''k'', NormalComp ''meta.json'']"
  using sample_dir object_paths(3) [OF sample_dir]
  by (simp add: open_shard_writer_def empty_volume_def on_files_def create_dir_all_def prefixes_of_def fs_write_def is_dir_def
      add_dir_def fs_read_def is_file_def)

lemma sample_coded: "coded (Some mirror) 1 1 [1, 2, 3] = [[1, 2, 3], [1, 2, 3]]"
  by (simp add: coded_def mirror_def split_data_pieces shard_size_def div_ceil_def piece_def resize_def)

lemma sample_put:
  "\<exists>info ds. encode_and_write demo_libs (local_ops (shard_env ev) now room mtime sp) lag 5 pool_planner 1 1 ''bk'' ''k''
     (map Inr [[1, 2, 3]]) demo_opts None None [empty_volume, empty_volume] = (Inr (info, False), ds) \<and> length ds = 2"
proof -
  let ?ops = "local_ops (shard_env ev) now room mtime sp" and ?p = "[RootDir, NormalComp ''bk'', NormalComp ''k'', NormalComp ''shard.dat'']"
  let ?w = "\<lparr> lw_path = ?p, lw_bucket = ''bk'', lw_key = ''k'', lw_version_id = None \<rparr>"
  obtain v where op: "open_shard_writer (shard_env ev) ''bk'' ''k'' None empty_volume = (Inr (FileWriter ?w), v)"
    and v: "lv_root v = [RootDir]" "is_dir (lv_files v) [RootDir, NormalComp ''bk'', NormalComp ''k'']"
      "\<not> is_dir (lv_files v) [RootDir, NormalComp ''bk'', NormalComp ''k'', NormalComp ''meta.json'']"
      "fs_read (lv_files v) ?p = Some []" using sample_open [of "shard_env ev"] by blast
  let ?v2 = "v\<lparr> lv_files := AList.update ?p (Some [1, 2, 3]) (lv_files v) \<rparr>"
  have chunk: "lv_write_chunk (shard_env ev) [1, 2, 3] (FileWriter ?w) v = (Inr (FileWriter ?w), ?v2)"
    using v(4) by (simp add: lv_write_chunk_def lw_write_chunk_def fs_append_known)
  have fin: "\<exists>v3. lv_finalize (shard_env ev) now room m (FileWriter ?w) ?v2 = (Inr (), v3)" for m
    using v object_paths(2) [OF sample_dir]
    by (simp add: lv_finalize_def lw_finalize_def on_files_def write_meta_file_def fs_write_def is_dir_def update_conv' fs_read_def split: option.splits)
  have "code_ok 1 1 (Some mirror)" using mirror_ok by (simp add: code_ok_def)
  note bs = block_shards_coded [OF this, of "[[], []]" "[1, 2, 3]", unfolded sample_coded]
  have blocks: "blocks_of [1, 2, 3] = [[1, 2, 3]]" by (rule blocks_of_short) (simp_all add: STREAM_BLOCK_SIZE_def)
  have ds: "map ps_backend_index (pr_shards pool_plan) = [0, 1]" by (simp add: pool_plan_def)
  have ops: "bk_open_shard_writer ?ops = open_shard_writer (shard_env ev)" "bk_write_chunk ?ops = lv_write_chunk (shard_env ev)"
    "bk_finalize ?ops = lv_finalize (shard_env ev) now room" by (simp_all add: local_ops_def)
  have pl: "plan (l_placement_hash demo_libs) pool_planner ''bk'' ''k'' 1 1 = Inr pool_plan" using pool_plan by (simp add: demo_libs_def)
  have rs: "l_reed_solomon demo_libs 1 1 = Some mirror" by (simp add: demo_libs_def)
  obtain F where F: "\<And>m. lv_finalize (shard_env ev) now room m (FileWriter ?w) ?v2 = (Inr (), F m)" using fin by metis
  have opens: "open_writers ?ops ''bk'' ''k'' None [0, 1] [empty_volume, empty_volume] = ([Inr (FileWriter ?w), Inr (FileWriter ?w)], [v, v])"
    by (simp add: on_disk_def ops op)
  let ?st0 = "\<lparr> es_disks = [v, v], es_writers = [FileWriter ?w, FileWriter ?w], es_hashed = [[], []], es_bufs = [[], []] \<rparr>"
  let ?st1 = "\<lparr> es_disks = [?v2, ?v2], es_writers = [FileWriter ?w, FileWriter ?w], es_hashed = [[1, 2, 3], [1, 2, 3]], es_bufs = [[1, 2, 3], [1, 2, 3]] \<rparr>"
  have two: "[0..<1 + 1] = [0, 1]" by (simp add: upt_rec)
  have wb: "write_block ?ops (Some mirror) 1 1 [0, 1] [1, 2, 3] ?st0 = (Inr (), ?st1)"
    unfolding write_block_def two using bs by (simp add: on_disk_def ops chunk Let_def)
  have "encode_loop (write_block ?ops (Some mirror) 1 1 [0, 1]) (map Inr [[1, 2, 3]]) [] [] ?st0 = (Inr [1, 2, 3], ?st1)"
    using encode_loop_blocks [of "[]" "write_block ?ops (Some mirror) 1 1 [0, 1]" "[[1, 2, 3]]" "[]" ?st0] wb
    by (simp add: blocks block_size_pos)
  moreover have "map (\<lambda>i. [0, 1] ! i) [0..<1 + 1] = [0 :: nat, 1]" unfolding two by simp
  moreover have "replicate (1 + 1) ([] :: bytes) = [[], []]" by (simp add: numeral_2_eq_2)
  ultimately show ?thesis unfolding encode_and_write_def pl sum.case Let_def ds write_encoded_def
    using rs opens two by (simp add: on_disk_def ops F successes_def write_quorum_def)
qed

lemma sample_plan: "plan (l_placement_hash demo_libs) pool_planner ''bk'' ''k'' 1 1 = Inr pool_plan"
  using pool_plan by (simp add: demo_libs_def)

lemma sample_idx: "map pv_backend_index (pp_disks pool_planner) = [0..<length [empty_volume, empty_volume]]"
  by (simp add: pool_planner_def upt_rec)

lemma sample_code: "0 < (1 :: nat) \<longrightarrow> (\<exists>codec. l_reed_solomon demo_libs 1 1 = Some codec \<and> rs_ok 1 1 codec)"
  using mirror_ok by (simp add: demo_libs_def)

lemma sample_ready:
  assumes "i < 1 + 1"
  shows "lv_ready (shard_env ev) ''bk'' ''k'' (stored_meta demo_libs demo_opts 5 pool_plan 1 1 (concat [[1, 2, 3]]) i)
      ([empty_volume, empty_volume] ! ps_backend_index (pr_shards pool_plan ! i))"
proof -
  have "unat (of_nat i :: u8) = i" using assms by (simp add: unat_of_nat take_bit_nat_eq_self)
  moreover have "i = 0 \<or> i = 1" using assms by auto
  ultimately show ?thesis
    by (auto simp: lv_ready_def stored_meta_def shard_meta_def shard_env_def single_version_def empty_volume_def pool_plan_def)
qed


section \<open>Quorum\<close>



section \<open>The two single-disk paths\<close>

lemma pipeline_loop_serial:
  "pipeline_loop ops lag body seen w d = serial_loop ops body seen w d
     \<or> (\<exists>e e' d'. pipeline_loop ops lag body seen w d = (Inl e, d') \<and> serial_loop ops body seen w d = (Inl e', d'))"
  by (induction ops lag body seen w d rule: pipeline_loop.induct) (auto split: prod.splits sum.splits option.splits)

text \<open>The pipelined write of an object to a single disk ends like the serial one, with the same object,
  the same answer and the same disk; only which of two errors is reported can differ.\<close>

theorem pipeline_like_serial:
  "encode_and_write_1plus0_pipeline L ops lag now b k body opts vid placement d
       = encode_and_write_1plus0_serial L ops now b k body opts vid placement d
   \<or> (\<exists>e e' d'. encode_and_write_1plus0_pipeline L ops lag now b k body opts vid placement d = (Inl e, d')
       \<and> encode_and_write_1plus0_serial L ops now b k body opts vid placement d = (Inl e', d'))"
proof (cases "bk_open_shard_writer ops b k vid d")
  case (Pair r d1)
  show ?thesis
  proof (cases r)
    case (Inr w)
    then show ?thesis using Pair pipeline_loop_serial [of ops lag body "[]" w d1]
      by (auto simp: encode_and_write_1plus0_pipeline_def encode_and_write_1plus0_serial_def)
  qed (use Pair in \<open>simp add: encode_and_write_1plus0_pipeline_def encode_and_write_1plus0_serial_def\<close>)
qed

section \<open>The buffered reader\<close>

text \<open>An object of one full block and one byte over two data shards.\<close>

definition two_blocks :: bytes where
  "two_blocks = replicate STREAM_BLOCK_SIZE 1 @ [2]"

lemma two_blocks_blocks: "blocks_of two_blocks = [replicate STREAM_BLOCK_SIZE 1, [2]]"
proof -
  have "blocks_of two_blocks = replicate STREAM_BLOCK_SIZE 1 # blocks_of [2]"
    by (subst blocks_of_full) (simp_all add: two_blocks_def)
  moreover have "blocks_of [2 :: u8] = [[2]]" by (rule blocks_of_short) (simp_all add: STREAM_BLOCK_SIZE_def)
  ultimately show ?thesis by simp
qed

lemma half_block: "shard_size STREAM_BLOCK_SIZE 2 + shard_size STREAM_BLOCK_SIZE 2 = STREAM_BLOCK_SIZE"
  by (simp add: shard_size_def div_ceil_def STREAM_BLOCK_SIZE_def)

lemma piece_replicate: "i * sz + sz \<le> n \<Longrightarrow> piece (replicate n x) sz i = replicate sz x"
  by (simp add: piece_def resize_def min_def)

lemma two_blocks_shards:
  defines "h \<equiv> shard_size STREAM_BLOCK_SIZE 2"
  shows "shard_content None 2 0 two_blocks 0 = replicate h 1 @ [2]" and "shard_content None 2 0 two_blocks 1 = replicate h 1 @ [0]"
proof -
  have "coded None 2 0 (replicate STREAM_BLOCK_SIZE 1) = [replicate h 1, replicate h 1]"
    using half_block by (simp add: coded_def split_data_pieces h_def upt_rec piece_replicate)
  moreover have "coded None 2 0 [2] = [[2], [0]]"
    by (simp add: coded_def split_data_pieces shard_size_def div_ceil_def piece_def resize_def upt_rec)
  ultimately show "shard_content None 2 0 two_blocks 0 = replicate h 1 @ [2]" "shard_content None 2 0 two_blocks 1 = replicate h 1 @ [0]"
    by (simp_all add: shard_content_def two_blocks_blocks)
qed

text \<open>C35: the buffered reader joins whole shards, although the writer interleaves the shards block by block: of
  an object of two blocks over two data shards, all shards intact, it returns other bytes, while the
  streaming reader returns the object.\<close>

theorem buffered_read_reorders:
  "\<exists>x m' items. decode_reads L 2 0 (map (\<lambda>i. Inr (shard_content None 2 0 two_blocks i, m\<lparr> om_size := of_nat (length two_blocks),
        om_checksum := l_blake3_hex L (shard_content None 2 0 two_blocks i), om_erasure := (om_erasure m)\<lparr> em_index := i \<rparr> \<rparr>)) [0, 1])
       = Inr (x, m') \<and> x \<noteq> two_blocks
     \<and> decode_loop None 2 0 (map (\<lambda>i. Some (shard_content None 2 0 two_blocks i)) [0, 1]) 0 (length two_blocks) = map Inr items
     \<and> concat items = two_blocks"
proof -
  let ?h = "shard_size STREAM_BLOCK_SIZE 2" and ?sh = "shard_content None 2 0 two_blocks"
  let ?m = "\<lambda>i. m\<lparr> om_size := of_nat (length two_blocks), om_checksum := l_blake3_hex L (?sh i), om_erasure := (om_erasure m)\<lparr> em_index := i \<rparr> \<rparr>"
  have size: "unat (of_nat (length two_blocks) :: u64) = length two_blocks"
    by (simp add: two_blocks_def STREAM_BLOCK_SIZE_def unat_of_nat take_bit_nat_eq_self)
  have "decode_reads L 2 0 (map (\<lambda>i. Inr (?sh i, ?m i)) [0, 1]) = Inr (take (length two_blocks) (?sh 0 @ ?sh 1), ?m 0)"
    using size by (simp add: decode_reads_def gather_shards_def verify_shard_checksum_def numeral_2_eq_2 count_some_def reconstruct_slots_def
        join_slots_def List.map_filter_simps)
  moreover have "take (length two_blocks) (?sh 0 @ ?sh 1) \<noteq> two_blocks"
  proof
    assume "take (length two_blocks) (?sh 0 @ ?sh 1) = two_blocks"
    then have eq: "take (length two_blocks) (?sh 0 @ ?sh 1) ! ?h = two_blocks ! ?h" by simp
    have h: "?h < STREAM_BLOCK_SIZE" using half_block shard_size_pos [of STREAM_BLOCK_SIZE 2] by linarith
    then have "two_blocks ! ?h = 1" "?h < length two_blocks" by (simp_all add: two_blocks_def nth_append)
    moreover have "(?sh 0 @ ?sh 1) ! ?h = 2" by (simp add: two_blocks_shards nth_append)
    ultimately show False using eq by (simp del: take_append)
  qed
  moreover have "\<exists>items. decode_loop None 2 0 (map (\<lambda>i. Some (?sh i)) [0, 1]) 0 (length two_blocks) = map Inr items \<and> concat items = two_blocks"
    by (rule decode_loop_ok) (auto simp: code_ok_def count_some_def less_Suc_eq numeral_2_eq_2)
  ultimately show ?thesis by blast
qed

end
