(* ===== verification/Heal.thy ===== *)
theory Heal
  imports Erasure_Store
begin

text \<open>
  Repair of objects (\<open>src/heal\<close>): the queue of objects that need repair, the repair of one
  object, the worker that drains the queue and the scan that fills it.
\<close>

section \<open>The repair queue\<close>

text \<open>The channel, the set of pending entries, whether the receiver still exists, and whether it is still to be taken.\<close>

type_synonym mrf_entry = "string \<times> string"

record mrf_queue =
  mq_channel :: "mrf_entry list"
  mq_capacity :: nat
  mq_seen :: "mrf_entry list"
  mq_open :: bool
  mq_rx :: bool

definition mrf_new :: "nat \<Rightarrow> mrf_queue" where
  "mrf_new capacity = \<lparr> mq_channel = [], mq_capacity = capacity, mq_seen = [], mq_open = True, mq_rx = True \<rparr>"

definition mrf_enqueue :: "mrf_entry \<Rightarrow> mrf_queue \<Rightarrow> (string + unit) \<times> mrf_queue" where
  "mrf_enqueue e q =
     (if e \<in> set (mq_seen q) then (Inr (), q)
      else if \<not> mq_open q then (Inl ''queue closed'', q)
      else if length (mq_channel q) \<ge> mq_capacity q then (Inl ''queue full'', q)
      else (Inr (), q\<lparr> mq_channel := mq_channel q @ [e], mq_seen := e # mq_seen q \<rparr>))"

text \<open>The receiver can be taken once.\<close>

definition take_receiver :: "mrf_queue \<Rightarrow> bool \<times> mrf_queue" where
  "take_receiver q = (mq_rx q, q\<lparr> mq_rx := False \<rparr>)"

definition mrf_recv :: "mrf_queue \<Rightarrow> (mrf_entry \<times> mrf_queue) option" where
  "mrf_recv q = (case mq_channel q of [] \<Rightarrow> None | e # es \<Rightarrow> Some (e, q\<lparr> mq_channel := es \<rparr>))"

definition mark_done :: "mrf_entry \<Rightarrow> mrf_queue \<Rightarrow> mrf_queue" where
  "mark_done e q = q\<lparr> mq_seen := removeAll e (mq_seen q) \<rparr>"

definition pending_count :: "mrf_queue \<Rightarrow> nat" where
  "pending_count q = length (mq_seen q)"

section \<open>Repairing one object\<close>

datatype heal_result = Healthy | Repaired nat | Unrecoverable

datatype shard_status = Good | NeedsRepair

text \<open>Groups of equal metadata with their sizes, in the order of their first member.\<close>

fun add_to_group :: "object_meta \<Rightarrow> (object_meta \<times> nat) list \<Rightarrow> (object_meta \<times> nat) list" where
  "add_to_group m [] = [(m, 1)]"
| "add_to_group m ((g, n) # gs) = (if quorum_eq g m then (g, n + 1) # gs else (g, n) # add_to_group m gs)"

definition some_reads :: "'a option list \<Rightarrow> 'a list" where
  "some_reads rs = List.map_filter (\<lambda>r. r) rs"

text \<open>The sort by descending size is stable, so the first of the largest groups wins.\<close>

definition find_consensus_meta :: "(bytes \<times> object_meta) option list \<Rightarrow> nat \<Rightarrow> storage_error + object_meta" where
  "find_consensus_meta reads data_n =
     (case map snd (some_reads reads) of
        [] \<Rightarrow> Inl ObjectNotFound
      | metas \<Rightarrow> (case sort_key (\<lambda>g. - int (snd g)) (fold add_to_group metas []) of
          [] \<Rightarrow> Inl ReadQuorum
        | (best, n) # _ \<Rightarrow> if n < data_n then Inl ReadQuorum else Inr best))"

fun classify_shards ::
  "libs \<Rightarrow> object_meta \<Rightarrow> nat \<Rightarrow> (bytes \<times> object_meta) option list \<Rightarrow> bytes option list \<Rightarrow> bytes option list" where
  "classify_shards L consensus tot [] slots = slots"
| "classify_shards L consensus tot (None # rs) slots = classify_shards L consensus tot rs slots"
| "classify_shards L consensus tot (Some (data, meta) # rs) slots =
     (let i = em_index (om_erasure meta) in
      if i \<ge> tot then classify_shards L consensus tot rs slots
      else if quorum_eq meta consensus \<and> verify_shard_checksum L data (om_checksum meta)
      then classify_shards L consensus tot rs (slots[i := Some data])
      else classify_shards L consensus tot rs slots)"

definition status_of :: "bytes option \<Rightarrow> shard_status" where
  "status_of s = (case s of Some _ \<Rightarrow> Good | None \<Rightarrow> NeedsRepair)"

text \<open>\<open>HashMap\<close> collected from pairs: a later disk with the same volume id replaces an earlier one.\<close>

definition vol_map :: "('d, 'w) backend_ops \<Rightarrow> 'd list \<Rightarrow> string \<Rightarrow> nat option" where
  "vol_map ops disks vid = map_of (rev (zip (map (\<lambda>d. bki_volume_id (bk_info ops d)) disks) [0..<length disks])) vid"

definition target_disk :: "('d, 'w) backend_ops \<Rightarrow> 'd list \<Rightarrow> object_meta \<Rightarrow> nat \<Rightarrow> nat" where
  "target_disk ops disks consensus i =
     (let vids = em_volume_ids (om_erasure consensus) in
      case (if i < length vids then vol_map ops disks (vids ! i) else None) of Some d \<Rightarrow> d | None \<Rightarrow> i)"

definition repair_meta :: "libs \<Rightarrow> object_meta \<Rightarrow> nat \<Rightarrow> bytes \<Rightarrow> object_meta" where
  "repair_meta L consensus i data = consensus\<lparr> om_erasure := (om_erasure consensus)\<lparr> em_index := i \<rparr>, om_checksum := l_blake3_hex L data \<rparr>"

fun write_repairs ::
  "libs \<Rightarrow> ('d, 'w) backend_ops \<Rightarrow> string \<Rightarrow> string \<Rightarrow> object_meta \<Rightarrow> (nat \<Rightarrow> nat) \<Rightarrow> (nat \<times> bytes option) list \<Rightarrow> nat \<Rightarrow> 'd list
    \<Rightarrow> nat \<times> 'd list" where
  "write_repairs L ops bucket key consensus target [] fixed disks = (fixed, disks)"
| "write_repairs L ops bucket key consensus target ((i, shard) # todo) fixed disks =
     (if target i \<ge> length disks then write_repairs L ops bucket key consensus target todo fixed disks
      else case shard of
          None \<Rightarrow> write_repairs L ops bucket key consensus target todo fixed disks
        | Some data \<Rightarrow>
            (case on_disk (target i) (bk_write_shard ops bucket key data (repair_meta L consensus i data)) disks of (r, disks) \<Rightarrow>
              write_repairs L ops bucket key consensus target todo (if is_ok r then fixed + 1 else fixed) disks))"

definition heal_object ::
  "libs \<Rightarrow> ('d, 'w) backend_ops \<Rightarrow> string \<Rightarrow> string \<Rightarrow> 'd list \<Rightarrow> (storage_error + heal_result) \<times> 'd list" where
  "heal_object L ops bucket key disks =
     then_do (lift_path (validate_bucket_name bucket), disks) (\<lambda>_ disks.
     then_do (lift_path (validate_object_key key), disks) (\<lambda>_ disks.
     let reads = map (\<lambda>d. ok (bk_read_shard ops d bucket key)) disks in
     case some_reads reads of
       [] \<Rightarrow> (Inl ObjectNotFound, disks)
     | (_, first_meta) # _ \<Rightarrow>
         (case em_data (om_erasure first_meta) of
            None \<Rightarrow> (Inl (Internal ''panic: attempt to subtract with overflow''), disks)
          | Some data_n \<Rightarrow>
              let parity_n = em_parity (om_erasure first_meta); tot = data_n + parity_n in
              then_do (find_consensus_meta reads data_n, disks) (\<lambda>consensus disks.
              let slots = classify_shards L consensus tot reads (replicate tot None); statuses = map status_of slots in
              if list_all (\<lambda>s. s \<noteq> NeedsRepair) statuses then (Inr Healthy, disks)
              else if length (filter (\<lambda>s. s = Good) statuses) < data_n then (Inr Unrecoverable, disks)
              else then_do (if parity_n > 0
                       then (case l_reed_solomon L data_n parity_n of
                           None \<Rightarrow> Inl (InvalidConfig ''reed-solomon'')
                         | Some codec \<Rightarrow> (case rs_reconstruct codec slots of None \<Rightarrow> Inl ReadQuorum | Some s \<Rightarrow> Inr s))
                       else Inr slots, disks) (\<lambda>filled disks.
                case write_repairs L ops bucket key consensus (target_disk ops disks consensus)
                       (List.map_filter (\<lambda>i. if statuses ! i = NeedsRepair then Some (i, filled ! i) else None) [0..<tot]) 0 disks of
                  (fixed, disks) \<Rightarrow> (Inr (Repaired fixed), disks))))))"

section \<open>Worker and scan\<close>

text \<open>One turn of the worker's loop: the result of the repair is only logged.\<close>

definition mrf_drain_step ::
  "libs \<Rightarrow> ('d, 'w) backend_ops \<Rightarrow> 'd list \<times> mrf_queue \<Rightarrow> 'd list \<times> mrf_queue" where
  "mrf_drain_step L ops s = (case mrf_recv (snd s) of
      None \<Rightarrow> s
    | Some (e, q) \<Rightarrow> (snd (heal_object L ops (fst e) (snd e) (fst s)), mark_done e q))"

definition object_needs_healing :: "libs \<Rightarrow> ('d, 'w) backend_ops \<Rightarrow> 'd list \<Rightarrow> string \<Rightarrow> string \<Rightarrow> storage_error + bool" where
  "object_needs_healing L ops disks bucket key =
     (case some_reads (map (\<lambda>d. ok (bk_stat_object ops d bucket key)) disks) of
        [] \<Rightarrow> Inr False
      | meta # _ \<Rightarrow> (case em_data (om_erasure meta) of
          None \<Rightarrow> Inl (Internal ''panic: attempt to subtract with overflow'')
        | Some data_n \<Rightarrow>
            let tot = data_n + em_parity (om_erasure meta) in
            Inr (length (filter (\<lambda>d. case bk_read_shard ops d bucket key of Inl _ \<Rightarrow> False
                | Inr (data, m) \<Rightarrow> em_index (om_erasure m) < tot \<and> quorum_eq m meta \<and> verify_shard_checksum L data (om_checksum m)) disks)
              < tot)))"

record scan_state =
  sc_last_checked :: "(string \<times> u64) list"
  sc_heal_interval :: u64

definition scan_new :: "u64 \<Rightarrow> scan_state" where
  "scan_new interval = \<lparr> sc_last_checked = [], sc_heal_interval = interval \<rparr>"

definition scan_key :: "string \<Rightarrow> string \<Rightarrow> string" where
  "scan_key bucket key = bucket @ ''/'' @ key"

definition should_scan :: "u64 \<Rightarrow> scan_state \<Rightarrow> string \<Rightarrow> string \<Rightarrow> bool" where
  "should_scan now st bucket key = (case map_of (sc_last_checked st) (scan_key bucket key) of
      Some at \<Rightarrow> (if now < at then 0 else now - at) \<ge> sc_heal_interval st | None \<Rightarrow> True)"

definition mark_checked :: "u64 \<Rightarrow> string \<Rightarrow> string \<Rightarrow> scan_state \<Rightarrow> scan_state" where
  "mark_checked now bucket key st = st\<lparr> sc_last_checked := AList.update (scan_key bucket key) now (sc_last_checked st) \<rparr>"

definition checked_count :: "scan_state \<Rightarrow> nat" where
  "checked_count st = length (sc_last_checked st)"

text \<open>A panic ends the scan; what was queued before it stays queued.\<close>

fun scan_keys ::
  "libs \<Rightarrow> ('d, 'w) backend_ops \<Rightarrow> u64 \<Rightarrow> 'd list \<Rightarrow> string \<Rightarrow> string list \<Rightarrow> mrf_queue \<times> scan_state
    \<Rightarrow> (storage_error + unit) \<times> mrf_queue \<times> scan_state" where
  "scan_keys L ops now disks bucket [] s = (Inr (), s)"
| "scan_keys L ops now disks bucket (key # keys) (q, st) =
     (if \<not> should_scan now st bucket key then scan_keys L ops now disks bucket keys (q, st)
      else then_do (object_needs_healing L ops disks bucket key, (q, st)) (\<lambda>needs (q, st).
        scan_keys L ops now disks bucket keys
          (if needs then snd (mrf_enqueue (bucket, key) q) else q, mark_checked now bucket key st)))"

fun scan_buckets ::
  "libs \<Rightarrow> ('d, 'w) backend_ops \<Rightarrow> u64 \<Rightarrow> 'd list \<Rightarrow> 'd \<Rightarrow> string list \<Rightarrow> mrf_queue \<times> scan_state
    \<Rightarrow> (storage_error + unit) \<times> mrf_queue \<times> scan_state" where
  "scan_buckets L ops now disks d [] s = (Inr (), s)"
| "scan_buckets L ops now disks d (bucket # buckets) s = (case bk_list_objects ops d bucket [] of
      Inl _ \<Rightarrow> scan_buckets L ops now disks d buckets s
    | Inr keys \<Rightarrow> then_do (scan_keys L ops now disks bucket keys s) (\<lambda>_ s. scan_buckets L ops now disks d buckets s))"

definition run_scan_cycle ::
  "libs \<Rightarrow> ('d, 'w) backend_ops \<Rightarrow> u64 \<Rightarrow> 'd list \<Rightarrow> mrf_queue \<times> scan_state \<Rightarrow> (storage_error + unit) \<times> mrf_queue \<times> scan_state" where
  "run_scan_cycle L ops now disks s = (case disks of
      [] \<Rightarrow> (Inr (), s)
    | d # _ \<Rightarrow> (case bk_list_buckets ops d of Inl _ \<Rightarrow> (Inr (), s) | Inr buckets \<Rightarrow> scan_buckets L ops now disks d buckets s))"

end
