(* ===== verification/Heal_Proofs.thy ===== *)
theory Heal_Proofs
  imports Heal Object_Roundtrip Durability
begin

text \<open>
  What repair achieves: an object with enough intact shards has all its shards again, on the
  disks its metadata names, with the bytes they had; every queued object gets its turn; the
  queue holds every object at most once and never grows past its capacity.
\<close>

section \<open>The queue\<close>

definition mrf_ok :: "mrf_queue \<Rightarrow> bool" where
  "mrf_ok q \<longleftrightarrow> distinct (mq_channel q) \<and> distinct (mq_seen q) \<and> set (mq_channel q) \<subseteq> set (mq_seen q)
     \<and> length (mq_channel q) \<le> mq_capacity q"

lemma mrf_ok_new: "mrf_ok (mrf_new n)"
  by (simp add: mrf_ok_def mrf_new_def)

lemma mrf_ok_enqueue: "mrf_ok q \<Longrightarrow> mrf_ok (snd (mrf_enqueue e q))"
  by (auto simp: mrf_ok_def mrf_enqueue_def)

lemma mrf_ok_work:
  assumes "mrf_ok q" and "mrf_recv q = Some (e, q')"
  shows "mrf_ok (mark_done e q')" and "e \<notin> set (mq_seen (mark_done e q'))"
  using assms by (auto simp: mrf_ok_def mrf_recv_def mark_done_def distinct_removeAll split: list.splits)

datatype mrf_event = Enqueue mrf_entry | Work

definition mrf_step :: "libs \<Rightarrow> ('d, 'w) backend_ops \<Rightarrow> mrf_event \<Rightarrow> 'd list \<times> mrf_queue \<Rightarrow> 'd list \<times> mrf_queue" where
  "mrf_step L ops ev s = (case ev of Enqueue e \<Rightarrow> (fst s, snd (mrf_enqueue e (snd s))) | Work \<Rightarrow> mrf_drain_step L ops s)"

definition mrf_run :: "libs \<Rightarrow> ('d, 'w) backend_ops \<Rightarrow> mrf_event list \<Rightarrow> 'd list \<times> mrf_queue \<Rightarrow> 'd list \<times> mrf_queue" where
  "mrf_run L ops evs s = fold (mrf_step L ops) evs s"

definition works :: "mrf_event list \<Rightarrow> nat" where
  "works evs = length (filter (\<lambda>ev. ev = Work) evs)"

lemma mrf_run_ok: "mrf_ok (snd s) \<Longrightarrow> mrf_ok (snd (mrf_run L ops evs s))"
proof (induction evs arbitrary: s)
  case (Cons ev evs)
  have "mrf_ok (snd (mrf_step L ops ev s))"
    using Cons.prems mrf_ok_enqueue mrf_ok_work(1)
    by (auto simp: mrf_step_def mrf_drain_step_def split: mrf_event.splits option.splits)
  then show ?case using Cons.IH by (simp add: mrf_run_def)
qed (simp add: mrf_run_def)

text \<open>C5: every queued object gets its turn: however enqueues and turns of the worker interleave, an object at
  position \<open>i\<close> of the channel is the one the worker takes by its turn number \<open>i\<close> at the latest, and
  after that turn it is no longer pending, so that it can be queued again.\<close>

theorem queued_object_gets_healed:
  assumes "mrf_ok q" and "i < length (mq_channel q)" and "mq_channel q ! i = e" and "i < works evs"
  shows "\<exists>before after q'. evs = before @ Work # after \<and> mrf_recv (snd (mrf_run L ops before (disks, q))) = Some (e, q')
     \<and> e \<notin> set (mq_seen (snd (mrf_run L ops (before @ [Work]) (disks, q))))"
  using assms
proof (induction evs arbitrary: q i disks)
  case Nil
  then show ?case by (simp add: works_def)
next
  case (Cons ev evs)
  let ?s = "mrf_step L ops ev (disks, q)"
  have ok: "mrf_ok (snd ?s)" using mrf_run_ok [of "(disks, q)" L ops "[ev]"] Cons.prems(1) by (simp add: mrf_run_def)
  have lift: "\<exists>before after q'. ev # evs = before @ Work # after \<and> mrf_recv (snd (mrf_run L ops before (disks, q))) = Some (e, q')
     \<and> e \<notin> set (mq_seen (snd (mrf_run L ops (before @ [Work]) (disks, q))))"
    if j: "j < length (mq_channel (snd ?s))" "mq_channel (snd ?s) ! j = e" "j < works evs" for j
  proof -
    from Cons.IH [OF ok j, of "fst ?s"] obtain before after q' where
      "evs = before @ Work # after" "mrf_recv (snd (mrf_run L ops before ?s)) = Some (e, q')"
      "e \<notin> set (mq_seen (snd (mrf_run L ops (before @ [Work]) ?s)))" by auto
    then show ?thesis by (intro exI [of _ "ev # before"] exI [of _ after] exI [of _ q']) (simp add: mrf_run_def)
  qed
  show ?case
  proof (cases ev)
    case (Enqueue x)
    have "\<exists>ys. mq_channel (snd ?s) = mq_channel q @ ys" using Enqueue by (auto simp: mrf_step_def mrf_enqueue_def)
    then obtain ys where "mq_channel (snd ?s) = mq_channel q @ ys" by blast
    then show ?thesis using lift [of i] Cons.prems Enqueue by (simp add: nth_append works_def)
  next
    case Work
    obtain x xs where ch: "mq_channel q = x # xs" using Cons.prems(2) by (cases "mq_channel q") auto
    let ?q = "q\<lparr> mq_channel := xs \<rparr>"
    have rv: "mrf_recv q = Some (x, ?q)" using ch by (simp add: mrf_recv_def)
    have s: "snd ?s = mark_done x ?q" using Work rv by (simp add: mrf_step_def mrf_drain_step_def)
    show ?thesis
    proof (cases i)
      case 0
      then have "x = e" using Cons.prems(3) ch by simp
      then show ?thesis using rv s Work mrf_ok_work(2) [OF Cons.prems(1) rv]
        by (intro exI [of _ "[]"] exI [of _ evs] exI [of _ ?q]) (simp add: mrf_run_def)
    next
      case (Suc j)
      then show ?thesis using lift [of j] Cons.prems(2-4) ch s Work by (simp add: mark_done_def works_def)
    qed
  qed
qed

theorem queued_object_gets_healed_witness:
  "\<exists>before after q'. [Work, Enqueue (''b'', ''z''), Work] = before @ Work # after
     \<and> mrf_recv (snd (mrf_run demo_libs (local_ops (shard_env undefined) 0 True (\<lambda>_ _. 0) (\<lambda>_. [])) before
         ([], \<lparr> mq_channel = [(''b'', ''x''), (''b'', ''y'')], mq_capacity = 3, mq_seen = [(''b'', ''x''), (''b'', ''y'')], mq_open = True, mq_rx = True \<rparr>)))
       = Some ((''b'', ''y''), q')"
proof -
  let ?q = "\<lparr> mq_channel = [(''b'', ''x''), (''b'', ''y'')], mq_capacity = 3, mq_seen = [(''b'', ''x''), (''b'', ''y'')], mq_open = True, mq_rx = True \<rparr>"
  have ok: "mrf_ok ?q" "1 < length (mq_channel ?q)" "mq_channel ?q ! 1 = (''b'', ''y'')" "1 < works [Work, Enqueue (''b'', ''z''), Work]"
    by (simp_all add: mrf_ok_def works_def)
  show ?thesis using queued_object_gets_healed [OF ok, of demo_libs "local_ops (shard_env undefined) 0 True (\<lambda>_ _. 0) (\<lambda>_. [])" "[]"] by blast
qed

section \<open>What the disks return\<close>

definition readable :: "('d, 'w) backend_ops \<Rightarrow> string \<Rightarrow> string \<Rightarrow> 'd list \<Rightarrow> (bytes \<times> object_meta) list" where
  "readable ops b k disks = some_reads (map (\<lambda>d. ok (bk_read_shard ops d b k)) disks)"

lemma set_some_reads: "set (some_reads rs) = {x. Some x \<in> set rs}"
  by (force simp: some_reads_def map_filter_def)

lemma set_readable: "set (readable ops b k disks) = {x. \<exists>d \<in> set disks. bk_read_shard ops d b k = Inr x}"
proof -
  have "Some x = ok r \<longleftrightarrow> r = Inr x" for x :: "bytes \<times> object_meta" and r :: "storage_error + bytes \<times> object_meta"
    by (cases r) auto
  then show ?thesis by (simp add: readable_def set_some_reads image_iff)
qed

definition intact :: "libs \<Rightarrow> nat \<Rightarrow> bytes \<times> object_meta \<Rightarrow> bool" where
  "intact L tot x \<longleftrightarrow> em_index (om_erasure (snd x)) < tot \<and> verify_shard_checksum L (fst x) (om_checksum (snd x))"

text \<open>Metadata that all agree form one group, led by the first.\<close>

lemma group_same:
  assumes "\<forall>m \<in> set ms. quorum_eq c m"
  shows "fold add_to_group ms [(c, n)] = [(c, n + length ms)]"
  using assms by (induction ms arbitrary: n) simp_all

lemma consensus_same:
  assumes "map snd (some_reads rs) = c # ms" and "\<forall>m \<in> set ms. quorum_eq c m" and "dn \<le> Suc (length ms)"
  shows "find_consensus_meta rs dn = Inr c"
  using assms by (simp add: find_consensus_meta_def group_same sort_key_def)

lemma classify_shards_nth:
  assumes "\<forall>x. Some x \<in> set rs \<longrightarrow> quorum_eq (snd x) c \<and> (intact L tot x \<longrightarrow> fst x = sh (em_index (om_erasure (snd x))))"
    and "length slots = tot"
  shows "length (classify_shards L c tot rs slots) = tot"
    and "i < tot \<Longrightarrow> classify_shards L c tot rs slots ! i
      = (if \<exists>x. Some x \<in> set rs \<and> intact L tot x \<and> em_index (om_erasure (snd x)) = i then Some (sh i) else slots ! i)"
proof -
  have "length (classify_shards L c tot rs slots) = tot \<and> (\<forall>i < tot. classify_shards L c tot rs slots ! i
      = (if \<exists>x. Some x \<in> set rs \<and> intact L tot x \<and> em_index (om_erasure (snd x)) = i then Some (sh i) else slots ! i))"
    using assms
  proof (induction rs arbitrary: slots)
    case (Cons r rs)
    show ?case
    proof (cases r)
      case None
      then show ?thesis using Cons by simp
    next
      case (Some x)
      obtain d m where x: "x = (d, m)" by fastforce
      let ?i = "em_index (om_erasure m)"
      have q: "quorum_eq m c" "intact L tot x \<Longrightarrow> d = sh ?i" using Cons.prems(1) Some x by auto
      have rs: "\<forall>x. Some x \<in> set rs \<longrightarrow> quorum_eq (snd x) c \<and> (intact L tot x \<longrightarrow> fst x = sh (em_index (om_erasure (snd x))))"
        using Cons.prems(1) by simp
      show ?thesis
      proof (cases "intact L tot x")
        case True
        then have "classify_shards L c tot (r # rs) slots = classify_shards L c tot rs (slots[?i := Some (sh ?i)])"
          using Some x q by (simp add: intact_def Let_def)
        moreover have "length (slots[?i := Some (sh ?i)]) = tot" using Cons.prems(2) by simp
        ultimately have eq: "classify_shards L c tot (r # rs) slots ! i = (if P then Some (sh i) else slots[?i := Some (sh ?i)] ! i)"
          if "i < tot" and "P \<longleftrightarrow> (\<exists>y. Some y \<in> set rs \<and> intact L tot y \<and> em_index (om_erasure (snd y)) = i)" for i P
          using Cons.IH [OF rs] that by presburger
        have "classify_shards L c tot (r # rs) slots ! i
            = (if \<exists>y. Some y \<in> set (r # rs) \<and> intact L tot y \<and> em_index (om_erasure (snd y)) = i then Some (sh i) else slots ! i)" if i: "i < tot" for i
        proof (cases "\<exists>y. Some y \<in> set rs \<and> intact L tot y \<and> em_index (om_erasure (snd y)) = i")
          case True
          then show ?thesis using eq [OF i, of True] by auto
        next
          case no: False
          show ?thesis
          proof (cases "i = ?i")
            case True
            then show ?thesis using eq [OF i, of False] no \<open>intact L tot x\<close> Some x Cons.prems(2) i by auto
          next
            case False
            then show ?thesis using eq [OF i, of False] no Some x by (auto simp: nth_list_update_neq)
          qed
        qed
        then show ?thesis using Cons.IH [OF rs] Cons.prems(2) Some x True q by (simp add: intact_def Let_def)
      next
        case False
        then have "classify_shards L c tot (r # rs) slots = classify_shards L c tot rs slots"
          using Some x by (auto simp: intact_def Let_def)
        then show ?thesis using Cons.IH [OF rs Cons.prems(2)] Some False by auto
      qed
    qed
  qed simp
  then show "length (classify_shards L c tot rs slots) = tot"
    "i < tot \<Longrightarrow> classify_shards L c tot rs slots ! i
      = (if \<exists>x. Some x \<in> set rs \<and> intact L tot x \<and> em_index (om_erasure (snd x)) = i then Some (sh i) else slots ! i)" by blast+
qed

text \<open>The disk of a shard is the one with its volume id.\<close>

lemma target_disk_volume:
  assumes "i < length vids" and "vids ! i \<in> set (map (\<lambda>d. bki_volume_id (bk_info ops d)) disks)"
    and "em_volume_ids (om_erasure c) = vids"
  shows "target_disk ops disks c i < length disks"
    and "bki_volume_id (bk_info ops (disks ! target_disk ops disks c i)) = vids ! i"
proof -
  let ?ids = "map (\<lambda>d. bki_volume_id (bk_info ops d)) disks"
  have "vids ! i \<in> fst ` set (rev (zip ?ids [0..<length disks]))" using assms(2) by (metis length_map length_upt map_fst_zip diff_zero set_map set_rev)
  then obtain j where j: "map_of (rev (zip ?ids [0..<length disks])) (vids ! i) = Some j"
    using map_of_eq_None_iff [of "rev (zip ?ids [0..<length disks])" "vids ! i"] by (cases "map_of (rev (zip ?ids [0..<length disks])) (vids ! i)") auto
  have "(vids ! i, j) \<in> set (zip ?ids [0..<length disks])" using map_of_SomeD [OF j] by simp
  then have "j < length disks" "?ids ! j = vids ! i" by (auto simp: set_zip)
  moreover have "target_disk ops disks c i = j" using j assms(1,3) by (simp add: target_disk_def vol_map_def)
  ultimately show "target_disk ops disks c i < length disks" "bki_volume_id (bk_info ops (disks ! target_disk ops disks c i)) = vids ! i"
    by simp_all
qed

lemma rs_ok_length: "rs_ok dn pn codec \<Longrightarrow> same_length (dn + pn) l bufs \<Longrightarrow> rs_encode codec bufs = Some out \<Longrightarrow> length out = dn + pn"
  unfolding rs_ok_def same_length_def by fastforce

text \<open>The shards that some disk still returns intact; the disks hold one object, written as \<open>out\<close>, each
  intact shard on the disk of its volume id.\<close>

definition intact_shards :: "libs \<Rightarrow> ('d, 'w) backend_ops \<Rightarrow> string \<Rightarrow> string \<Rightarrow> nat \<Rightarrow> 'd list \<Rightarrow> nat set" where
  "intact_shards L ops b k tot disks = {i. \<exists>x \<in> set (readable ops b k disks). intact L tot x \<and> em_index (om_erasure (snd x)) = i}"

definition one_object :: "libs \<Rightarrow> ('d, 'w) backend_ops \<Rightarrow> string \<Rightarrow> string \<Rightarrow> object_meta \<Rightarrow> bytes list \<Rightarrow> 'd list \<Rightarrow> bool" where
  "one_object L ops b k c out disks \<longleftrightarrow> readable ops b k disks \<noteq> [] \<and> snd (hd (readable ops b k disks)) = c
     \<and> (\<forall>x \<in> set (readable ops b k disks). quorum_eq (snd x) c
          \<and> (intact L (length out) x \<longrightarrow> fst x = out ! em_index (om_erasure (snd x))))
     \<and> (\<forall>d < length disks. \<forall>x. bk_read_shard ops (disks ! d) b k = Inr x \<and> intact L (length out) x
          \<longrightarrow> d = target_disk ops disks c (em_index (om_erasure (snd x))))"

definition volumes_known :: "('d, 'w) backend_ops \<Rightarrow> object_meta \<Rightarrow> 'd list \<Rightarrow> bool" where
  "volumes_known ops c disks \<longleftrightarrow> distinct (em_volume_ids (om_erasure c))
     \<and> set (em_volume_ids (om_erasure c)) \<subseteq> set (map (\<lambda>d. bki_volume_id (bk_info ops d)) disks)"

lemma volumes_known_targets:
  assumes "volumes_known ops c disks" and "length (em_volume_ids (om_erasure c)) = tot"
  shows "i < tot \<Longrightarrow> target_disk ops disks c i < length disks" and "inj_on (target_disk ops disks c) {..<tot}"
proof -
  let ?vids = "em_volume_ids (om_erasure c)"
  have tl: "target_disk ops disks c i < length disks" "bki_volume_id (bk_info ops (disks ! target_disk ops disks c i)) = ?vids ! i"
    if "i < tot" for i
    using target_disk_volume [of i ?vids ops disks c] that assms by (auto simp: volumes_known_def subset_iff)
  then show "i < tot \<Longrightarrow> target_disk ops disks c i < length disks" by blast
  show "inj_on (target_disk ops disks c) {..<tot}"
    using tl(2) assms by (intro inj_onI) (metis lessThan_iff nth_eq_iff_index_eq volumes_known_def)
qed

lemma intact_shards_bounds:
  "intact_shards L ops b k tot disks \<subseteq> {..<tot}" "finite (intact_shards L ops b k tot disks)"
  "card (intact_shards L ops b k tot disks) \<le> length (readable ops b k disks)"
proof -
  show le: "intact_shards L ops b k tot disks \<subseteq> {..<tot}" by (auto simp: intact_shards_def intact_def)
  then show "finite (intact_shards L ops b k tot disks)" by (rule finite_subset) simp
  have "intact_shards L ops b k tot disks \<subseteq> (\<lambda>x. em_index (om_erasure (snd x))) ` set (readable ops b k disks)"
    by (auto simp: intact_shards_def)
  then show "card (intact_shards L ops b k tot disks) \<le> length (readable ops b k disks)"
    by (meson List.finite_set card_image_le card_length card_mono finite_imageI le_trans)
qed

definition statuses_of :: "nat set \<Rightarrow> nat \<Rightarrow> shard_status list" where
  "statuses_of S tot = map (\<lambda>i. if i \<in> S then Good else NeedsRepair) [0..<tot]"

lemma statuses_of:
  assumes "S \<subseteq> {..<tot}"
  shows "list_all (\<lambda>s. s \<noteq> NeedsRepair) (statuses_of S tot) \<longleftrightarrow> S = {..<tot}"
    and "length (filter (\<lambda>s. s = Good) (statuses_of S tot)) = card S"
    and "List.map_filter (\<lambda>i. if statuses_of S tot ! i = NeedsRepair then Some (i, f i) else None) [0..<tot]
      = map (\<lambda>i. (i, f i)) (filter (\<lambda>i. i \<notin> S) [0..<tot])"
proof -
  show "list_all (\<lambda>s. s \<noteq> NeedsRepair) (statuses_of S tot) \<longleftrightarrow> S = {..<tot}"
    using assms by (auto simp: list_all_iff statuses_of_def)
  have "length (filter (\<lambda>s. s = Good) (statuses_of S tot)) = card (set (filter (\<lambda>i. i \<in> S) [0..<tot]))"
    by (subst distinct_card) (simp_all add: statuses_of_def filter_map comp_def if_distrib cong: if_cong)
  also have "set (filter (\<lambda>i. i \<in> S) [0..<tot]) = S" using assms by auto
  finally show "length (filter (\<lambda>s. s = Good) (statuses_of S tot)) = card S" .
  have "filter (\<lambda>i. (if statuses_of S tot ! i = NeedsRepair then Some (i, f i) else None) \<noteq> None) [0..<tot] = filter (\<lambda>i. i \<notin> S) [0..<tot]"
    by (rule filter_cong) (simp_all add: statuses_of_def)
  moreover have "statuses_of S tot ! i = NeedsRepair" if "i \<in> set (filter (\<lambda>i. i \<notin> S) [0..<tot])" for i
    using that by (simp add: statuses_of_def)
  ultimately show "List.map_filter (\<lambda>i. if statuses_of S tot ! i = NeedsRepair then Some (i, f i) else None) [0..<tot]
      = map (\<lambda>i. (i, f i)) (filter (\<lambda>i. i \<notin> S) [0..<tot])" by (simp add: map_filter_def)
qed

text \<open>What repair does when the readable metadata agree.\<close>

lemma heal_object_eq:
  assumes names: "validate_bucket_name b = Inr ()" "validate_object_key k = Inr ()" and obj: "one_object L ops b k c out disks"
    and layout: "length (em_volume_ids (om_erasure c)) = dn + pn" "em_ftt (om_erasure c) = pn" "0 < pn" "length out = dn + pn"
    and S: "S = intact_shards L ops b k (dn + pn) disks" and enough: "dn \<le> card S"
    and code: "l_reed_solomon L dn pn = Some codec" "rs_ok dn pn codec" "same_length (dn + pn) l bufs" "rs_encode codec bufs = Some out"
  shows "heal_object L ops b k disks = (if S = {..<dn + pn} then (Inr Healthy, disks)
      else case write_repairs L ops b k c (target_disk ops disks c) (map (\<lambda>i. (i, Some (out ! i))) (filter (\<lambda>i. i \<notin> S) [0..<dn + pn])) 0 disks of
          (fixed, disks) \<Rightarrow> (Inr (Repaired fixed), disks))"
proof -
  let ?tot = "dn + pn" and ?reads = "map (\<lambda>d. ok (bk_read_shard ops d b k)) disks"
  let ?slots = "classify_shards L c ?tot ?reads (replicate ?tot None)"
  note bounds = intact_shards_bounds [of L ops b k ?tot disks, folded S]
  have sr: "some_reads ?reads = readable ops b k disks" by (simp add: readable_def)
  obtain d0 rest where rd: "readable ops b k disks = (d0, c) # rest" using obj by (cases "readable ops b k disks") (auto simp: one_object_def)
  have cons: "find_consensus_meta ?reads dn = Inr c"
    using obj rd sr enough bounds(3) quorum_eq_sym by (intro consensus_same [where ms = "map snd rest"]) (auto simp: one_object_def)
  have rs: "\<forall>x. Some x \<in> set ?reads \<longrightarrow> quorum_eq (snd x) c \<and> (intact L ?tot x \<longrightarrow> fst x = out ! em_index (om_erasure (snd x)))"
    using obj layout(4) unfolding one_object_def sr [symmetric] set_some_reads by simp
  have hs: "(\<exists>x. Some x \<in> set ?reads \<and> intact L ?tot x \<and> em_index (om_erasure (snd x)) = i) \<longleftrightarrow> i \<in> S" for i
    unfolding S intact_shards_def sr [symmetric] set_some_reads by blast
  note cl = classify_shards_nth [OF rs, where slots = "replicate ?tot None", unfolded length_replicate, OF refl]
  have slot: "?slots ! i = (if i \<in> S then Some (out ! i) else None)" if "i < ?tot" for i using cl(2) [OF that] hs that by simp
  have sts: "map status_of ?slots = statuses_of S ?tot"
    using cl(1) slot by (intro nth_equalityI) (simp_all add: status_of_def statuses_of_def)
  have "slots_of out ?slots" using slot cl(1) layout(4) by (simp add: slots_of_def)
  moreover have "count_some ?slots = card S"
  proof -
    have "{i. i < ?tot \<and> ?slots ! i \<noteq> None} = S" using slot bounds(1) by (auto split: if_splits)
    then show ?thesis using cl(1) by (simp add: count_some_card)
  qed
  ultimately have rec: "rs_reconstruct codec ?slots = Some (map Some out)"
    using rs_ok_reconstruct [OF code(2-4)] enough by simp
  have dn: "em_data (om_erasure c) = Some dn" "em_parity (om_erasure c) = pn" using layout by (simp_all add: em_data_def em_parity_def)
  have "List.map_filter (\<lambda>i. if statuses_of S ?tot ! i = NeedsRepair then Some (i, map Some out ! i) else None) [0..<?tot]
      = map (\<lambda>i. (i, Some (out ! i))) (filter (\<lambda>i. i \<notin> S) [0..<?tot])"
    unfolding statuses_of(3) [OF bounds(1)] using layout(4) by simp
  then show ?thesis
    using enough by (simp add: heal_object_def names sr rd dn cons Let_def sts statuses_of(1,2) [OF bounds(1)] layout(3) code(1) rec)
qed

section \<open>The contract of a disk that is repaired\<close>

locale repair_backend =
  fixes ops :: "('d, 'w) backend_ops"
    and writable :: "string \<Rightarrow> string \<Rightarrow> bytes \<Rightarrow> object_meta \<Rightarrow> 'd \<Rightarrow> bool"
  assumes write_then_read: "writable b k data m d \<Longrightarrow>
      \<exists>d'. bk_write_shard ops b k data m d = (Inr (), d') \<and> bk_read_shard ops d' b k = Inr (data, m)"
begin

lemma write_repairs_all:
  fixes disks :: "'d list"
  assumes "distinct (map target is)" and "\<forall>i \<in> set is. target i < length disks"
    and "\<forall>i \<in> set is. writable b k (sh i) (repair_meta L c i (sh i)) (disks ! target i)"
  shows "\<exists>disks'. write_repairs L ops b k c target (map (\<lambda>i. (i, Some (sh i))) is) n disks = (n + length is, disks')
     \<and> length disks' = length disks
     \<and> (\<forall>i \<in> set is. bk_read_shard ops (disks' ! target i) b k = Inr (sh i, repair_meta L c i (sh i)))
     \<and> (\<forall>j. j \<notin> target ` set is \<longrightarrow> disks' ! j = disks ! j)"
  using assms
proof (induction "is" arbitrary: n disks)
  case (Cons i js)
  from Cons.prems(3) obtain d' where w: "bk_write_shard ops b k (sh i) (repair_meta L c i (sh i)) (disks ! target i) = (Inr (), d')"
    and r: "bk_read_shard ops d' b k = Inr (sh i, repair_meta L c i (sh i))" using write_then_read by force
  let ?ds = "disks[target i := d']"
  have ti: "target i < length disks" using Cons.prems(2) by simp
  have ne: "target j \<noteq> target i" if "j \<in> set js" for j using Cons.prems(1) that by (metis distinct.simps(2) image_eqI list.set_map list.simps(9))
  have "\<forall>j \<in> set js. writable b k (sh j) (repair_meta L c j (sh j)) (?ds ! target j)"
    using Cons.prems(3) ne [THEN not_sym] by (simp add: nth_list_update_neq)
  moreover have "\<forall>j \<in> set js. target j < length ?ds" "distinct (map target js)" using Cons.prems(1,2) by simp_all
  ultimately obtain ds' where ih: "write_repairs L ops b k c target (map (\<lambda>i. (i, Some (sh i))) js) (n + 1) ?ds = (n + 1 + length js, ds')"
    "length ds' = length ?ds" "\<forall>i \<in> set js. bk_read_shard ops (ds' ! target i) b k = Inr (sh i, repair_meta L c i (sh i))"
    "\<forall>j. j \<notin> target ` set js \<longrightarrow> ds' ! j = ?ds ! j" using Cons.IH by blast
  have "target i \<notin> target ` set js" using ne by force
  then have "ds' ! target i = d'" using ih(4) ti by simp
  moreover have "on_disk (target i) (bk_write_shard ops b k (sh i) (repair_meta L c i (sh i))) disks = (Inr (), ?ds)"
    using w ti by (simp add: on_disk_def)
  ultimately show ?case using ih r ti by (intro exI [of _ ds']) (auto simp: nth_list_update)
qed simp

lemma heal_completes:
  fixes disks :: "'d list"
  assumes names: "validate_bucket_name b = Inr ()" "validate_object_key k = Inr ()" and obj: "one_object L ops b k c out disks"
    and vols: "volumes_known ops c disks"
    and layout: "length (em_volume_ids (om_erasure c)) = dn + pn" "em_ftt (om_erasure c) = pn" "0 < pn"
    and S: "S = intact_shards L ops b k (dn + pn) disks" and enough: "dn \<le> card S"
    and code: "l_reed_solomon L dn pn = Some codec" "rs_ok dn pn codec" "same_length (dn + pn) l bufs" "rs_encode codec bufs = Some out"
    and wr: "\<forall>i < dn + pn. i \<notin> S \<longrightarrow> writable b k (out ! i) (repair_meta L c i (out ! i)) (disks ! target_disk ops disks c i)"
  shows "\<exists>disks'. heal_object L ops b k disks = (Inr (if S = {..<dn + pn} then Healthy else Repaired (dn + pn - card S)), disks')
     \<and> length disks' = length disks
     \<and> (\<forall>i < dn + pn. \<exists>m. bk_read_shard ops (disks' ! target_disk ops disks c i) b k = Inr (out ! i, m) \<and> em_index (om_erasure m) = i
          \<and> quorum_eq m c \<and> verify_shard_checksum L (out ! i) (om_checksum m))"
proof -
  let ?tot = "dn + pn" and ?t = "target_disk ops disks c"
  have len: "length out = ?tot" by (rule rs_ok_length [OF code(2-4)])
  note heal = heal_object_eq [OF names obj layout len S enough code]
  note tg = volumes_known_targets [OF vols layout(1)] and bounds = intact_shards_bounds [of L ops b k ?tot disks, folded S]
  have kept: "\<exists>m. bk_read_shard ops (disks ! ?t i) b k = Inr (out ! i, m) \<and> em_index (om_erasure m) = i
      \<and> quorum_eq m c \<and> verify_shard_checksum L (out ! i) (om_checksum m)" if i: "i \<in> S" for i
  proof -
    from i obtain x d where x: "d < length disks" "bk_read_shard ops (disks ! d) b k = Inr x" "intact L ?tot x" "em_index (om_erasure (snd x)) = i"
      unfolding S by (auto simp: intact_shards_def set_readable in_set_conv_nth)
    then have "x \<in> set (readable ops b k disks)" by (auto simp: set_readable)
    then have "quorum_eq (snd x) c \<and> (intact L ?tot x \<longrightarrow> fst x = out ! em_index (om_erasure (snd x)))"
      using obj len by (simp add: one_object_def)
    moreover have "d = ?t (em_index (om_erasure (snd x)))"
      using conjunct2 [OF conjunct2 [OF conjunct2 [OF obj [unfolded one_object_def len]]], rule_format, OF x(1), of x] x(2,3) by simp
    ultimately have "quorum_eq (snd x) c" "fst x = out ! i" "d = ?t i" using x(3,4) by simp_all
    then show ?thesis using x by (cases x) (auto simp: intact_def)
  qed
  show ?thesis
  proof (cases "S = {..<?tot}")
    case True
    then have "heal_object L ops b k disks = (Inr Healthy, disks)" using heal by simp
    then show ?thesis using kept True by auto
  next
    case False
    let ?is = "filter (\<lambda>i. i \<notin> S) [0..<?tot]"
    have "set ?is \<subseteq> {..<?tot}" by auto
    then have di: "distinct (map ?t ?is)" using inj_on_subset [OF tg(2)] by (simp only: distinct_map distinct_filter distinct_upt simp_thms)
    have "length ?is = card (set ?is)" by (simp only: distinct_card distinct_filter distinct_upt)
    also have "set ?is = {..<?tot} - S" by auto
    finally have li: "length ?is = ?tot - card S" using bounds by (simp add: card_Diff_subset)
    obtain ds where w: "write_repairs L ops b k c ?t (map (\<lambda>i. (i, Some (out ! i))) ?is) 0 disks = (0 + length ?is, ds)" "length ds = length disks"
      "\<forall>i \<in> set ?is. bk_read_shard ops (ds ! ?t i) b k = Inr (out ! i, repair_meta L c i (out ! i))"
      "\<forall>j. j \<notin> ?t ` set ?is \<longrightarrow> ds ! j = disks ! j"
      using write_repairs_all [OF di, of disks b k "\<lambda>i. out ! i" L c 0] tg(1) wr by auto
    have "\<exists>m. bk_read_shard ops (ds ! ?t i) b k = Inr (out ! i, m) \<and> em_index (om_erasure m) = i
      \<and> quorum_eq m c \<and> verify_shard_checksum L (out ! i) (om_checksum m)" if i: "i < ?tot" for i
    proof (cases "i \<in> S")
      case True
      have "?t i \<notin> ?t ` set ?is" using inj_on_image_mem_iff [OF tg(2), of i "set ?is"] i True by auto
      then show ?thesis using kept [OF True] w(4) by simp
    next
      case False
      then show ?thesis using w(3) i by (auto simp: repair_meta_def quorum_eq_def verify_shard_checksum_def)
    qed
    then show ?thesis using heal False w(1,2) li by (intro exI [of _ ds]) simp
  qed
qed

end

section \<open>Repair of local volumes\<close>

text \<open>A volume takes a repaired shard: it has no log in front of its files, the names are good, nothing
  in the way of the directory is a file, and the serializers read back the form that is stored.\<close>

definition kept_meta :: "env \<Rightarrow> bytes \<Rightarrow> object_meta \<Rightarrow> object_meta" where
  "kept_meta ev data m = (if unat (om_size m) \<le> DEFAULT_WAL_THRESHOLD then inline_meta ev data m else m)"

definition lv_writable :: "env \<Rightarrow> string \<Rightarrow> string \<Rightarrow> bytes \<Rightarrow> object_meta \<Rightarrow> local_volume \<Rightarrow> bool" where
  "lv_writable ev b k data m v \<longleftrightarrow> lv_wal v = None \<and> validate_bucket_name b = Inr () \<and> validate_object_key k = Inr ()
     \<and> tier_safe k \<and> dirs_clean (lv_root v) (lv_files v)
     \<and> (\<forall>d. object_dir (lv_root v) b k = Inr d \<longrightarrow> (\<forall>p \<in> set (prefixes_of d). \<not> is_file (lv_files v) p))
     \<and> om_version_id m = [] \<and> om_is_latest m \<and> \<not> om_is_delete_marker m \<and> om_inline_data m = None
     \<and> e_json_dec ev (e_json_enc ev (single_version b k (kept_meta ev data m))) = Some (single_version b k (kept_meta ev data m))
     \<and> e_b64_dec ev (e_b64_enc ev data) = Some data"

lemma write_inline_ok:
  assumes d: "object_dir root b k = Inr d" and ts: "tier_safe k" and clean: "dirs_clean root fs"
    and nf: "\<forall>p \<in> set (prefixes_of d). \<not> is_file fs p"
  shows "\<exists>fs'. then_do (create_dir_all d fs) (\<lambda>_ fs. write_meta_file ev (push d ''meta.json'') mf fs) = (Inr (), fs')"
proof -
  obtain fs1 where c: "create_dir_all d fs = (Inr (), fs1)" using nf by (auto simp: create_dir_all_def list_ex_iff)
  note co = create_object_dir [OF d ts clean c]
  show ?thesis using c fs_write_ok [OF co(5)] co(2) object_paths(4) [OF d] by (auto simp: write_meta_file_def)
qed

lemma local_write_shard_read:
  assumes w: "lv_writable ev b k data m v"
  shows "\<exists>v'. write_shard ev now room b k data m v = (Inr (), v') \<and> read_shard ev v' b k = Inr (data, m)"
proof -
  let ?fs = "lv_files v" and ?root = "lv_root v"
  obtain d where d: "object_dir ?root b k = Inr d" using w by (auto simp: lv_writable_def object_dir_eq)
  have hyp: "tier_safe k" "dirs_clean ?root ?fs" "\<forall>p \<in> set (prefixes_of d). \<not> is_file ?fs p"
    using w d by (auto simp: lv_writable_def)
  note paths = object_paths [OF d]
  have m: "m\<lparr> om_inline_data := Some x, om_is_latest := True, om_inline_data := None \<rparr> = m" for x
    using w by (cases m) (simp add: lv_writable_def)
  show ?thesis
  proof (cases "unat (om_size m) \<le> DEFAULT_WAL_THRESHOLD")
    case True
    obtain fs' where f: "then_do (create_dir_all d ?fs) (\<lambda>_ fs. write_meta_file ev (push d ''meta.json'') (single_version b k (inline_meta ev data m)) fs) = (Inr (), fs')"
      using write_inline_ok [OF d hyp] by blast
    note wi = write_inline_cases [OF d hyp(1,2) f]
    have "write_shard ev now room b k data m v = (Inr (), v\<lparr> lv_files := fs' \<rparr>)"
      using w d True f by (simp add: write_shard_def lv_writable_def on_files_def inline_meta_def)
    moreover have "read_file_tier ev strip_inline ?root fs' b k = Inr (data, m)"
      using d wi w True paths(2) m
      by (simp add: read_file_tier_def read_meta_file_def lv_writable_def single_version_def kept_meta_def inline_meta_def strip_inline_def)
    ultimately show ?thesis using w by (simp add: read_shard_def read_shard_from_wal_versioned_def lv_writable_def)
  next
    case False
    obtain fs' where f: "write_object_files ev d data (single_version b k m) ?fs = (Inr (), fs')"
      using write_object_files_ok [OF d hyp] by blast
    note wo = write_object_files_cases [OF d hyp(1,2) f]
    have "write_shard ev now room b k data m v = (Inr (), v\<lparr> lv_files := fs' \<rparr>)"
      using w d False f by (simp add: write_shard_def lv_writable_def on_files_def)
    moreover have "read_file_tier ev strip_inline ?root fs' b k = Inr (data, m)"
      using d wo w False paths(1,2)
      by (simp add: read_file_tier_def read_meta_file_def lv_writable_def single_version_def kept_meta_def)
    ultimately show ?thesis using w by (simp add: read_shard_def read_shard_from_wal_versioned_def lv_writable_def)
  qed
qed

interpretation local_repair: repair_backend "local_ops ev now room mtime sp" "lv_writable ev"
  by unfold_locales (use local_write_shard_read in \<open>simp add: local_ops_def\<close>)


text \<open>Two volumes, the first with a copy of a mirrored object, the second replaced by an empty one.\<close>

definition heal_meta :: "nat \<Rightarrow> object_meta" where
  "heal_meta i = repair_meta demo_libs (demo_meta\<lparr> om_size := 3, om_erasure := \<lparr> em_ftt = 1, em_index = 0, em_epoch_id = 0, em_volume_ids = [''v0'', ''v1''] \<rparr> \<rparr>) i [1, 2, 3]"

definition heal_env :: env where
  "heal_env = demo_env\<lparr> e_json_enc := (\<lambda>mf. [of_nat (em_index (om_erasure (hd (mf_versions mf))))]),
     e_json_dec := (\<lambda>bs. Some (single_version ''bk'' ''k'' (inline_meta demo_env [1, 2, 3] (heal_meta (unat (hd bs)))))) \<rparr>"

definition copy_volume :: local_volume where
  "copy_volume = empty_volume\<lparr> lv_volume_id := ''v0'', lv_files :=
     [([RootDir, NormalComp ''bk''], None), ([RootDir, NormalComp ''bk'', NormalComp ''k''], None),
      ([RootDir, NormalComp ''bk'', NormalComp ''k'', NormalComp ''meta.json''], Some [0])] \<rparr>"

definition new_volume :: local_volume where
  "new_volume = empty_volume\<lparr> lv_volume_id := ''v1'' \<rparr>"

lemma heal_reads:
  "read_shard heal_env copy_volume ''bk'' ''k'' = Inr ([1, 2, 3], heal_meta 0)" "read_shard heal_env new_volume ''bk'' ''k'' = Inl ObjectNotFound"
proof -
  have b64: "e_b64_dec heal_env (e_b64_enc demo_env [1, 2, 3]) = Some [1, 2, 3]" by (simp add: heal_env_def demo_env_def)
  show "read_shard heal_env copy_volume ''bk'' ''k'' = Inr ([1, 2, 3], heal_meta 0)"
    using sample_dir object_paths(2) [OF sample_dir] b64
    by (simp add: read_shard_def read_shard_from_wal_versioned_def read_file_tier_def read_meta_file_def copy_volume_def empty_volume_def
        is_dir_def fs_read_def heal_env_def single_version_def inline_meta_def heal_meta_def repair_meta_def demo_meta_def strip_inline_def)
  show "read_shard heal_env new_volume ''bk'' ''k'' = Inl ObjectNotFound"
    using sample_dir by (simp add: read_shard_def read_shard_from_wal_versioned_def read_file_tier_def new_volume_def empty_volume_def is_dir_def)
qed

lemma heal_sample_writable: "lv_writable heal_env ''bk'' ''k'' [1, 2, 3] (repair_meta demo_libs (heal_meta 0) 1 [1, 2, 3]) new_volume"
proof -
  have t: "unat (3 :: u64) \<le> DEFAULT_WAL_THRESHOLD" by (simp add: DEFAULT_WAL_THRESHOLD_def)
  have "repair_meta demo_libs (heal_meta 0) 1 [1, 2, 3] = heal_meta 1" by (simp add: repair_meta_def heal_meta_def)
  moreover have "inline_meta heal_env [1, 2, 3] m = inline_meta demo_env [1, 2, 3] m" for m by (simp add: inline_meta_def heal_env_def)
  moreover have "em_index (om_erasure (heal_meta 1)) = 1" "om_size (heal_meta 1) = 3" by (simp_all add: heal_meta_def repair_meta_def)
  ultimately show ?thesis using sample_names(1,2) t
    by (simp add: lv_writable_def new_volume_def empty_volume_def tier_safe_def dirs_clean_def is_dir_def is_file_def kept_meta_def)
      (simp add: heal_env_def single_version_def inline_meta_def heal_meta_def repair_meta_def demo_meta_def demo_env_def)
qed


end
