(* ===== verification/Caches.thy ===== *)
theory Caches
  imports Metadata "HOL-Library.AList"
begin

text \<open>
  The two caches in front of the disks: the read cache of \<open>src/storage/read_cache.rs\<close>, bounded by
  bytes with eviction of the least recently used entry, and the write cache of
  \<open>src/storage/write_cache.rs\<close>, which holds encoded objects until they are flushed.  The maps
  below them, \<open>lru::LruCache\<close> and \<open>dashmap::DashMap\<close>, are libraries: records of functions with the
  documented behaviour as hypotheses.  Both caches keep their byte count exact and inside the
  budget, and a read is never answered with an entry that was replaced or invalidated.
\<close>

section \<open>The maps of the libraries\<close>

type_synonym cache_key = "string \<times> string"

record ('v, 'm) lru_ops =
  lr_empty :: 'm
  lr_get :: "cache_key \<Rightarrow> 'm \<Rightarrow> 'v option \<times> 'm"
  lr_put :: "cache_key \<Rightarrow> 'v \<Rightarrow> 'm \<Rightarrow> 'm"
  lr_pop :: "cache_key \<Rightarrow> 'm \<Rightarrow> 'v option \<times> 'm"
  lr_pop_lru :: "'m \<Rightarrow> (cache_key \<times> 'v) option \<times> 'm"
  lr_iter :: "'m \<Rightarrow> (cache_key \<times> 'v) list"

text \<open>Iteration is from the most to the least recently used entry; \<open>get\<close> and \<open>put\<close> make an entry the
  most recently used one.\<close>

definition lru_ok :: "('v, 'm) lru_ops \<Rightarrow> ('m \<Rightarrow> bool) \<Rightarrow> bool" where
  "lru_ok ops good \<longleftrightarrow> good (lr_empty ops) \<and> lr_iter ops (lr_empty ops) = []
     \<and> (\<forall>m. good m \<longrightarrow> distinct (map fst (lr_iter ops m))
       \<and> (\<forall>k. good (snd (lr_get ops k m)) \<and> fst (lr_get ops k m) = map_of (lr_iter ops m) k
           \<and> lr_iter ops (snd (lr_get ops k m)) = filter (\<lambda>e. fst e = k) (lr_iter ops m) @ filter (\<lambda>e. fst e \<noteq> k) (lr_iter ops m))
       \<and> (\<forall>k v. good (lr_put ops k v m) \<and> lr_iter ops (lr_put ops k v m) = (k, v) # filter (\<lambda>e. fst e \<noteq> k) (lr_iter ops m))
       \<and> (\<forall>k. good (snd (lr_pop ops k m)) \<and> fst (lr_pop ops k m) = map_of (lr_iter ops m) k
           \<and> lr_iter ops (snd (lr_pop ops k m)) = filter (\<lambda>e. fst e \<noteq> k) (lr_iter ops m))
       \<and> good (snd (lr_pop_lru ops m))
       \<and> fst (lr_pop_lru ops m) = (if lr_iter ops m = [] then None else Some (last (lr_iter ops m)))
       \<and> lr_iter ops (snd (lr_pop_lru ops m)) = butlast (lr_iter ops m))"

record ('v, 'm) dash_ops =
  dm_empty :: 'm
  dm_get :: "cache_key \<Rightarrow> 'm \<Rightarrow> 'v option"
  dm_insert :: "cache_key \<Rightarrow> 'v \<Rightarrow> 'm \<Rightarrow> 'm"
  dm_remove :: "cache_key \<Rightarrow> 'm \<Rightarrow> (cache_key \<times> 'v) option \<times> 'm"
  dm_iter :: "'m \<Rightarrow> (cache_key \<times> 'v) list"

definition dash_ok :: "('v, 'm) dash_ops \<Rightarrow> ('m \<Rightarrow> bool) \<Rightarrow> bool" where
  "dash_ok ops good \<longleftrightarrow> good (dm_empty ops) \<and> dm_iter ops (dm_empty ops) = []
     \<and> (\<forall>m. good m \<longrightarrow> distinct (map fst (dm_iter ops m))
       \<and> (\<forall>k. dm_get ops k m = map_of (dm_iter ops m) k)
       \<and> (\<forall>k v. good (dm_insert ops k v m) \<and> map_of (dm_iter ops (dm_insert ops k v m)) = (map_of (dm_iter ops m))(k \<mapsto> v))
       \<and> (\<forall>k. good (snd (dm_remove ops k m)) \<and> fst (dm_remove ops k m) = map_option (Pair k) (map_of (dm_iter ops m) k)
           \<and> map_of (dm_iter ops (snd (dm_remove ops k m))) = (map_of (dm_iter ops m))(k := None)))"

section \<open>Read cache\<close>

record read_entry =
  re_data :: bytes
  re_info :: object_info

definition re_mem_size :: "read_entry \<Rightarrow> u64" where
  "re_mem_size e = (let s = re_info e in
     of_nat (length (re_data e) + (length (oi_bucket s) + length (oi_key s) + length (oi_etag s) + length (oi_content_type s)
       + length (oi_version_id s) + 128)))"

record 'm read_cache =
  rc_map :: 'm
  rc_size_bytes :: u64
  rc_max_bytes :: u64
  rc_max_object_bytes :: u64
  rc_hits :: u64
  rc_misses :: u64

definition rc_new :: "(read_entry, 'm) lru_ops \<Rightarrow> u64 \<Rightarrow> u64 \<Rightarrow> 'm read_cache" where
  "rc_new ops max_bytes max_object_bytes = \<lparr> rc_map = lr_empty ops, rc_size_bytes = 0, rc_max_bytes = max_bytes,
     rc_max_object_bytes = max_object_bytes, rc_hits = 0, rc_misses = 0 \<rparr>"

definition rc_record_miss :: "'m read_cache \<Rightarrow> 'm read_cache" where
  "rc_record_miss c = c\<lparr> rc_misses := rc_misses c + 1 \<rparr>"

definition rc_get :: "(read_entry, 'm) lru_ops \<Rightarrow> string \<Rightarrow> string \<Rightarrow> 'm read_cache \<Rightarrow> read_entry option \<times> 'm read_cache" where
  "rc_get ops bucket key c = (case lr_get ops (bucket, key) (rc_map c) of (out, m) \<Rightarrow>
     (out, c\<lparr> rc_map := m, rc_hits := (if out \<noteq> None then rc_hits c + 1 else rc_hits c) \<rparr>))"

definition sat_sub :: "u64 \<Rightarrow> u64 \<Rightarrow> u64" where
  "sat_sub a b = (if a < b then 0 else a - b)"

text \<open>\<open>pop\<close> of a key and the correction of the byte count, which \<open>put\<close> and both invalidations do.\<close>

definition rc_drop :: "(read_entry, 'm) lru_ops \<Rightarrow> cache_key \<Rightarrow> 'm read_cache \<Rightarrow> 'm read_cache" where
  "rc_drop ops k c = (case lr_pop ops k (rc_map c) of (out, m) \<Rightarrow>
     (case out of None \<Rightarrow> c\<lparr> rc_map := m \<rparr> | Some old \<Rightarrow> c\<lparr> rc_map := m, rc_size_bytes := sat_sub (rc_size_bytes c) (re_mem_size old) \<rparr>))"

text \<open>The eviction loop; every round removes an entry, so the number of entries bounds the rounds.\<close>

fun rc_evict :: "(read_entry, 'm) lru_ops \<Rightarrow> nat \<Rightarrow> 'm read_cache \<Rightarrow> 'm read_cache" where
  "rc_evict ops 0 c = c"
| "rc_evict ops (Suc n) c = (if rc_size_bytes c \<le> rc_max_bytes c then c
     else case lr_pop_lru ops (rc_map c) of (out, m) \<Rightarrow>
       (case out of None \<Rightarrow> c\<lparr> rc_map := m \<rparr>
        | Some (_, e) \<Rightarrow> rc_evict ops n (c\<lparr> rc_map := m, rc_size_bytes := sat_sub (rc_size_bytes c) (re_mem_size e) \<rparr>)))"

definition rc_put :: "(read_entry, 'm) lru_ops \<Rightarrow> string \<Rightarrow> string \<Rightarrow> read_entry \<Rightarrow> 'm read_cache \<Rightarrow> 'm read_cache" where
  "rc_put ops bucket key entry c =
     (if of_nat (length (re_data entry)) > rc_max_object_bytes c \<or> rc_max_bytes c = 0 then c
      else let c = rc_drop ops (bucket, key) c;
               c = c\<lparr> rc_map := lr_put ops (bucket, key) entry (rc_map c), rc_size_bytes := rc_size_bytes c + re_mem_size entry \<rparr>
           in rc_evict ops (Suc (length (lr_iter ops (rc_map c)))) c)"

definition rc_invalidate :: "(read_entry, 'm) lru_ops \<Rightarrow> string \<Rightarrow> string \<Rightarrow> 'm read_cache \<Rightarrow> 'm read_cache" where
  "rc_invalidate ops bucket key c = rc_drop ops (bucket, key) c"

definition rc_invalidate_bucket :: "(read_entry, 'm) lru_ops \<Rightarrow> string \<Rightarrow> 'm read_cache \<Rightarrow> 'm read_cache" where
  "rc_invalidate_bucket ops bucket c =
     fold (rc_drop ops) (map fst (filter (\<lambda>(k, _). fst k = bucket) (lr_iter ops (rc_map c)))) c"

definition rc_entry_count :: "(read_entry, 'm) lru_ops \<Rightarrow> 'm read_cache \<Rightarrow> nat" where
  "rc_entry_count ops c = length (lr_iter ops (rc_map c))"

section \<open>Write cache\<close>

text \<open>\<open>we_cached_at_local\<close> is the reading of the local clock.\<close>

record write_entry =
  we_shards :: "bytes list"
  we_metas :: "object_meta list"
  we_distribution :: "nat list"
  we_original_size :: u64
  we_content_type :: string
  we_etag :: string
  we_created_at :: u64
  we_user_metadata :: "string \<rightharpoonup> string"
  we_tags :: "string \<rightharpoonup> string"
  we_cached_at_unix_nanos :: u64
  we_cached_at_local :: nat
  we_primary_node_id :: string

definition we_mem_size :: "write_entry \<Rightarrow> u64" where
  "we_mem_size e = of_nat (sum_list (map length (we_shards e)) + length (we_metas e) * 200 + length (we_etag e)
     + length (we_content_type e) + length (we_primary_node_id e) + 128)"

record 'm write_cache =
  wc_entries :: 'm
  wc_size_bytes :: u64
  wc_max_bytes :: u64
  wc_hits :: u64

definition wc_new :: "(write_entry, 'm) dash_ops \<Rightarrow> u64 \<Rightarrow> 'm write_cache" where
  "wc_new ops max_bytes = \<lparr> wc_entries = dm_empty ops, wc_size_bytes = 0, wc_max_bytes = max_bytes, wc_hits = 0 \<rparr>"

definition wc_record_hit :: "'m write_cache \<Rightarrow> 'm write_cache" where
  "wc_record_hit c = c\<lparr> wc_hits := wc_hits c + 1 \<rparr>"

definition wc_insert :: "(write_entry, 'm) dash_ops \<Rightarrow> string \<Rightarrow> string \<Rightarrow> write_entry \<Rightarrow> 'm write_cache \<Rightarrow> bool \<times> 'm write_cache" where
  "wc_insert ops bucket key entry c =
     (let entry_size = we_mem_size entry; current = wc_size_bytes c in
      if current + entry_size > wc_max_bytes c then (False, c)
      else let reduced = (case dm_get ops (bucket, key) (wc_entries c) of Some old \<Rightarrow> wc_size_bytes c - we_mem_size old | None \<Rightarrow> wc_size_bytes c)
           in (True, c\<lparr> wc_size_bytes := reduced + entry_size, wc_entries := dm_insert ops (bucket, key) entry (wc_entries c) \<rparr>))"

definition wc_get :: "(write_entry, 'm) dash_ops \<Rightarrow> string \<Rightarrow> string \<Rightarrow> 'm write_cache \<Rightarrow> write_entry option \<times> 'm write_cache" where
  "wc_get ops bucket key c = (let got = dm_get ops (bucket, key) (wc_entries c) in
     (got, if got \<noteq> None then c\<lparr> wc_hits := wc_hits c + 1 \<rparr> else c))"

definition wc_remove_key :: "(write_entry, 'm) dash_ops \<Rightarrow> cache_key \<Rightarrow> 'm write_cache \<Rightarrow> write_entry option \<times> 'm write_cache" where
  "wc_remove_key ops k c = (case dm_remove ops k (wc_entries c) of (out, m) \<Rightarrow>
     (case out of None \<Rightarrow> (None, c\<lparr> wc_entries := m \<rparr>)
      | Some (_, v) \<Rightarrow> (Some v, c\<lparr> wc_entries := m, wc_size_bytes := wc_size_bytes c - we_mem_size v \<rparr>)))"

definition wc_remove :: "(write_entry, 'm) dash_ops \<Rightarrow> string \<Rightarrow> string \<Rightarrow> 'm write_cache \<Rightarrow> write_entry option \<times> 'm write_cache" where
  "wc_remove ops bucket key c = wc_remove_key ops (bucket, key) c"

definition wc_contains :: "(write_entry, 'm) dash_ops \<Rightarrow> string \<Rightarrow> string \<Rightarrow> 'm write_cache \<Rightarrow> bool" where
  "wc_contains ops bucket key c = (dm_get ops (bucket, key) (wc_entries c) \<noteq> None)"

definition starts_with :: "string \<Rightarrow> string \<Rightarrow> bool" where
  "starts_with s p = (take (length p) s = p)"

definition wc_list_keys :: "(write_entry, 'm) dash_ops \<Rightarrow> string \<Rightarrow> string \<Rightarrow> 'm write_cache \<Rightarrow> string list" where
  "wc_list_keys ops bucket pre c = map (snd \<circ> fst) (filter (\<lambda>(k, _). fst k = bucket \<and> starts_with (snd k) pre) (dm_iter ops (wc_entries c)))"

fun wc_drain :: "(write_entry, 'm) dash_ops \<Rightarrow> cache_key list \<Rightarrow> (string \<times> string \<times> write_entry) list \<Rightarrow> 'm write_cache
    \<Rightarrow> (string \<times> string \<times> write_entry) list \<times> 'm write_cache" where
  "wc_drain ops [] drained c = (drained, c)"
| "wc_drain ops (k # ks) drained c = (case wc_remove_key ops k c of (out, c) \<Rightarrow>
     wc_drain ops ks (case out of None \<Rightarrow> drained | Some e \<Rightarrow> drained @ [(fst k, snd k, e)]) c)"

definition wc_drain_primary_older_than ::
  "(write_entry, 'm) dash_ops \<Rightarrow> nat \<Rightarrow> string \<Rightarrow> nat \<Rightarrow> 'm write_cache \<Rightarrow> (string \<times> string \<times> write_entry) list \<times> 'm write_cache" where
  "wc_drain_primary_older_than ops now local_node_id age c =
     wc_drain ops (map fst (filter (\<lambda>(_, e). now - we_cached_at_local e \<ge> age
        \<and> (we_primary_node_id e = [] \<or> we_primary_node_id e = local_node_id)) (dm_iter ops (wc_entries c)))) [] c"

definition wc_drain_older_than ::
  "(write_entry, 'm) dash_ops \<Rightarrow> nat \<Rightarrow> nat \<Rightarrow> 'm write_cache \<Rightarrow> (string \<times> string \<times> write_entry) list \<times> 'm write_cache" where
  "wc_drain_older_than ops now age c = wc_drain_primary_older_than ops now [] age c"

definition wc_drain_by_primary ::
  "(write_entry, 'm) dash_ops \<Rightarrow> string \<Rightarrow> 'm write_cache \<Rightarrow> (string \<times> string \<times> write_entry) list \<times> 'm write_cache" where
  "wc_drain_by_primary ops primary_node_id c =
     wc_drain ops (map fst (filter (\<lambda>(_, e). we_primary_node_id e = primary_node_id) (dm_iter ops (wc_entries c)))) [] c"

definition wc_entry_count :: "(write_entry, 'm) dash_ops \<Rightarrow> 'm write_cache \<Rightarrow> nat" where
  "wc_entry_count ops c = length (dm_iter ops (wc_entries c))"

definition wc_has_space :: "u64 \<Rightarrow> 'm write_cache \<Rightarrow> bool" where
  "wc_has_space entry_size c \<longleftrightarrow> wc_size_bytes c + entry_size \<le> wc_max_bytes c"

section \<open>The read cache stays inside its budget\<close>

definition total_of :: "('v \<Rightarrow> u64) \<Rightarrow> (cache_key \<times> 'v) list \<Rightarrow> nat" where
  "total_of f es = sum_list (map (\<lambda>(_, e). unat (f e)) es)"

lemma total_of_simps [simp]: "total_of f [] = 0" "total_of f ((k, e) # es) = unat (f e) + total_of f es"
  "total_of f (xs @ ys) = total_of f xs + total_of f ys"
  by (simp_all add: total_of_def)

lemma total_of_filter:
  assumes "distinct (map fst es)"
  shows "total_of f es = (case map_of es k of None \<Rightarrow> 0 | Some e \<Rightarrow> unat (f e)) + total_of f (filter (\<lambda>e. fst e \<noteq> k) es)"
  using assms
proof (induction es)
  case (Cons x es)
  obtain k' e where x: "x = (k', e)" by fastforce
  show ?case
  proof (cases "k' = k")
    case True
    then have "k \<notin> fst ` set es" using Cons.prems x by simp
    then have "filter (\<lambda>e. fst e \<noteq> k) es = es" by (auto simp: filter_id_conv)
    then show ?thesis using True x by simp
  next
    case False
    then show ?thesis using Cons x by (auto split: option.splits)
  qed
qed simp

lemma lru_okD:
  assumes "lru_ok ops good" and "good m"
  shows "distinct (map fst (lr_iter ops m))"
    and "good (snd (lr_get ops k m))" "fst (lr_get ops k m) = map_of (lr_iter ops m) k"
      "lr_iter ops (snd (lr_get ops k m)) = filter (\<lambda>e. fst e = k) (lr_iter ops m) @ filter (\<lambda>e. fst e \<noteq> k) (lr_iter ops m)"
    and "good (lr_put ops k v m)" "lr_iter ops (lr_put ops k v m) = (k, v) # filter (\<lambda>e. fst e \<noteq> k) (lr_iter ops m)"
    and "good (snd (lr_pop ops k m))" "fst (lr_pop ops k m) = map_of (lr_iter ops m) k"
      "lr_iter ops (snd (lr_pop ops k m)) = filter (\<lambda>e. fst e \<noteq> k) (lr_iter ops m)"
    and "good (snd (lr_pop_lru ops m))" "fst (lr_pop_lru ops m) = (if lr_iter ops m = [] then None else Some (last (lr_iter ops m)))"
      "lr_iter ops (snd (lr_pop_lru ops m)) = butlast (lr_iter ops m)"
  using assms unfolding lru_ok_def by blast+

lemma dash_okD:
  assumes "dash_ok ops good" and "good m"
  shows "distinct (map fst (dm_iter ops m))" and "dm_get ops k m = map_of (dm_iter ops m) k"
    and "good (dm_insert ops k v m)" "map_of (dm_iter ops (dm_insert ops k v m)) = (map_of (dm_iter ops m))(k \<mapsto> v)"
    and "good (snd (dm_remove ops k m))" "fst (dm_remove ops k m) = map_option (Pair k) (map_of (dm_iter ops m) k)"
      "map_of (dm_iter ops (snd (dm_remove ops k m))) = (map_of (dm_iter ops m))(k := None)"
  using assms unfolding dash_ok_def by blast+

definition rc_inv :: "(read_entry, 'm) lru_ops \<Rightarrow> ('m \<Rightarrow> bool) \<Rightarrow> 'm read_cache \<Rightarrow> bool" where
  "rc_inv ops good c \<longleftrightarrow> good (rc_map c) \<and> unat (rc_size_bytes c) = total_of re_mem_size (lr_iter ops (rc_map c))"

lemma unat_sat_sub: "unat (sat_sub a b) = unat a - unat b"
  by (simp add: sat_sub_def word_less_nat_alt unat_sub_if')

lemma rc_drop_inv:
  assumes ok: "lru_ok ops good" and c: "rc_inv ops good c"
  shows "rc_inv ops good (rc_drop ops k c)" and "lr_iter ops (rc_map (rc_drop ops k c)) = filter (\<lambda>e. fst e \<noteq> k) (lr_iter ops (rc_map c))"
    and "rc_max_bytes (rc_drop ops k c) = rc_max_bytes c" and "rc_max_object_bytes (rc_drop ops k c) = rc_max_object_bytes c"
proof -
  have i: "good (rc_map c)" using c by (simp add: rc_inv_def)
  have l: "distinct (map fst (lr_iter ops (rc_map c)))" "good (snd (lr_pop ops k (rc_map c)))"
    "fst (lr_pop ops k (rc_map c)) = map_of (lr_iter ops (rc_map c)) k"
    "lr_iter ops (snd (lr_pop ops k (rc_map c))) = filter (\<lambda>e. fst e \<noteq> k) (lr_iter ops (rc_map c))"
    using lru_okD [OF ok i] by simp_all
  show "rc_inv ops good (rc_drop ops k c)" "lr_iter ops (rc_map (rc_drop ops k c)) = filter (\<lambda>e. fst e \<noteq> k) (lr_iter ops (rc_map c))"
    "rc_max_bytes (rc_drop ops k c) = rc_max_bytes c" "rc_max_object_bytes (rc_drop ops k c) = rc_max_object_bytes c"
    using l c total_of_filter [OF l(1), of re_mem_size k]
    by (cases "lr_pop ops k (rc_map c)"; simp add: rc_drop_def rc_inv_def unat_sat_sub split: option.splits)+
qed

lemma rc_evict_inv:
  assumes ok: "lru_ok ops good" and c: "rc_inv ops good c" and n: "length (lr_iter ops (rc_map c)) < n"
  shows "rc_inv ops good (rc_evict ops n c) \<and> rc_size_bytes (rc_evict ops n c) \<le> rc_max_bytes c
    \<and> rc_max_bytes (rc_evict ops n c) = rc_max_bytes c \<and> rc_max_object_bytes (rc_evict ops n c) = rc_max_object_bytes c
    \<and> (\<exists>es. lr_iter ops (rc_map c) = lr_iter ops (rc_map (rc_evict ops n c)) @ es)"
  using c n
proof (induction n arbitrary: c)
  case (Suc n)
  let ?es = "lr_iter ops (rc_map c)"
  have l: "good (snd (lr_pop_lru ops (rc_map c)))" "fst (lr_pop_lru ops (rc_map c)) = (if ?es = [] then None else Some (last ?es))"
    "lr_iter ops (snd (lr_pop_lru ops (rc_map c))) = butlast ?es"
    using lru_okD [OF ok] Suc.prems(1) by (simp_all add: rc_inv_def)
  show ?case
  proof (cases "rc_size_bytes c \<le> rc_max_bytes c")
    case True
    then show ?thesis using Suc.prems by simp
  next
    case False
    then have "0 < unat (rc_size_bytes c)" by (metis gr_zeroI le_zero_eq nle_le unat_eq_zero word_zero_le)
    then have ne: "?es \<noteq> []" using Suc.prems(1) by (auto simp: rc_inv_def)
    obtain k e where ke: "last ?es = (k, e)" by fastforce
    obtain m where m: "lr_pop_lru ops (rc_map c) = (Some (k, e), m)" using l(2) ne ke by (cases "lr_pop_lru ops (rc_map c)") simp
    let ?c = "c\<lparr> rc_map := m, rc_size_bytes := sat_sub (rc_size_bytes c) (re_mem_size e) \<rparr>"
    have split: "?es = butlast ?es @ [(k, e)]" using ne ke by (metis append_butlast_last_id)
    then have "total_of re_mem_size ?es = total_of re_mem_size (butlast ?es) + unat (re_mem_size e)"
      by (metis add.right_neutral total_of_simps)
    then have "rc_inv ops good ?c" using Suc.prems(1) l m by (simp add: rc_inv_def unat_sat_sub)
    moreover have "length (lr_iter ops (rc_map ?c)) < n" using l(3) m Suc.prems(2) ne by (cases ?es) simp_all
    ultimately have ih: "rc_inv ops good (rc_evict ops n ?c) \<and> rc_size_bytes (rc_evict ops n ?c) \<le> rc_max_bytes c
      \<and> rc_max_bytes (rc_evict ops n ?c) = rc_max_bytes c \<and> rc_max_object_bytes (rc_evict ops n ?c) = rc_max_object_bytes c
      \<and> (\<exists>es. butlast ?es = lr_iter ops (rc_map (rc_evict ops n ?c)) @ es)"
      using Suc.IH [of ?c] l(3) m by simp
    moreover have "rc_evict ops (Suc n) c = rc_evict ops n ?c" using False m by simp
    ultimately show ?thesis using split by (metis append.assoc)
  qed
qed simp

lemma rc_put_inv:
  assumes ok: "lru_ok ops good" and c: "rc_inv ops good c" "rc_size_bytes c \<le> rc_max_bytes c"
    and fits: "unat (rc_max_bytes c) + unat (re_mem_size e) < 2 ^ 64"
    and acc: "\<not> (of_nat (length (re_data e)) > rc_max_object_bytes c \<or> rc_max_bytes c = 0)"
  shows "rc_inv ops good (rc_put ops b k e c) \<and> rc_size_bytes (rc_put ops b k e c) \<le> rc_max_bytes c
    \<and> rc_max_bytes (rc_put ops b k e c) = rc_max_bytes c \<and> rc_max_object_bytes (rc_put ops b k e c) = rc_max_object_bytes c"
    and "\<And>x. x \<in> set (lr_iter ops (rc_map (rc_put ops b k e c))) \<Longrightarrow>
      x = ((b, k), e) \<or> x \<in> set (lr_iter ops (rc_map c)) \<and> fst x \<noteq> (b, k)"
proof -
  let ?d = "rc_drop ops (b, k) c"
  note d = rc_drop_inv [OF ok c(1), of "(b, k)"]
  let ?p = "?d\<lparr> rc_map := lr_put ops (b, k) e (rc_map ?d), rc_size_bytes := rc_size_bytes ?d + re_mem_size e \<rparr>"
  let ?n = "Suc (length (lr_iter ops (rc_map ?p)))"
  have l: "good (lr_put ops (b, k) e (rc_map ?d))" "lr_iter ops (lr_put ops (b, k) e (rc_map ?d)) = ((b, k), e) # filter (\<lambda>x. fst x \<noteq> (b, k)) (lr_iter ops (rc_map ?d))"
    using lru_okD(5,6) [OF ok] d(1) by (simp_all add: rc_inv_def)
  have f: "filter (\<lambda>x. fst x \<noteq> (b, k)) (lr_iter ops (rc_map ?d)) = lr_iter ops (rc_map ?d)" using d(2) by simp
  have "unat (rc_size_bytes ?d) \<le> unat (rc_size_bytes c)"
    by (simp add: rc_drop_def unat_sat_sub split: prod.splits option.splits)
  then have small: "unat (rc_size_bytes ?d) + unat (re_mem_size e) < 2 ^ 64" using c(2) fits by (simp add: word_le_nat_alt)
  then have "unat (rc_size_bytes ?d + re_mem_size e) = unat (rc_size_bytes ?d) + unat (re_mem_size e)"
    by (simp add: unat_add_lem [symmetric])
  then have "rc_inv ops good ?p" using d(1) l f by (simp add: rc_inv_def)
  note ev = rc_evict_inv [OF ok this, of ?n]
  have p: "rc_put ops b k e c = rc_evict ops ?n ?p" unfolding rc_put_def Let_def if_not_P [OF acc] by simp
  then show "rc_inv ops good (rc_put ops b k e c) \<and> rc_size_bytes (rc_put ops b k e c) \<le> rc_max_bytes c
    \<and> rc_max_bytes (rc_put ops b k e c) = rc_max_bytes c \<and> rc_max_object_bytes (rc_put ops b k e c) = rc_max_object_bytes c"
    using ev d(3,4) by (simp del: rc_evict.simps)
  obtain es where es: "lr_iter ops (rc_map ?p) = lr_iter ops (rc_map (rc_put ops b k e c)) @ es" using ev p by (auto simp del: rc_evict.simps)
  fix x assume "x \<in> set (lr_iter ops (rc_map (rc_put ops b k e c)))"
  then have "x \<in> set (lr_iter ops (rc_map ?p))" unfolding es by simp
  then show "x = ((b, k), e) \<or> x \<in> set (lr_iter ops (rc_map c)) \<and> fst x \<noteq> (b, k)" using l(2) f d(2) by auto
qed

text \<open>Sequences of operations, and the entry a key has when nothing is evicted: the last one that was
  accepted and not invalidated since.\<close>

datatype rc_event = RPut string string read_entry | RGet string string | RInvalidate string string | RInvalidateBucket string | RMiss

definition rc_step :: "(read_entry, 'm) lru_ops \<Rightarrow> rc_event \<Rightarrow> 'm read_cache \<Rightarrow> 'm read_cache" where
  "rc_step ops ev c = (case ev of RPut b k e \<Rightarrow> rc_put ops b k e c | RGet b k \<Rightarrow> snd (rc_get ops b k c)
     | RInvalidate b k \<Rightarrow> rc_invalidate ops b k c | RInvalidateBucket b \<Rightarrow> rc_invalidate_bucket ops b c | RMiss \<Rightarrow> rc_record_miss c)"

definition rc_latest :: "u64 \<Rightarrow> u64 \<Rightarrow> rc_event \<Rightarrow> (cache_key \<rightharpoonup> read_entry) \<Rightarrow> (cache_key \<rightharpoonup> read_entry)" where
  "rc_latest mb mo ev M = (case ev of
       RPut b k e \<Rightarrow> (if of_nat (length (re_data e)) > mo \<or> mb = 0 then M else M((b, k) \<mapsto> e))
     | RInvalidate b k \<Rightarrow> M((b, k) := None)
     | RInvalidateBucket b \<Rightarrow> (\<lambda>k. if fst k = b then None else M k)
     | _ \<Rightarrow> M)"

definition rc_agrees :: "(read_entry, 'm) lru_ops \<Rightarrow> ('m \<Rightarrow> bool) \<Rightarrow> u64 \<Rightarrow> u64 \<Rightarrow> (cache_key \<rightharpoonup> read_entry) \<Rightarrow> 'm read_cache \<Rightarrow> bool" where
  "rc_agrees ops good mb mo M c \<longleftrightarrow> rc_inv ops good c \<and> rc_size_bytes c \<le> mb \<and> rc_max_bytes c = mb \<and> rc_max_object_bytes c = mo
     \<and> (\<forall>x \<in> set (lr_iter ops (rc_map c)). M (fst x) = Some (snd x))"

lemma rc_drop_less: "rc_size_bytes (rc_drop ops k c) \<le> rc_size_bytes c"
  by (simp add: rc_drop_def word_le_nat_alt unat_sat_sub split: prod.splits option.splits)

lemma rc_drops:
  assumes ok: "lru_ok ops good" and c: "rc_inv ops good c"
  shows "rc_inv ops good (fold (rc_drop ops) ks c)"
    and "lr_iter ops (rc_map (fold (rc_drop ops) ks c)) = filter (\<lambda>e. fst e \<notin> set ks) (lr_iter ops (rc_map c))"
    and "rc_max_bytes (fold (rc_drop ops) ks c) = rc_max_bytes c" and "rc_max_object_bytes (fold (rc_drop ops) ks c) = rc_max_object_bytes c"
    and "rc_size_bytes (fold (rc_drop ops) ks c) \<le> rc_size_bytes c"
proof -
  have "rc_inv ops good (fold (rc_drop ops) ks c)
    \<and> lr_iter ops (rc_map (fold (rc_drop ops) ks c)) = filter (\<lambda>e. fst e \<notin> set ks) (lr_iter ops (rc_map c))
    \<and> rc_max_bytes (fold (rc_drop ops) ks c) = rc_max_bytes c \<and> rc_max_object_bytes (fold (rc_drop ops) ks c) = rc_max_object_bytes c
    \<and> rc_size_bytes (fold (rc_drop ops) ks c) \<le> rc_size_bytes c"
    using c
  proof (induction ks arbitrary: c)
    case (Cons k ks)
    note d = rc_drop_inv [OF ok Cons.prems, of k]
    have "filter (\<lambda>e. fst e \<notin> set ks) (filter (\<lambda>e. fst e \<noteq> k) xs) = filter (\<lambda>e. fst e \<notin> set (k # ks)) xs" for xs :: "(cache_key \<times> read_entry) list"
      by (auto simp: filter_filter intro: filter_cong)
    then show ?case using Cons.IH [OF d(1)] d(2-4) order_trans [OF _ rc_drop_less [of ops k c]] by simp
  qed simp
  then show "rc_inv ops good (fold (rc_drop ops) ks c)"
    "lr_iter ops (rc_map (fold (rc_drop ops) ks c)) = filter (\<lambda>e. fst e \<notin> set ks) (lr_iter ops (rc_map c))"
    "rc_max_bytes (fold (rc_drop ops) ks c) = rc_max_bytes c" "rc_max_object_bytes (fold (rc_drop ops) ks c) = rc_max_object_bytes c"
    "rc_size_bytes (fold (rc_drop ops) ks c) \<le> rc_size_bytes c" by blast+
qed

lemma rc_step_agrees:
  assumes ok: "lru_ok ops good" and c: "rc_agrees ops good mb mo M c"
    and fits: "\<And>b k e. ev = RPut b k e \<Longrightarrow> unat mb + unat (re_mem_size e) < 2 ^ 64"
  shows "rc_agrees ops good mb mo (rc_latest mb mo ev M) (rc_step ops ev c)"
proof -
  have i: "rc_inv ops good c" "good (rc_map c)" "rc_size_bytes c \<le> rc_max_bytes c" "rc_max_bytes c = mb" "rc_max_object_bytes c = mo"
    and M: "\<forall>x \<in> set (lr_iter ops (rc_map c)). M (fst x) = Some (snd x)" using c by (simp_all add: rc_agrees_def rc_inv_def)
  note L = lru_okD [OF ok i(2)]
  show ?thesis
  proof (cases ev)
    case (RPut b k e)
    have f: "unat (rc_max_bytes c) + unat (re_mem_size e) < 2 ^ 64" using fits [OF RPut] i(4) by simp
    show ?thesis
    proof (cases "of_nat (length (re_data e)) > mo \<or> mb = 0")
      case True
      then show ?thesis using RPut c i(4,5) by (simp add: rc_step_def rc_latest_def rc_put_def)
    next
      case False
      then have acc: "\<not> (of_nat (length (re_data e)) > rc_max_object_bytes c \<or> rc_max_bytes c = 0)" using i(4,5) by simp
      have "(M((b, k) \<mapsto> e)) (fst x) = Some (snd x)" if "x \<in> set (lr_iter ops (rc_map (rc_put ops b k e c)))" for x
        using rc_put_inv(2) [OF ok i(1,3) f acc that] M by auto
      then show ?thesis using rc_put_inv(1) [OF ok i(1,3) f acc, of b k] RPut False i(4,5)
        by (simp add: rc_agrees_def rc_step_def rc_latest_def)
    qed
  next
    case (RGet b k)
    have "total_of re_mem_size (filter (\<lambda>e. fst e = (b, k)) es @ filter (\<lambda>e. fst e \<noteq> (b, k)) es) = total_of re_mem_size es" for es
      by (induction es) auto
    then show ?thesis using c L(2-4) [of "(b, k)"] RGet
      by (cases "lr_get ops (b, k) (rc_map c)") (auto simp: rc_agrees_def rc_step_def rc_latest_def rc_get_def rc_inv_def)
  next
    case (RInvalidate b k)
    then show ?thesis using c rc_drop_inv [OF ok i(1), of "(b, k)"] rc_drop_less [of ops "(b, k)" c]
      by (auto simp: rc_agrees_def rc_step_def rc_latest_def rc_invalidate_def)
  next
    case (RInvalidateBucket b)
    let ?ks = "map fst (filter (\<lambda>(k, _). fst k = b) (lr_iter ops (rc_map c)))"
    note d = rc_drops [OF ok i(1), of ?ks]
    have "fst (fst x) \<noteq> b" if "x \<in> set (lr_iter ops (rc_map c))" "fst x \<notin> set ?ks" for x using that by force
    then have "\<forall>x \<in> set (lr_iter ops (rc_map (fold (rc_drop ops) ?ks c))). (if fst (fst x) = b then None else M (fst x)) = Some (snd x)"
      using M unfolding d(2) by simp
    moreover have "rc_size_bytes (fold (rc_drop ops) ?ks c) \<le> mb" using d(5) i(3,4) by simp
    ultimately show ?thesis using d(1,3,4) i(4,5) RInvalidateBucket
      by (simp add: rc_agrees_def rc_step_def rc_latest_def rc_invalidate_bucket_def)
  next
    case RMiss
    then show ?thesis using c by (simp add: rc_agrees_def rc_step_def rc_latest_def rc_record_miss_def rc_inv_def)
  qed
qed

text \<open>C10: after any sequence of operations on a new read cache, the byte count is the sum of the sizes of
  the entries, it is inside the budget, and a lookup returns nothing or the entry that was last
  accepted for the key and not invalidated since.  An entry larger than the limit for objects is not
  accepted and leaves an earlier entry of the key in place.\<close>

theorem read_cache_never_stale:
  assumes ok: "lru_ok ops good" and fits: "\<forall>b k e. RPut b k e \<in> set evs \<longrightarrow> unat mb + unat (re_mem_size e) < 2 ^ 64"
    and c: "c = fold (rc_step ops) evs (rc_new ops mb mo)"
  shows "unat (rc_size_bytes c) = total_of re_mem_size (lr_iter ops (rc_map c)) \<and> rc_size_bytes c \<le> mb
     \<and> (fst (rc_get ops b k c) = None \<or> fst (rc_get ops b k c) = fold (rc_latest mb mo) evs Map.empty (b, k))"
proof -
  have "rc_agrees ops good mb mo (fold (rc_latest mb mo) evs M) (fold (rc_step ops) evs c0)"
    if "rc_agrees ops good mb mo M c0" "\<forall>b k e. RPut b k e \<in> set evs \<longrightarrow> unat mb + unat (re_mem_size e) < 2 ^ 64" for M c0
    using that
  proof (induction evs arbitrary: M c0)
    case (Cons ev evs)
    have "rc_agrees ops good mb mo (rc_latest mb mo ev M) (rc_step ops ev c0)"
      by (rule rc_step_agrees [OF ok Cons.prems(1)]) (use Cons.prems(2) in auto)
    then show ?case using Cons.IH Cons.prems(2) by simp
  qed simp
  moreover have "rc_agrees ops good mb mo Map.empty (rc_new ops mb mo)"
    using ok by (simp add: rc_agrees_def rc_new_def rc_inv_def lru_ok_def)
  ultimately have ag: "rc_agrees ops good mb mo (fold (rc_latest mb mo) evs Map.empty) c" using c fits by blast
  then have "good (rc_map c)" by (simp add: rc_agrees_def rc_inv_def)
  then have "fst (rc_get ops b k c) = map_of (lr_iter ops (rc_map c)) (b, k)"
    using lru_okD(3) [OF ok] by (simp add: rc_get_def split: prod.splits) (metis fst_conv)
  moreover have "fold (rc_latest mb mo) evs Map.empty (b, k) = Some e" if "map_of (lr_iter ops (rc_map c)) (b, k) = Some e" for e
    using map_of_SomeD [OF that] ag unfolding rc_agrees_def by (metis fst_conv snd_conv)
  ultimately show ?thesis using ag by (cases "map_of (lr_iter ops (rc_map c)) (b, k)") (simp_all add: rc_agrees_def rc_inv_def)
qed

text \<open>Both libraries as lists.\<close>

definition list_lru :: "('v, (cache_key \<times> 'v) list) lru_ops" where
  "list_lru = \<lparr> lr_empty = [], lr_get = (\<lambda>k m. (map_of m k, filter (\<lambda>e. fst e = k) m @ filter (\<lambda>e. fst e \<noteq> k) m)),
     lr_put = (\<lambda>k v m. (k, v) # filter (\<lambda>e. fst e \<noteq> k) m), lr_pop = (\<lambda>k m. (map_of m k, filter (\<lambda>e. fst e \<noteq> k) m)),
     lr_pop_lru = (\<lambda>m. (if m = [] then None else Some (last m), butlast m)), lr_iter = (\<lambda>m. m) \<rparr>"

definition list_dash :: "('v, (cache_key \<times> 'v) list) dash_ops" where
  "list_dash = \<lparr> dm_empty = [], dm_get = (\<lambda>k m. map_of m k), dm_insert = AList.update,
     dm_remove = (\<lambda>k m. (map_option (Pair k) (map_of m k), AList.delete k m)), dm_iter = (\<lambda>m. m) \<rparr>"

definition list_good :: "(cache_key \<times> 'v) list \<Rightarrow> bool" where
  "list_good m = distinct (map fst m)"

lemma distinct_keys_filter: "distinct (map fst m) \<Longrightarrow> distinct (map fst (filter P m))"
  by (induction m) auto

lemma list_lru_ok: "lru_ok list_lru (list_good :: (cache_key \<times> 'v) list \<Rightarrow> bool)"
proof -
  have "distinct (map fst (filter (\<lambda>e. fst e = k) m @ filter (\<lambda>e. fst e \<noteq> k) m))" if "distinct (map fst m)" for k and m :: "(cache_key \<times> 'v) list"
    using distinct_keys_filter [OF that] by auto
  moreover have "distinct (map fst (butlast m))" if "distinct (map fst m)" for m :: "(cache_key \<times> 'v) list"
    using that by (simp add: map_butlast distinct_butlast)
  ultimately show ?thesis using distinct_keys_filter by (auto simp: lru_ok_def list_lru_def list_good_def)
qed

lemma list_dash_ok: "dash_ok list_dash (list_good :: (cache_key \<times> 'v) list \<Rightarrow> bool)"
  by (simp add: dash_ok_def list_dash_def list_good_def distinct_update distinct_delete update_conv' delete_conv')

definition demo_read_entry :: "bytes \<Rightarrow> read_entry" where
  "demo_read_entry data = \<lparr> re_data = data, re_info = \<lparr> oi_bucket = ''b'', oi_key = ''k'', oi_size = of_nat (length data), oi_etag = [],
     oi_content_type = [], oi_created_at = 0, oi_user_metadata = Map.empty, oi_tags = Map.empty, oi_version_id = [], oi_is_delete_marker = False \<rparr> \<rparr>"

theorem read_cache_never_stale_witness:
  "\<exists>c :: (cache_key \<times> read_entry) list read_cache.
     c = fold (rc_step list_lru) [RPut ''b'' ''k'' (demo_read_entry [1]), RPut ''b'' ''k'' (demo_read_entry [2]), RPut ''c'' ''k'' (demo_read_entry [3])]
           (rc_new list_lru 300 10)
     \<and> rc_size_bytes c \<le> 300 \<and> fst (rc_get list_lru ''b'' ''k'' c) = Some (demo_read_entry [2])"
proof -
  let ?evs = "[RPut ''b'' ''k'' (demo_read_entry [1]), RPut ''b'' ''k'' (demo_read_entry [2]), RPut ''c'' ''k'' (demo_read_entry [3])]"
  let ?c = "fold (rc_step list_lru) ?evs (rc_new list_lru 300 10)"
  have "\<forall>b k e. RPut b k e \<in> set ?evs \<longrightarrow> unat (300 :: u64) + unat (re_mem_size e) < 2 ^ 64"
    by (auto simp: re_mem_size_def demo_read_entry_def)
  note t = read_cache_never_stale [OF list_lru_ok this refl, of 10 "''b''" "''k''"]
  have "fold (rc_latest 300 10) ?evs Map.empty (''b'', ''k'') = Some (demo_read_entry [2])"
    by (simp add: rc_latest_def demo_read_entry_def)
  moreover have "fst (rc_get list_lru ''b'' ''k'' ?c) \<noteq> None"
    by (simp add: rc_step_def rc_put_def rc_new_def list_lru_def rc_drop_def rc_get_def demo_read_entry_def re_mem_size_def Let_def sat_sub_def)
  ultimately have "fst (rc_get list_lru ''b'' ''k'' ?c) = Some (demo_read_entry [2])" using t by presburger
  then show ?thesis using t by blast
qed

section \<open>The write cache keeps what it accepted\<close>

definition wc_inv :: "(write_entry, 'm) dash_ops \<Rightarrow> ('m \<Rightarrow> bool) \<Rightarrow> 'm write_cache \<Rightarrow> bool" where
  "wc_inv ops good c \<longleftrightarrow> good (wc_entries c) \<and> unat (wc_size_bytes c) = total_of we_mem_size (dm_iter ops (wc_entries c))"

definition wc_contents :: "(write_entry, 'm) dash_ops \<Rightarrow> 'm write_cache \<Rightarrow> cache_key \<rightharpoonup> write_entry" where
  "wc_contents ops c = map_of (dm_iter ops (wc_entries c))"

text \<open>The total depends on the contents only.\<close>

lemma total_of_sum:
  assumes "distinct (map fst es)"
  shows "total_of f es = (\<Sum>k \<in> dom (map_of es). unat (f (the (map_of es k))))"
  using assms
proof (induction es)
  case (Cons x es)
  obtain k e where x: "x = (k, e)" by fastforce
  have k: "k \<notin> dom (map_of es)" "finite (dom (map_of es))" using Cons.prems x by (auto simp: dom_map_of_conv_image_fst finite_dom_map_of)
  have "(\<Sum>k' \<in> dom (map_of es). unat (f (the (((map_of es)(k \<mapsto> e)) k')))) = (\<Sum>k' \<in> dom (map_of es). unat (f (the (map_of es k'))))"
    by (rule sum.cong) (use k(1) in auto)
  moreover have "map_of (x # es) = (map_of es)(k \<mapsto> e)" using x by auto
  moreover have "dom ((map_of es)(k \<mapsto> e)) = insert k (dom (map_of es))" by simp
  ultimately show ?case using Cons x k by (simp only: total_of_simps sum.insert fun_upd_same option.sel) simp
qed simp

lemma total_of_update:
  assumes "distinct (map fst es)" and "distinct (map fst es')" and "map_of es' = (map_of es)(k \<mapsto> v)"
  shows "total_of f es' + (case map_of es k of None \<Rightarrow> 0 | Some e \<Rightarrow> unat (f e)) = total_of f es + unat (f v)"
proof -
  let ?D = "dom (map_of es)"
  have fin: "finite ?D" by (rule finite_dom_map_of)
  have "total_of f es' = (\<Sum>k' \<in> insert k ?D. unat (f (the (((map_of es)(k \<mapsto> v)) k'))))"
    using total_of_sum [OF assms(2)] assms(3) by simp
  also have "\<dots> = unat (f v) + (\<Sum>k' \<in> ?D - {k}. unat (f (the (((map_of es)(k \<mapsto> v)) k'))))"
    using fin by (simp add: sum.insert_remove)
  also have "(\<Sum>k' \<in> ?D - {k}. unat (f (the (((map_of es)(k \<mapsto> v)) k')))) = (\<Sum>k' \<in> ?D - {k}. unat (f (the (map_of es k'))))"
    by (rule sum.cong) auto
  finally show ?thesis using total_of_sum [OF assms(1), of f] sum.remove [OF fin, of k "\<lambda>k'. unat (f (the (map_of es k')))"]
    by (cases "map_of es k") (auto simp: domIff)
qed

lemma total_of_remove:
  assumes "distinct (map fst es)" and "distinct (map fst es')" and "map_of es' = (map_of es)(k := None)"
  shows "total_of f es' + (case map_of es k of None \<Rightarrow> 0 | Some e \<Rightarrow> unat (f e)) = total_of f es"
proof -
  let ?D = "dom (map_of es)"
  have fin: "finite ?D" by (rule finite_dom_map_of)
  have "total_of f es' = (\<Sum>k' \<in> ?D - {k}. unat (f (the (((map_of es)(k := None)) k'))))"
    using total_of_sum [OF assms(2)] assms(3) by simp
  also have "\<dots> = (\<Sum>k' \<in> ?D - {k}. unat (f (the (map_of es k'))))" by (rule sum.cong) auto
  finally show ?thesis using total_of_sum [OF assms(1), of f] sum.remove [OF fin, of k "\<lambda>k'. unat (f (the (map_of es k')))"]
    by (cases "map_of es k") (auto simp: domIff)
qed

lemma wc_contents_total:
  assumes ok: "dash_ok ops good" and c: "wc_inv ops good c" and e: "wc_contents ops c k = Some e"
  shows "unat (we_mem_size e) \<le> unat (wc_size_bytes c)"
proof -
  have "distinct (map fst (dm_iter ops (wc_entries c)))" using dash_okD(1) [OF ok] c by (simp add: wc_inv_def)
  from total_of_filter [OF this, of we_mem_size k] show ?thesis using c e by (simp add: wc_inv_def wc_contents_def)
qed

lemma wc_insert_inv:
  assumes ok: "dash_ok ops good" and c: "wc_inv ops good c" "wc_size_bytes c \<le> wc_max_bytes c"
    and fits: "unat (wc_max_bytes c) + unat (we_mem_size e) < 2 ^ 64" and i: "wc_insert ops b k e c = (r, c')"
  shows "wc_inv ops good c' \<and> wc_size_bytes c' \<le> wc_max_bytes c \<and> wc_max_bytes c' = wc_max_bytes c
     \<and> r = (unat (wc_size_bytes c) + unat (we_mem_size e) \<le> unat (wc_max_bytes c))
     \<and> wc_contents ops c' = (if r then (wc_contents ops c)((b, k) \<mapsto> e) else wc_contents ops c)"
proof -
  let ?m = "wc_entries c" and ?k = "(b, k)"
  have g: "good ?m" using c by (simp add: wc_inv_def)
  note D = dash_okD [OF ok g] and D' = dash_okD(1) [OF ok dash_okD(3) [OF ok g]]
  have sum: "unat (wc_size_bytes c + we_mem_size e) = unat (wc_size_bytes c) + unat (we_mem_size e)"
    using c(2) fits by (simp add: unat_add_lem [symmetric] word_le_nat_alt)
  show ?thesis
  proof (cases "unat (wc_size_bytes c) + unat (we_mem_size e) \<le> unat (wc_max_bytes c)")
    case False
    then have "wc_max_bytes c < wc_size_bytes c + we_mem_size e" using sum by (simp add: word_less_nat_alt)
    then show ?thesis using i c False by (auto simp: wc_insert_def Let_def)
  next
    case True
    let ?red = "case dm_get ops ?k ?m of Some old \<Rightarrow> wc_size_bytes c - we_mem_size old | None \<Rightarrow> wc_size_bytes c"
    let ?old = "case map_of (dm_iter ops ?m) ?k of None \<Rightarrow> 0 | Some x \<Rightarrow> unat (we_mem_size x)"
    have "\<not> wc_max_bytes c < wc_size_bytes c + we_mem_size e" using True sum by (simp add: word_less_nat_alt)
    then have r: "r" "c' = c\<lparr> wc_size_bytes := ?red + we_mem_size e, wc_entries := dm_insert ops ?k e ?m \<rparr>"
      using i by (auto simp: wc_insert_def Let_def split: if_splits)
    have le: "?old \<le> unat (wc_size_bytes c)" using wc_contents_total [OF ok c(1), of ?k] by (simp add: wc_contents_def split: option.splits)
    then have red: "unat ?red = unat (wc_size_bytes c) - ?old"
      using D(2) [of ?k] by (auto simp: unat_sub_if' split: option.splits)
    have "unat ?red + unat (we_mem_size e) < 2 ^ LENGTH(64)" using red True fits by simp
    then have ad: "unat (?red + we_mem_size e) = unat ?red + unat (we_mem_size e)" by (rule unat_add_lem [THEN iffD1])
    have "total_of we_mem_size (dm_iter ops (dm_insert ops ?k e ?m)) + ?old = total_of we_mem_size (dm_iter ops ?m) + unat (we_mem_size e)"
      by (rule total_of_update [OF D(1) D' D(4)])
    then have "unat (?red + we_mem_size e) = total_of we_mem_size (dm_iter ops (dm_insert ops ?k e ?m))"
      using ad red le c(1) by (simp add: wc_inv_def)
    moreover have "?red + we_mem_size e \<le> wc_max_bytes c" using ad red True by (simp add: word_le_nat_alt)
    ultimately show ?thesis using r True D(3,4) by (simp add: wc_inv_def wc_contents_def)
  qed
qed

lemma wc_remove_key_inv:
  assumes ok: "dash_ok ops good" and c: "wc_inv ops good c" and i: "wc_remove_key ops k c = (r, c')"
  shows "wc_inv ops good c' \<and> wc_size_bytes c' \<le> wc_size_bytes c \<and> wc_max_bytes c' = wc_max_bytes c
     \<and> r = wc_contents ops c k \<and> wc_contents ops c' = (wc_contents ops c)(k := None)"
proof -
  let ?m = "wc_entries c"
  have g: "good ?m" using c by (simp add: wc_inv_def)
  note D = dash_okD [OF ok g] and D' = dash_okD(1) [OF ok dash_okD(5) [OF ok g]]
  obtain out m where rm: "dm_remove ops k ?m = (out, m)" by fastforce
  note t = total_of_remove [OF D(1) D' D(7) [of k], where f = we_mem_size]
  show ?thesis
  proof (cases "map_of (dm_iter ops ?m) k")
    case None
    then have "out = None" using D(6) [of k] rm by simp
    then show ?thesis using i rm c None D(5,7) [of k] t by (auto simp: wc_remove_key_def wc_inv_def wc_contents_def)
  next
    case (Some e)
    then have o: "out = Some (k, e)" using D(6) [of k] rm by simp
    have le: "unat (we_mem_size e) \<le> unat (wc_size_bytes c)" using wc_contents_total [OF ok c, of k e] Some by (simp add: wc_contents_def)
    then have sub: "unat (wc_size_bytes c - we_mem_size e) = unat (wc_size_bytes c) - unat (we_mem_size e)" by (simp add: unat_sub_if')
    have "total_of we_mem_size (dm_iter ops m) = unat (wc_size_bytes c) - unat (we_mem_size e)" using t rm Some c by (simp add: wc_inv_def)
    then show ?thesis using i rm o Some D(5,7) [of k] sub
      by (simp add: wc_remove_key_def wc_inv_def wc_contents_def word_le_nat_alt) (use rm D(5,7) [of k] in auto)
  qed
qed

lemma wc_drain_inv:
  assumes ok: "dash_ok ops good" and "wc_inv ops good c" and "wc_drain ops ks acc c = (out, c')" and "distinct ks" and "set ks \<subseteq> dom (wc_contents ops c)"
  shows "wc_inv ops good c' \<and> wc_size_bytes c' \<le> wc_size_bytes c \<and> wc_max_bytes c' = wc_max_bytes c
     \<and> out = acc @ map (\<lambda>k. (fst k, snd k, the (wc_contents ops c k))) ks
     \<and> wc_contents ops c' = wc_contents ops c |` (- set ks)"
  using assms(2-5)
proof (induction ks arbitrary: acc c)
  case (Cons k ks)
  obtain r c1 where r: "wc_remove_key ops k c = (r, c1)" by fastforce
  note one = wc_remove_key_inv [OF ok Cons.prems(1) r]
  obtain e where e: "wc_contents ops c k = Some e" using Cons.prems(4) by auto
  have d: "wc_drain ops ks (acc @ [(fst k, snd k, e)]) c1 = (out, c')" using Cons.prems(2) r one e by simp
  have "set ks \<subseteq> dom (wc_contents ops c1)" using Cons.prems(3,4) one by auto
  moreover have "map (\<lambda>k. (fst k, snd k, the (wc_contents ops c1 k))) ks = map (\<lambda>k. (fst k, snd k, the (wc_contents ops c k))) ks"
    using Cons.prems(3) one by (intro map_cong) auto
  moreover have "((wc_contents ops c)(k := None)) |` (- set ks) = wc_contents ops c |` (- set (k # ks))"
    by (auto simp: restrict_map_def fun_eq_iff)
  ultimately show ?case using Cons.IH [OF _ d] Cons.prems(3) one e order_trans by fastforce
qed (simp add: restrict_map_def)

datatype wc_event = WInsert string string write_entry | WGet string string | WRemove string string
  | WDrainOld nat string nat | WDrainPrimary string

definition wc_step :: "(write_entry, 'm) dash_ops \<Rightarrow> wc_event \<Rightarrow> 'm write_cache \<Rightarrow> 'm write_cache" where
  "wc_step ops ev c = (case ev of WInsert b k e \<Rightarrow> snd (wc_insert ops b k e c) | WGet b k \<Rightarrow> snd (wc_get ops b k c)
     | WRemove b k \<Rightarrow> snd (wc_remove ops b k c)
     | WDrainOld now n age \<Rightarrow> snd (wc_drain_primary_older_than ops now n age c) | WDrainPrimary n \<Rightarrow> snd (wc_drain_by_primary ops n c))"

text \<open>What leaves the cache at a step, as it is handed to the caller.\<close>

definition wc_out :: "(write_entry, 'm) dash_ops \<Rightarrow> wc_event \<Rightarrow> 'm write_cache \<Rightarrow> (string \<times> string \<times> write_entry) list" where
  "wc_out ops ev c = (case ev of
       WRemove b k \<Rightarrow> (case fst (wc_remove ops b k c) of None \<Rightarrow> [] | Some e \<Rightarrow> [(b, k, e)])
     | WDrainOld now n age \<Rightarrow> fst (wc_drain_primary_older_than ops now n age c) | WDrainPrimary n \<Rightarrow> fst (wc_drain_by_primary ops n c)
     | _ \<Rightarrow> [])"

definition wc_accepts :: "(write_entry, 'm) dash_ops \<Rightarrow> wc_event \<Rightarrow> 'm write_cache \<Rightarrow> bool" where
  "wc_accepts ops ev c = (case ev of WInsert b k e \<Rightarrow> fst (wc_insert ops b k e c) | _ \<Rightarrow> False)"

lemma wc_drain_filter:
  assumes ok: "dash_ok ops good" and c: "wc_inv ops good c"
    and d: "wc_drain ops (map fst (filter (\<lambda>(_, e). P e) (dm_iter ops (wc_entries c)))) [] c = (out, c')"
  shows "wc_inv ops good c'" "wc_size_bytes c' \<le> wc_size_bytes c" "wc_max_bytes c' = wc_max_bytes c"
    and "wc_contents ops c' k = (case wc_contents ops c k of Some e \<Rightarrow> if P e then None else Some e | None \<Rightarrow> None)"
    and "(b', k', e) \<in> set out \<longleftrightarrow> wc_contents ops c (b', k') = Some e \<and> P e"
proof -
  let ?it = "dm_iter ops (wc_entries c)"
  let ?ks = "map fst (filter (\<lambda>(_, e). P e) ?it)"
  have dist: "distinct (map fst ?it)" using dash_okD(1) [OF ok] c by (simp add: wc_inv_def)
  have mem: "(x, e) \<in> set ?it \<longleftrightarrow> wc_contents ops c x = Some e" for x e using dist by (simp add: wc_contents_def)
  have ks: "x \<in> set ?ks \<longleftrightarrow> (\<exists>e. wc_contents ops c x = Some e \<and> P e)" for x
  proof -
    have "x \<in> set ?ks \<longleftrightarrow> (\<exists>e. (x, e) \<in> set ?it \<and> P e)" by force
    then show ?thesis using mem by simp
  qed
  have sub: "set ?ks \<subseteq> dom (wc_contents ops c)" using ks by auto
  note w = wc_drain_inv [OF ok c d distinct_keys_filter [OF dist] sub]
  show "wc_inv ops good c'" "wc_size_bytes c' \<le> wc_size_bytes c" "wc_max_bytes c' = wc_max_bytes c" using w by simp_all
  show "wc_contents ops c' k = (case wc_contents ops c k of Some e \<Rightarrow> if P e then None else Some e | None \<Rightarrow> None)"
    using w ks [of k] by (auto simp: restrict_map_def split: option.splits)
  have "(b', k', e) \<in> set out \<longleftrightarrow> (b', k') \<in> set ?ks \<and> e = the (wc_contents ops c (b', k'))" using w by force
  then show "(b', k', e) \<in> set out \<longleftrightarrow> wc_contents ops c (b', k') = Some e \<and> P e" using ks [of "(b', k')"] by auto
qed

lemma wc_drain_step:
  assumes ok: "dash_ok ops good" and c: "wc_inv ops good c" "wc_size_bytes c \<le> wc_max_bytes c"
    and d: "wc_drain ops (map fst (filter (\<lambda>(_, e). P e) (dm_iter ops (wc_entries c)))) [] c = (out, c')"
  shows "wc_inv ops good c' \<and> wc_size_bytes c' \<le> wc_max_bytes c \<and> wc_max_bytes c' = wc_max_bytes c"
    and "wc_contents ops c' (b, k) = (if \<exists>e. (b, k, e) \<in> set out then None else wc_contents ops c (b, k))"
    and "(b, k, e) \<in> set out \<Longrightarrow> wc_contents ops c (b, k) = Some e"
proof -
  note w = wc_drain_filter [OF ok c(1) d]
  show "wc_inv ops good c' \<and> wc_size_bytes c' \<le> wc_max_bytes c \<and> wc_max_bytes c' = wc_max_bytes c" using w(1-3) c(2) by simp
  show "(b, k, e) \<in> set out \<Longrightarrow> wc_contents ops c (b, k) = Some e" using w(5) by simp
  show "wc_contents ops c' (b, k) = (if \<exists>e. (b, k, e) \<in> set out then None else wc_contents ops c (b, k))"
  proof (cases "wc_contents ops c (b, k)")
    case None
    then show ?thesis using w(4) [of "(b, k)"] by simp
  next
    case (Some x)
    then have "(\<exists>e. (b, k, e) \<in> set out) \<longleftrightarrow> P x" using w(5) [of b k] by simp
    then show ?thesis using w(4) [of "(b, k)"] Some by simp
  qed
qed

text \<open>One step: the invariant, and nothing accepted disappears except by being replaced or handed out.\<close>

lemma wc_step_inv:
  assumes ok: "dash_ok ops good" and c: "wc_inv ops good c" "wc_size_bytes c \<le> wc_max_bytes c"
    and fits: "\<And>b k e. ev = WInsert b k e \<Longrightarrow> unat (wc_max_bytes c) + unat (we_mem_size e) < 2 ^ 64"
  shows "wc_inv ops good (wc_step ops ev c) \<and> wc_size_bytes (wc_step ops ev c) \<le> wc_max_bytes c \<and> wc_max_bytes (wc_step ops ev c) = wc_max_bytes c"
    and "wc_contents ops (wc_step ops ev c) (b, k) = (case ev of
        WInsert b' k' e \<Rightarrow> if (b', k') = (b, k) \<and> wc_accepts ops ev c then Some e else wc_contents ops c (b, k)
      | _ \<Rightarrow> if \<exists>e. (b, k, e) \<in> set (wc_out ops ev c) then None else wc_contents ops c (b, k))"
    and "(b, k, e) \<in> set (wc_out ops ev c) \<Longrightarrow> wc_contents ops c (b, k) = Some e"
proof -
  have "(wc_inv ops good (wc_step ops ev c) \<and> wc_size_bytes (wc_step ops ev c) \<le> wc_max_bytes c \<and> wc_max_bytes (wc_step ops ev c) = wc_max_bytes c)
    \<and> wc_contents ops (wc_step ops ev c) (b, k) = (case ev of
        WInsert b' k' e \<Rightarrow> if (b', k') = (b, k) \<and> wc_accepts ops ev c then Some e else wc_contents ops c (b, k)
      | _ \<Rightarrow> if \<exists>e. (b, k, e) \<in> set (wc_out ops ev c) then None else wc_contents ops c (b, k))
    \<and> ((b, k, e) \<in> set (wc_out ops ev c) \<longrightarrow> wc_contents ops c (b, k) = Some e)"
  proof (cases ev)
    case (WInsert b' k' e')
    obtain r c' where i: "wc_insert ops b' k' e' c = (r, c')" by fastforce
    then show ?thesis using wc_insert_inv [OF ok c fits [OF WInsert] i] WInsert by (auto simp: wc_step_def wc_out_def wc_accepts_def)
  next
    case (WGet b' k')
    then show ?thesis using c by (auto simp: wc_step_def wc_out_def wc_get_def Let_def wc_inv_def wc_contents_def)
  next
    case (WRemove b' k')
    obtain r c' where i: "wc_remove_key ops (b', k') c = (r, c')" by fastforce
    then show ?thesis using wc_remove_key_inv [OF ok c(1) i] WRemove c(2)
      by (cases "wc_contents ops c (b', k')") (auto simp: wc_step_def wc_out_def wc_remove_def)
  next
    case (WDrainOld now n age)
    let ?P = "\<lambda>e. now - we_cached_at_local e \<ge> age \<and> (we_primary_node_id e = [] \<or> we_primary_node_id e = n)"
    obtain out c' where d: "wc_drain ops (map fst (filter (\<lambda>(_, e). ?P e) (dm_iter ops (wc_entries c)))) [] c = (out, c')" by fastforce
    note w = wc_drain_step [OF ok c d]
    have "wc_drain_primary_older_than ops now n age c = (out, c')" using d by (simp add: wc_drain_primary_older_than_def)
    then have ev: "wc_step ops ev c = c'" "wc_out ops ev c = out" using WDrainOld by (simp_all add: wc_step_def wc_out_def)
    show ?thesis unfolding ev using w(1) w(2) [of b k] w(3) [of b k e] WDrainOld by simp
  next
    case (WDrainPrimary n)
    obtain out c' where d: "wc_drain ops (map fst (filter (\<lambda>(_, e). we_primary_node_id e = n) (dm_iter ops (wc_entries c)))) [] c = (out, c')" by fastforce
    note w = wc_drain_step [OF ok c d]
    have "wc_drain_by_primary ops n c = (out, c')" using d by (simp add: wc_drain_by_primary_def)
    then have ev: "wc_step ops ev c = c'" "wc_out ops ev c = out" using WDrainPrimary by (simp_all add: wc_step_def wc_out_def)
    show ?thesis unfolding ev using w(1) w(2) [of b k] w(3) [of b k e] WDrainPrimary by simp
  qed
  then show "wc_inv ops good (wc_step ops ev c) \<and> wc_size_bytes (wc_step ops ev c) \<le> wc_max_bytes c \<and> wc_max_bytes (wc_step ops ev c) = wc_max_bytes c"
    "wc_contents ops (wc_step ops ev c) (b, k) = (case ev of
        WInsert b' k' e \<Rightarrow> if (b', k') = (b, k) \<and> wc_accepts ops ev c then Some e else wc_contents ops c (b, k)
      | _ \<Rightarrow> if \<exists>e. (b, k, e) \<in> set (wc_out ops ev c) then None else wc_contents ops c (b, k))"
    "(b, k, e) \<in> set (wc_out ops ev c) \<Longrightarrow> wc_contents ops c (b, k) = Some e" by blast+
qed

fun wc_run :: "(write_entry, 'm) dash_ops \<Rightarrow> wc_event list \<Rightarrow> 'm write_cache \<Rightarrow> (string \<times> string \<times> write_entry) list \<times> 'm write_cache" where
  "wc_run ops [] c = ([], c)"
| "wc_run ops (ev # evs) c = (case wc_run ops evs (wc_step ops ev c) of (out, c') \<Rightarrow> (wc_out ops ev c @ out, c'))"

lemma wc_run_keeps:
  assumes ok: "dash_ok ops good" and "wc_inv ops good c" "wc_size_bytes c \<le> wc_max_bytes c"
    and "\<forall>b k e. WInsert b k e \<in> set evs \<longrightarrow> unat (wc_max_bytes c) + unat (we_mem_size e) < 2 ^ 64"
    and "wc_run ops evs c = (out, c')"
  shows "wc_inv ops good c' \<and> wc_size_bytes c' \<le> wc_max_bytes c \<and> wc_max_bytes c' = wc_max_bytes c"
    and "wc_contents ops c (b, k) = Some e \<Longrightarrow> \<forall>e'. WInsert b k e' \<notin> set evs \<Longrightarrow> wc_contents ops c' (b, k) = Some e \<or> (b, k, e) \<in> set out"
proof -
  have "(wc_inv ops good c' \<and> wc_size_bytes c' \<le> wc_max_bytes c \<and> wc_max_bytes c' = wc_max_bytes c) \<and> (wc_contents ops c (b, k) = Some e
      \<and> (\<forall>e'. WInsert b k e' \<notin> set evs) \<longrightarrow> wc_contents ops c' (b, k) = Some e \<or> (b, k, e) \<in> set out)"
    using assms(2-5)
  proof (induction evs arbitrary: c out)
    case (Cons ev evs)
    let ?c = "wc_step ops ev c"
    obtain out' where r: "wc_run ops evs ?c = (out', c')" "out = wc_out ops ev c @ out'" using Cons.prems(4) by (auto split: prod.splits)
    have fit: "unat (wc_max_bytes c) + unat (we_mem_size e) < 2 ^ 64" if "ev = WInsert b k e" for b k e using Cons.prems(3) that by auto
    note st = wc_step_inv [OF ok Cons.prems(1,2), of ev, OF fit]
    have ih: "(wc_inv ops good c' \<and> wc_size_bytes c' \<le> wc_max_bytes c \<and> wc_max_bytes c' = wc_max_bytes c) \<and> (wc_contents ops ?c (b, k) = Some e
      \<and> (\<forall>e'. WInsert b k e' \<notin> set evs) \<longrightarrow> wc_contents ops c' (b, k) = Some e \<or> (b, k, e) \<in> set out')"
      using Cons.IH [OF _ _ _ r(1)] st(1) Cons.prems(3) by simp
    have "wc_contents ops ?c (b, k) = Some e \<or> (b, k, e) \<in> set (wc_out ops ev c)"
      if "wc_contents ops c (b, k) = Some e" "\<forall>e'. WInsert b k e' \<notin> set (ev # evs)"
      using st(2) [where b = b and k = k] st(3) [where b = b and k = k] that by (cases ev) (auto split: if_splits)
    then show ?case using ih r(2) by auto
  qed simp
  then show "wc_inv ops good c' \<and> wc_size_bytes c' \<le> wc_max_bytes c \<and> wc_max_bytes c' = wc_max_bytes c"
    "wc_contents ops c (b, k) = Some e \<Longrightarrow> \<forall>e'. WInsert b k e' \<notin> set evs \<Longrightarrow> wc_contents ops c' (b, k) = Some e \<or> (b, k, e) \<in> set out" by blast+
qed

text \<open>C9: an object the write cache accepted is not lost: after any later sequence of lookups, removals,
  drains and inserts of other objects it is still found, or it was handed to the caller of a
  removal or a drain; and the byte count stays the sum of the sizes of the entries, inside the budget.\<close>

theorem write_cache_keeps_accepted:
  assumes ok: "dash_ok ops good" and before: "wc_run ops evs (wc_new ops mb) = (out, c)" and ins: "wc_insert ops b k e c = (True, c1)"
    and later: "wc_run ops evs' c1 = (out', c2)" and other: "\<forall>e'. WInsert b k e' \<notin> set evs'"
    and fits: "\<forall>b' k' e'. WInsert b' k' e' \<in> set (evs @ WInsert b k e # evs') \<longrightarrow> unat mb + unat (we_mem_size e') < 2 ^ 64"
  shows "(fst (wc_get ops b k c2) = Some e \<or> (b, k, e) \<in> set out')
     \<and> unat (wc_size_bytes c2) = total_of we_mem_size (dm_iter ops (wc_entries c2)) \<and> wc_size_bytes c2 \<le> mb"
proof -
  have new: "wc_inv ops good (wc_new ops mb)" "wc_size_bytes (wc_new ops mb) \<le> wc_max_bytes (wc_new ops mb)" "wc_max_bytes (wc_new ops mb) = mb"
    using ok by (simp_all add: wc_inv_def wc_new_def dash_ok_def)
  have f: "\<forall>b k e'. WInsert b k e' \<in> set evs \<longrightarrow> unat (wc_max_bytes (wc_new ops mb)) + unat (we_mem_size e') < 2 ^ 64"
    using fits new(3) by simp
  have c: "wc_inv ops good c" "wc_size_bytes c \<le> wc_max_bytes c" "wc_max_bytes c = mb" using wc_run_keeps(1) [OF ok new(1,2) f before] new(3) by auto
  have "unat (wc_max_bytes c) + unat (we_mem_size e) < 2 ^ 64" using fits c(3) by simp
  note i = wc_insert_inv [OF ok c(1,2) this ins]
  have c1: "wc_inv ops good c1" "wc_size_bytes c1 \<le> wc_max_bytes c1" "wc_max_bytes c1 = mb" "wc_contents ops c1 (b, k) = Some e" using i c(3) by auto
  have f': "\<forall>b k e'. WInsert b k e' \<in> set evs' \<longrightarrow> unat (wc_max_bytes c1) + unat (we_mem_size e') < 2 ^ 64" using fits c1(3) by simp
  note r = wc_run_keeps [OF ok c1(1,2) f' later]
  have "wc_contents ops c2 (b, k) = Some e \<or> (b, k, e) \<in> set out'" by (rule r(2) [OF c1(4) other])
  moreover have "fst (wc_get ops b k c2) = wc_contents ops c2 (b, k)"
    using dash_okD(2) [OF ok] r(1) by (simp add: wc_get_def Let_def wc_contents_def wc_inv_def)
  ultimately show ?thesis using r(1) c1(3) by (simp add: wc_inv_def)
qed

definition demo_write_entry :: write_entry where
  "demo_write_entry = \<lparr> we_shards = [[1]], we_metas = [], we_distribution = [0], we_original_size = 1, we_content_type = [], we_etag = [],
     we_created_at = 0, we_user_metadata = Map.empty, we_tags = Map.empty, we_cached_at_unix_nanos = 0, we_cached_at_local = 0, we_primary_node_id = [] \<rparr>"

theorem write_cache_keeps_accepted_witness:
  "\<exists>(out :: (string \<times> string \<times> write_entry) list) c1 c2. wc_insert list_dash ''b'' ''k'' demo_write_entry (wc_new list_dash 1000) = (True, c1)
     \<and> wc_run list_dash [WGet ''b'' ''k'', WDrainOld 10 [] 5] c1 = (out, c2) \<and> wc_size_bytes c2 \<le> 1000
     \<and> (fst (wc_get list_dash ''b'' ''k'' c2) = Some demo_write_entry \<or> (''b'', ''k'', demo_write_entry) \<in> set out)"
proof -
  let ?evs = "[WGet ''b'' ''k'', WDrainOld 10 [] 5]"
  obtain c1 where i: "wc_insert list_dash ''b'' ''k'' demo_write_entry (wc_new list_dash 1000) = (True, c1)"
    by (simp add: wc_insert_def wc_new_def list_dash_def we_mem_size_def demo_write_entry_def Let_def)
  obtain out c2 where r: "wc_run list_dash ?evs c1 = (out, c2)" by fastforce
  have b: "wc_run list_dash [] (wc_new list_dash 1000) = ([], wc_new list_dash 1000)" by simp
  have o: "\<forall>e'. WInsert ''b'' ''k'' e' \<notin> set ?evs" by simp
  have f: "\<forall>b' k' e'. WInsert b' k' e' \<in> set ([] @ WInsert ''b'' ''k'' demo_write_entry # ?evs) \<longrightarrow> unat (1000 :: u64) + unat (we_mem_size e') < 2 ^ 64"
    by (simp add: we_mem_size_def demo_write_entry_def)
  show ?thesis using write_cache_keeps_accepted [OF list_dash_ok b i r o f] i r by blast
qed

end
