(* ===== verification/Volume_Pool.thy ===== *)
theory Volume_Pool
  imports Heal Caches
begin

text \<open>
  The pool of volumes (\<open>src/storage/volume_pool.rs\<close>): the object store over the disks with its
  placement, its repair queue, the write cache and the read cache.  Every operation of the trait
  \<open>Store\<close> is a function of the state of the pool.  What comes from outside a call is in the record
  \<open>pool_env\<close>: the disks' functions, the libraries, the peers and the readings of the clocks.
\<close>

section \<open>State and environment\<close>

text \<open>
  \<open>px_replicate\<close> and \<open>px_sync_pull\<close> are the requests to a peer, by its endpoint;
  \<open>px_new_uuid\<close> is the version id drawn for a delete marker.
\<close>

record ('d, 'w, 'l, 'm) pool_env =
  px_libs :: libs
  px_ops :: "('d, 'w) backend_ops"
  px_lru :: "(read_entry, 'l) lru_ops"
  px_dash :: "(write_entry, 'm) dash_ops"
  px_is_uuid :: "string \<Rightarrow> bool"
  px_part_index :: "bytes \<Rightarrow> nat option"
  px_replicate :: "string \<Rightarrow> string \<Rightarrow> string \<Rightarrow> write_entry \<Rightarrow> bool"
  px_sync_pull :: "string \<Rightarrow> string \<Rightarrow> (string \<times> string \<times> write_entry) list option"
  px_now :: u64
  px_nanos :: u64
  px_instant :: nat
  px_lag :: nat
  px_new_uuid :: string

record ('d, 'l, 'm) volume_pool =
  vp_disks :: "'d list"
  vp_mrf :: "mrf_queue option"
  vp_epoch_id :: u64
  vp_cluster_id :: string
  vp_placement :: "placement_volume list"
  vp_write_cache :: "'m write_cache option"
  vp_read_cache :: "'l read_cache option"
  vp_local_node_id :: string
  vp_peers :: "string list"

text \<open>A panic of the calling task.\<close>

definition panic :: "string \<Rightarrow> storage_error" where
  "panic s = Internal (''panic: '' @ s)"

definition ftt_to_ec :: "nat \<Rightarrow> nat \<Rightarrow> storage_error + nat \<times> nat" where
  "ftt_to_ec ftt num_disks = (if num_disks = 0 \<or> ftt \<ge> num_disks then Inl (InvalidConfig ''ftt'') else Inr (num_disks - ftt, ftt))"

definition default_ftt :: "nat \<Rightarrow> nat" where
  "default_ftt num_disks = min 1 (num_disks - 1)"

definition assign_volume_ids :: "('d, 'w) backend_ops \<Rightarrow> 'd list \<Rightarrow> 'd list" where
  "assign_volume_ids ops disks = map (\<lambda>(i, d). if bki_volume_id (bk_info ops d) = [] then bk_set_volume_id ops (''vol-'' @ show_nat i) d else d)
     (zip [0..<length disks] disks)"

definition pool_new :: "('d, 'w, 'l, 'm) pool_env \<Rightarrow> 'd list \<Rightarrow> storage_error + ('d, 'l, 'm) volume_pool" where
  "pool_new E disks = (if disks = [] then Inl (InvalidConfig ''at least 1 disk is required'')
     else let disks = assign_volume_ids (px_ops E) disks in
       Inr \<lparr> vp_disks = disks, vp_mrf = None, vp_epoch_id = 1, vp_cluster_id = ''local-set'',
         vp_placement = map (\<lambda>(i, d). \<lparr> pv_backend_index = i, pv_node_id = ''local'', pv_volume_id = bki_volume_id (bk_info (px_ops E) d) \<rparr>)
           (zip [0..<length disks] disks),
         vp_write_cache = None, vp_read_cache = None, vp_local_node_id = [], vp_peers = [] \<rparr>)"

definition enable_write_cache :: "('d, 'w, 'l, 'm) pool_env \<Rightarrow> u64 \<Rightarrow> ('d, 'l, 'm) volume_pool \<Rightarrow> ('d, 'l, 'm) volume_pool" where
  "enable_write_cache E max_bytes s = s\<lparr> vp_write_cache := Some (wc_new (px_dash E) max_bytes) \<rparr>"

definition enable_read_cache :: "('d, 'w, 'l, 'm) pool_env \<Rightarrow> u64 \<Rightarrow> u64 \<Rightarrow> ('d, 'l, 'm) volume_pool \<Rightarrow> ('d, 'l, 'm) volume_pool" where
  "enable_read_cache E max_bytes max_object_bytes s =
     s\<lparr> vp_read_cache := (if max_bytes = 0 then None else Some (rc_new (px_lru E) max_bytes max_object_bytes)) \<rparr>"

definition set_placement_topology ::
  "u64 \<Rightarrow> string \<Rightarrow> placement_volume list \<Rightarrow> ('d, 'l, 'm) volume_pool \<Rightarrow> (storage_error + unit) \<times> ('d, 'l, 'm) volume_pool" where
  "set_placement_topology epoch_id cluster_id disks s =
     (if length disks \<noteq> length (vp_disks s) then (Inl (InvalidConfig ''placement disk count mismatch''), s)
      else (Inr (), s\<lparr> vp_epoch_id := epoch_id, vp_cluster_id := cluster_id, vp_placement := disks \<rparr>))"

definition pool_planner_of :: "('d, 'l, 'm) volume_pool \<Rightarrow> placement_planner" where
  "pool_planner_of s = \<lparr> pp_epoch_id = vp_epoch_id s, pp_cluster_id = vp_cluster_id s, pp_disks = vp_placement s \<rparr>"

text \<open>The caches are optional.\<close>

definition on_read_cache :: "('l read_cache \<Rightarrow> 'l read_cache) \<Rightarrow> ('d, 'l, 'm) volume_pool \<Rightarrow> ('d, 'l, 'm) volume_pool" where
  "on_read_cache f s = s\<lparr> vp_read_cache := map_option f (vp_read_cache s) \<rparr>"

definition rc_lookup :: "('d, 'w, 'l, 'm) pool_env \<Rightarrow> string \<Rightarrow> string \<Rightarrow> ('d, 'l, 'm) volume_pool \<Rightarrow> read_entry option \<times> ('d, 'l, 'm) volume_pool" where
  "rc_lookup E bucket key s = (case vp_read_cache s of None \<Rightarrow> (None, s)
     | Some c \<Rightarrow> (case rc_get (px_lru E) bucket key c of (out, c) \<Rightarrow>
         (out, s\<lparr> vp_read_cache := Some (if out = None then rc_record_miss c else c) \<rparr>)))"

definition wc_lookup :: "('d, 'w, 'l, 'm) pool_env \<Rightarrow> string \<Rightarrow> string \<Rightarrow> ('d, 'l, 'm) volume_pool \<Rightarrow> write_entry option \<times> ('d, 'l, 'm) volume_pool" where
  "wc_lookup E bucket key s = (case vp_write_cache s of None \<Rightarrow> (None, s)
     | Some c \<Rightarrow> (case wc_get (px_dash E) bucket key c of (out, c) \<Rightarrow> (out, s\<lparr> vp_write_cache := Some c \<rparr>)))"

section \<open>Write cache maintenance\<close>

text \<open>Writing shards one after the other, counting the disks that accept theirs.\<close>

fun write_each ::
  "('d, 'w) backend_ops \<Rightarrow> string \<Rightarrow> string \<Rightarrow> (nat \<times> bytes \<times> object_meta) list \<Rightarrow> nat \<Rightarrow> 'd list \<Rightarrow> (storage_error + nat) \<times> 'd list" where
  "write_each ops bucket key [] n ds = (Inr n, ds)"
| "write_each ops bucket key ((i, shard, meta) # todo) n ds =
     (if i \<ge> length ds then (Inl (panic ''index out of bounds''), ds)
      else case on_disk i (bk_write_shard ops bucket key shard meta) ds of (r, ds) \<Rightarrow>
        write_each ops bucket key todo (if is_ok r then n + 1 else n) ds)"

fun flush_entries ::
  "('d, 'w) backend_ops \<Rightarrow> (string \<times> string \<times> write_entry) list \<Rightarrow> 'd list \<Rightarrow> (storage_error + unit) \<times> 'd list" where
  "flush_entries ops [] ds = (Inr (), ds)"
| "flush_entries ops ((bucket, key, e) # es) ds =
     then_do (write_each ops bucket key (zip (we_distribution e) (zip (we_shards e) (we_metas e))) 0 ds) (\<lambda>_ ds. flush_entries ops es ds)"

definition flush_older_than :: "('d, 'w, 'l, 'm) pool_env \<Rightarrow> nat \<Rightarrow> ('d, 'l, 'm) volume_pool \<Rightarrow> (storage_error + unit) \<times> ('d, 'l, 'm) volume_pool" where
  "flush_older_than E age s = (case vp_write_cache s of None \<Rightarrow> (Inr (), s)
     | Some c \<Rightarrow> (case wc_drain_primary_older_than (px_dash E) (px_instant E) (vp_local_node_id s) age c of (entries, c) \<Rightarrow>
         (case flush_entries (px_ops E) entries (vp_disks s) of (r, ds) \<Rightarrow> (r, s\<lparr> vp_write_cache := Some c, vp_disks := ds \<rparr>))))"

definition flush_write_cache :: "('d, 'w, 'l, 'm) pool_env \<Rightarrow> ('d, 'l, 'm) volume_pool \<Rightarrow> (storage_error + unit) \<times> ('d, 'l, 'm) volume_pool" where
  "flush_write_cache E s = flush_older_than E 0 s"

text \<open>After the flush the shutdown only waits for the disks' workers.\<close>

definition pool_shutdown :: "('d, 'w, 'l, 'm) pool_env \<Rightarrow> ('d, 'l, 'm) volume_pool \<Rightarrow> ('d, 'l, 'm) volume_pool" where
  "pool_shutdown E s = snd (flush_write_cache E s)"

definition insert_pulled :: "('d, 'w, 'l, 'm) pool_env \<Rightarrow> (string \<times> string \<times> write_entry) list \<Rightarrow> 'm write_cache \<Rightarrow> 'm write_cache" where
  "insert_pulled E entries c =
     fold (\<lambda>(bucket, key, e) c. snd (wc_insert (px_dash E) bucket key (e\<lparr> we_cached_at_local := px_instant E \<rparr>) c)) entries c"

definition recover_cache_from_peers :: "('d, 'w, 'l, 'm) pool_env \<Rightarrow> ('d, 'l, 'm) volume_pool \<Rightarrow> ('d, 'l, 'm) volume_pool" where
  "recover_cache_from_peers E s = (case vp_write_cache s of None \<Rightarrow> s
     | Some c \<Rightarrow> if vp_local_node_id s = [] \<or> vp_peers s = [] then s
         else s\<lparr> vp_write_cache := Some (fold (\<lambda>p c. case px_sync_pull E p (vp_local_node_id s) of None \<Rightarrow> c | Some es \<Rightarrow> insert_pulled E es c)
           (vp_peers s) c) \<rparr>)"

section \<open>Shards and metadata\<close>

fun bucket_ec_loop :: "('d, 'w) backend_ops \<Rightarrow> string \<Rightarrow> nat \<Rightarrow> 'd list \<Rightarrow> nat \<times> nat" where
  "bucket_ec_loop ops bucket n [] = (case ftt_to_ec (default_ftt n) n of Inr ec \<Rightarrow> ec | Inl _ \<Rightarrow> (1, 0))"
| "bucket_ec_loop ops bucket n (d # ds) = (case bs_ftt (bk_read_bucket_settings ops d bucket) of
      None \<Rightarrow> bucket_ec_loop ops bucket n ds
    | Some ftt \<Rightarrow> (case ftt_to_ec ftt n of Inr ec \<Rightarrow> ec | Inl _ \<Rightarrow> bucket_ec_loop ops bucket n ds))"

definition bucket_ec :: "('d, 'w, 'l, 'm) pool_env \<Rightarrow> ('d, 'l, 'm) volume_pool \<Rightarrow> string \<Rightarrow> nat \<times> nat" where
  "bucket_ec E s bucket = bucket_ec_loop (px_ops E) bucket (length (vp_disks s)) (vp_disks s)"

definition resolve_ec :: "('d, 'w, 'l, 'm) pool_env \<Rightarrow> ('d, 'l, 'm) volume_pool \<Rightarrow> string \<Rightarrow> put_options \<Rightarrow> storage_error + nat \<times> nat" where
  "resolve_ec E s bucket opts = (case po_ec_ftt opts of Some ftt \<Rightarrow> ftt_to_ec ftt (length (vp_disks s)) | None \<Rightarrow> Inr (bucket_ec E s bucket))"

definition meta_ec :: "object_meta \<Rightarrow> storage_error + nat \<times> nat" where
  "meta_ec meta = (case em_data (om_erasure meta) of None \<Rightarrow> Inl (panic ''attempt to subtract with overflow'')
     | Some data_n \<Rightarrow> Inr (data_n, em_parity (om_erasure meta)))"

fun first_ok :: "('d \<Rightarrow> 'e + 'a) \<Rightarrow> 'd list \<Rightarrow> 'a option" where
  "first_ok f [] = None"
| "first_ok f (d # ds) = (case f d of Inr x \<Rightarrow> Some x | Inl _ \<Rightarrow> first_ok f ds)"

definition read_ec_from_meta ::
  "('d, 'w, 'l, 'm) pool_env \<Rightarrow> string \<Rightarrow> string \<Rightarrow> ('d, 'l, 'm) volume_pool \<Rightarrow> (storage_error + (nat \<times> nat) option) \<times> ('d, 'l, 'm) volume_pool" where
  "read_ec_from_meta E bucket key s = (case wc_lookup E bucket key s of (entry, s) \<Rightarrow>
     let from_disks = (case first_ok (\<lambda>d. bk_stat_object (px_ops E) d bucket key) (vp_disks s) of
           None \<Rightarrow> Inr None | Some meta \<Rightarrow> res_bind (meta_ec meta) (\<lambda>ec. Inr (Some ec)))
     in (case entry of None \<Rightarrow> from_disks
         | Some e \<Rightarrow> (case we_metas e of [] \<Rightarrow> from_disks | meta # _ \<Rightarrow> res_bind (meta_ec meta) (\<lambda>ec. Inr (Some ec))), s))"

text \<open>The shard counts of an object that may exist: from its metadata, otherwise from its bucket.\<close>

definition object_ec ::
  "('d, 'w, 'l, 'm) pool_env \<Rightarrow> string \<Rightarrow> string \<Rightarrow> ('d, 'l, 'm) volume_pool \<Rightarrow> (storage_error + nat \<times> nat) \<times> ('d, 'l, 'm) volume_pool" where
  "object_ec E bucket key s = then_do (read_ec_from_meta E bucket key s) (\<lambda>ec s.
     (Inr (case ec of Some ec \<Rightarrow> ec | None \<Rightarrow> bucket_ec E s bucket), s))"

definition meta_to_info :: "string \<Rightarrow> string \<Rightarrow> object_meta \<Rightarrow> object_info" where
  "meta_to_info bucket key meta = \<lparr> oi_bucket = bucket, oi_key = key, oi_size = om_size meta, oi_etag = om_etag meta,
     oi_content_type = om_content_type meta, oi_created_at = om_created_at meta, oi_user_metadata = om_user_metadata meta,
     oi_tags = om_tags meta, oi_version_id = om_version_id meta, oi_is_delete_marker = om_is_delete_marker meta \<rparr>"

definition entry_info :: "string \<Rightarrow> string \<Rightarrow> write_entry \<Rightarrow> object_info" where
  "entry_info bucket key e = \<lparr> oi_bucket = bucket, oi_key = key, oi_size = we_original_size e, oi_etag = we_etag e,
     oi_content_type = we_content_type e, oi_created_at = we_created_at e, oi_user_metadata = we_user_metadata e,
     oi_tags = we_tags e, oi_version_id = [], oi_is_delete_marker = False \<rparr>"

section \<open>Checks\<close>

definition pool_head_bucket :: "('d, 'w, 'l, 'm) pool_env \<Rightarrow> ('d, 'l, 'm) volume_pool \<Rightarrow> string \<Rightarrow> storage_error + bool" where
  "pool_head_bucket E s bucket = res_bind (lift_path (validate_bucket_name bucket)) (\<lambda>_.
     Inr (length (filter (\<lambda>d. bk_bucket_exists (px_ops E) d bucket) (vp_disks s)) \<ge> 1))"

text \<open>What the operations on an object, and those on a bucket, check first.\<close>

definition bucket_present :: "('d, 'w, 'l, 'm) pool_env \<Rightarrow> ('d, 'l, 'm) volume_pool \<Rightarrow> string \<Rightarrow> storage_error + unit" where
  "bucket_present E s bucket = res_bind (pool_head_bucket E s bucket) (\<lambda>found. if found then Inr () else Inl BucketNotFound)"

definition check_object :: "('d, 'w, 'l, 'm) pool_env \<Rightarrow> ('d, 'l, 'm) volume_pool \<Rightarrow> string \<Rightarrow> string \<Rightarrow> string option \<Rightarrow> storage_error + unit" where
  "check_object E s bucket key version_id = res_bind (lift_path (validate_bucket_name bucket)) (\<lambda>_.
     res_bind (lift_path (validate_object_key key)) (\<lambda>_.
     res_bind (case version_id of None \<Rightarrow> Inr () | Some vid \<Rightarrow> lift_path (validate_version_id (px_is_uuid E) vid)) (\<lambda>_.
     bucket_present E s bucket)))"

definition check_bucket :: "('d, 'w, 'l, 'm) pool_env \<Rightarrow> ('d, 'l, 'm) volume_pool \<Rightarrow> string \<Rightarrow> storage_error + unit" where
  "check_bucket E s bucket = res_bind (lift_path (validate_bucket_name bucket)) (\<lambda>_. bucket_present E s bucket)"

section \<open>Writing objects\<close>

definition LOG_THRESHOLD :: nat where "LOG_THRESHOLD = 64 * 1024"

fun collect_body :: "body \<Rightarrow> bytes \<Rightarrow> storage_error + bytes" where
  "collect_body [] data = Inr data"
| "collect_body (Inl e # cs) data = Inl (Io e)"
| "collect_body (Inr c # cs) data = collect_body cs (data @ c)"

definition small_etag :: "libs \<Rightarrow> put_options \<Rightarrow> bytes \<Rightarrow> string" where
  "small_etag L opts data = (if po_skip_md5 opts then hex16 (l_xxh64 L data) @ hex16 (of_nat (length data)) else l_md5_hex L data)"

definition small_shards :: "libs \<Rightarrow> nat \<Rightarrow> nat \<Rightarrow> bytes \<Rightarrow> storage_error + bytes list" where
  "small_shards L data_n parity_n data =
     (if data_n = 1 \<and> parity_n = 0 then Inr [data]
      else let shards = split_data data data_n in
        if parity_n = 0 then Inr shards
        else case l_reed_solomon L data_n parity_n of None \<Rightarrow> Inl (InvalidConfig ''rs'')
          | Some codec \<Rightarrow> (case rs_encode codec (shards @ replicate parity_n (replicate (length (shards ! 0)) 0)) of
              None \<Rightarrow> Inl (InvalidConfig ''rs encode'') | Some out \<Rightarrow> Inr out))"

definition small_info :: "libs \<Rightarrow> put_options \<Rightarrow> u64 \<Rightarrow> string \<Rightarrow> string \<Rightarrow> bytes \<Rightarrow> object_info" where
  "small_info L opts created_at bucket key data = (put_info L opts created_at None bucket key data)\<lparr> oi_etag := small_etag L opts data \<rparr>"

definition small_metas :: "libs \<Rightarrow> put_options \<Rightarrow> u64 \<Rightarrow> nat \<times> nat \<Rightarrow> placement_record \<Rightarrow> bytes \<Rightarrow> bytes list \<Rightarrow> object_meta list" where
  "small_metas L opts created_at ec placement data shards = map (\<lambda>i.
     (shard_meta L opts created_at None (snd ec) placement data i (l_blake3_hex L (shards ! i)))\<lparr> om_etag := small_etag L opts data \<rparr>)
     [0..<fst ec + snd ec]"

definition small_entry ::
  "('d, 'w, 'l, 'm) pool_env \<Rightarrow> string \<Rightarrow> put_options \<Rightarrow> placement_record \<Rightarrow> bytes \<Rightarrow> bytes list \<Rightarrow> object_meta list \<Rightarrow> write_entry" where
  "small_entry E node opts placement data shards metas = \<lparr> we_shards = shards, we_metas = metas,
     we_distribution = map ps_backend_index (pr_shards placement), we_original_size = of_nat (length data),
     we_content_type = put_content_type opts, we_etag = small_etag (px_libs E) opts data, we_created_at = px_now E,
     we_user_metadata = po_user_metadata opts, we_tags = po_tags opts, we_cached_at_unix_nanos = px_nanos E,
     we_cached_at_local = px_instant E, we_primary_node_id = node \<rparr>"

text \<open>The encoded object goes to the read cache, then to the write cache after a peer has it, otherwise to the disks.\<close>

definition store_small ::
  "('d, 'w, 'l, 'm) pool_env \<Rightarrow> string \<Rightarrow> string \<Rightarrow> put_options \<Rightarrow> nat \<times> nat \<Rightarrow> placement_record \<Rightarrow> bytes \<Rightarrow> bytes list
    \<Rightarrow> ('d, 'l, 'm) volume_pool \<Rightarrow> (storage_error + object_info) \<times> ('d, 'l, 'm) volume_pool" where
  "store_small E bucket key opts ec placement data shards s =
     (let metas = small_metas (px_libs E) opts (px_now E) ec placement data shards;
          info = small_info (px_libs E) opts (px_now E) bucket key data;
          s = on_read_cache (\<lambda>c. if of_nat (length data) \<le> rc_max_object_bytes c
                then rc_put (px_lru E) bucket key \<lparr> re_data = data, re_info = info \<rparr> c else c) s;
          entry = small_entry E (vp_local_node_id s) opts placement data shards metas;
          peer_ok = (case vp_peers s of [] \<Rightarrow> True | p # _ \<Rightarrow> px_replicate E p bucket key entry);
          cached = (case vp_write_cache s of None \<Rightarrow> (False, s)
            | Some c \<Rightarrow> if \<not> peer_ok then (False, s)
                else (case wc_insert (px_dash E) bucket key entry c of (r, c) \<Rightarrow> (r, s\<lparr> vp_write_cache := Some c \<rparr>)))
      in if fst cached then (Inr info, snd cached)
         else let s = snd cached in
           (case write_each (px_ops E) bucket key (zip (map ps_backend_index (pr_shards placement)) (zip shards metas)) 0 (vp_disks s) of
              (Inl e, ds) \<Rightarrow> (Inl e, s\<lparr> vp_disks := ds \<rparr>)
            | (Inr n, ds) \<Rightarrow> (if n < write_quorum (fst ec) (snd ec) then Inl WriteQuorum else Inr info, s\<lparr> vp_disks := ds \<rparr>)))"

definition pool_encode ::
  "('d, 'w, 'l, 'm) pool_env \<Rightarrow> string \<Rightarrow> string \<Rightarrow> body \<Rightarrow> put_options \<Rightarrow> string option \<Rightarrow> nat option \<Rightarrow> nat \<times> nat
    \<Rightarrow> ('d, 'l, 'm) volume_pool \<Rightarrow> (storage_error + object_info) \<times> ('d, 'l, 'm) volume_pool" where
  "pool_encode E bucket key body opts version_id content_length ec s =
     (case encode_and_write (px_libs E) (px_ops E) (px_lag E) (px_now E) (pool_planner_of s) (fst ec) (snd ec) bucket key body opts version_id
             content_length (vp_disks s) of
        (Inl e, ds) \<Rightarrow> (Inl e, s\<lparr> vp_disks := ds \<rparr>)
      | (Inr (info, queued), ds) \<Rightarrow> (Inr info, s\<lparr> vp_disks := ds,
          vp_mrf := (if queued then map_option (\<lambda>q. snd (mrf_enqueue (bucket, key) q)) (vp_mrf s) else vp_mrf s) \<rparr>))"

definition put_object_stream ::
  "('d, 'w, 'l, 'm) pool_env \<Rightarrow> string \<Rightarrow> string \<Rightarrow> body \<Rightarrow> put_options \<Rightarrow> string option \<Rightarrow> nat option
    \<Rightarrow> ('d, 'l, 'm) volume_pool \<Rightarrow> (storage_error + object_info) \<times> ('d, 'l, 'm) volume_pool" where
  "put_object_stream E bucket key body opts version_id content_length s =
     then_do (check_object E s bucket key version_id, s) (\<lambda>_ s.
     let s = on_read_cache (rc_invalidate (px_lru E) bucket key) s in
     if version_id = None \<and> (case content_length of None \<Rightarrow> False | Some len \<Rightarrow> len \<le> LOG_THRESHOLD) then
       then_do (collect_body body [], s) (\<lambda>data s.
       then_do (resolve_ec E s bucket opts, s) (\<lambda>ec s.
       then_do (small_shards (px_libs E) (fst ec) (snd ec) data, s) (\<lambda>shards s.
       case plan (l_placement_hash (px_libs E)) (pool_planner_of s) bucket key (fst ec) (snd ec) of
         Inl _ \<Rightarrow> (Inl (InvalidConfig ''placement''), s)
       | Inr placement \<Rightarrow> store_small E bucket key opts ec placement data shards s)))
     else then_do (resolve_ec E s bucket opts, s) (\<lambda>ec s. pool_encode E bucket key body opts version_id content_length ec s))"

definition pool_put_object ::
  "('d, 'w, 'l, 'm) pool_env \<Rightarrow> string \<Rightarrow> string \<Rightarrow> bytes \<Rightarrow> put_options \<Rightarrow> string option
    \<Rightarrow> ('d, 'l, 'm) volume_pool \<Rightarrow> (storage_error + object_info) \<times> ('d, 'l, 'm) volume_pool" where
  "pool_put_object E bucket key data opts version_id s =
     then_do (check_object E s bucket key version_id, s) (\<lambda>_ s.
     then_do (resolve_ec E s bucket opts, s) (\<lambda>ec s.
       case pool_encode E bucket key [Inr data] opts version_id (Some (length data)) ec s of
         (r, s) \<Rightarrow> (r, on_read_cache (rc_invalidate (px_lru E) bucket key) s)))"

text \<open>\<open>put_object\<close> writes without a version id, \<open>put_object_versioned\<close> with one.\<close>

definition put_object ::
  "('d, 'w, 'l, 'm) pool_env \<Rightarrow> string \<Rightarrow> string \<Rightarrow> bytes \<Rightarrow> put_options
    \<Rightarrow> ('d, 'l, 'm) volume_pool \<Rightarrow> (storage_error + object_info) \<times> ('d, 'l, 'm) volume_pool" where
  "put_object E bucket key data opts s = pool_put_object E bucket key data opts None s"

definition put_object_versioned ::
  "('d, 'w, 'l, 'm) pool_env \<Rightarrow> string \<Rightarrow> string \<Rightarrow> bytes \<Rightarrow> put_options \<Rightarrow> string
    \<Rightarrow> ('d, 'l, 'm) volume_pool \<Rightarrow> (storage_error + object_info) \<times> ('d, 'l, 'm) volume_pool" where
  "put_object_versioned E bucket key data opts version_id s = pool_put_object E bucket key data opts (Some version_id) s"

section \<open>Reading objects\<close>

text \<open>The data shards of an entry of the write cache, and how many there are.\<close>

definition entry_data_n :: "write_entry \<Rightarrow> storage_error + nat" where
  "entry_data_n e = (case we_metas e of [] \<Rightarrow> Inr 1 | meta # _ \<Rightarrow> res_bind (meta_ec meta) (\<lambda>ec. Inr (fst ec)))"

definition entry_data :: "write_entry \<Rightarrow> storage_error + bytes" where
  "entry_data e = res_bind (entry_data_n e) (\<lambda>data_n. Inr (take (unat (we_original_size e)) (concat (take data_n (we_shards e)))))"

text \<open>Reading from the shards, and keeping the result of an unversioned object in the read cache.\<close>

definition get_decoded ::
  "('d, 'w, 'l, 'm) pool_env \<Rightarrow> string \<Rightarrow> string \<Rightarrow> ('d, 'l, 'm) volume_pool
    \<Rightarrow> (storage_error + bytes \<times> object_info) \<times> ('d, 'l, 'm) volume_pool" where
  "get_decoded E bucket key s =
     then_do (object_ec E bucket key s) (\<lambda>ec s.
     then_do (read_and_decode (px_libs E) (px_ops E) (vp_disks s) (fst ec) (snd ec) bucket key, s) (\<lambda>(data, meta) s.
       let info = meta_to_info bucket key meta in
       (Inr (data, info), if om_version_id meta = [] \<and> \<not> om_is_delete_marker meta
          then on_read_cache (rc_put (px_lru E) bucket key \<lparr> re_data = data, re_info = info \<rparr>) s else s)))"

definition get_object ::
  "('d, 'w, 'l, 'm) pool_env \<Rightarrow> string \<Rightarrow> string \<Rightarrow> ('d, 'l, 'm) volume_pool
    \<Rightarrow> (storage_error + bytes \<times> object_info) \<times> ('d, 'l, 'm) volume_pool" where
  "get_object E bucket key s =
     then_do (check_object E s bucket key None, s) (\<lambda>_ s.
     case wc_lookup E bucket key s of
       (Some e, s) \<Rightarrow> (res_bind (entry_data e) (\<lambda>data. Inr (data, entry_info bucket key e)), s)
     | (None, s) \<Rightarrow>
     (case rc_lookup E bucket key s of
       (Some e, s) \<Rightarrow> (Inr (re_data e, re_info e), s)
     | (None, s) \<Rightarrow>
     (case first_ok (\<lambda>d. bk_stat_object (px_ops E) d bucket key) (vp_disks s) of
       Some meta \<Rightarrow>
         if is_multipart meta then
           (res_bind (read_and_decode_multipart (px_libs E) (px_part_index E) (px_ops E) (vp_disks s) bucket key meta)
              (\<lambda>data. Inr (data, meta_to_info bucket key meta)), s)
         else get_decoded E bucket key s
     | None \<Rightarrow> get_decoded E bucket key s)))"

text \<open>The body of a streamed read is the list of the items the stream yields.\<close>

definition STREAM_CHUNK :: nat where "STREAM_CHUNK = 4 * 1024 * 1024"

definition slices_of :: "nat \<Rightarrow> bytes \<Rightarrow> bytes list" where
  "slices_of n data = map (\<lambda>i. take n (drop (i * n) data)) [0..<div_ceil (length data) n]"

definition stream_single ::
  "('d, 'w, 'l, 'm) pool_env \<Rightarrow> string \<Rightarrow> string \<Rightarrow> ('d, 'l, 'm) volume_pool
    \<Rightarrow> (storage_error + object_info \<times> (storage_error + bytes) list) \<times> ('d, 'l, 'm) volume_pool" where
  "stream_single E bucket key s = (case first_ok (\<lambda>d. bk_mmap_shard (px_ops E) d bucket key) (vp_disks s) of
      None \<Rightarrow> (Inl ObjectNotFound, s)
    | Some (data, meta) \<Rightarrow>
        let info = meta_to_info bucket key meta in
        (Inr (info, map Inr (slices_of STREAM_CHUNK data)),
          if om_version_id meta = [] \<and> \<not> om_is_delete_marker meta
          then on_read_cache (\<lambda>c. if of_nat (length data) \<le> rc_max_object_bytes c
             then rc_put (px_lru E) bucket key \<lparr> re_data = data, re_info = info \<rparr> c else c) s else s))"

definition stream_decoded ::
  "('d, 'w, 'l, 'm) pool_env \<Rightarrow> string \<Rightarrow> string \<Rightarrow> ('d, 'l, 'm) volume_pool
    \<Rightarrow> (storage_error + object_info \<times> (storage_error + bytes) list) \<times> ('d, 'l, 'm) volume_pool" where
  "stream_decoded E bucket key s =
     then_do (object_ec E bucket key s) (\<lambda>ec s.
       if ec = (1, 0) then stream_single E bucket key s
       else (res_bind (read_and_decode_stream (px_libs E) (px_ops E) (vp_disks s) (fst ec) (snd ec) bucket key)
               (\<lambda>(meta, items). Inr (meta_to_info bucket key meta, items)), s))"

definition get_object_stream ::
  "('d, 'w, 'l, 'm) pool_env \<Rightarrow> string \<Rightarrow> string \<Rightarrow> ('d, 'l, 'm) volume_pool
    \<Rightarrow> (storage_error + object_info \<times> (storage_error + bytes) list) \<times> ('d, 'l, 'm) volume_pool" where
  "get_object_stream E bucket key s =
     then_do (check_object E s bucket key None, s) (\<lambda>_ s.
     case wc_lookup E bucket key s of
       (Some e, s) \<Rightarrow> (res_bind (entry_data_n e) (\<lambda>data_n. Inr (entry_info bucket key e, map Inr (take data_n (we_shards e)))), s)
     | (None, s) \<Rightarrow>
     (case rc_lookup E bucket key s of
       (Some e, s) \<Rightarrow> (Inr (re_info e, [Inr (re_data e)]), s)
     | (None, s) \<Rightarrow>
     (case first_ok (\<lambda>d. bk_stat_object (px_ops E) d bucket key) (vp_disks s) of
       Some meta \<Rightarrow>
         if is_multipart meta then
           (res_bind (read_and_decode_multipart (px_libs E) (px_part_index E) (px_ops E) (vp_disks s) bucket key meta)
              (\<lambda>data. Inr (meta_to_info bucket key meta, [Inr data])), s)
         else stream_decoded E bucket key s
     | None \<Rightarrow> stream_decoded E bucket key s)))"

definition head_object ::
  "('d, 'w, 'l, 'm) pool_env \<Rightarrow> string \<Rightarrow> string \<Rightarrow> ('d, 'l, 'm) volume_pool \<Rightarrow> (storage_error + object_info) \<times> ('d, 'l, 'm) volume_pool" where
  "head_object E bucket key s =
     then_do (check_object E s bucket key None, s) (\<lambda>_ s.
     case wc_lookup E bucket key s of
       (Some e, s) \<Rightarrow> (Inr (entry_info bucket key e), s)
     | (None, s) \<Rightarrow> (case first_ok (\<lambda>d. bk_stat_object (px_ops E) d bucket key) (vp_disks s) of
         Some meta \<Rightarrow> (Inr (meta_to_info bucket key meta), s) | None \<Rightarrow> (Inl ObjectNotFound, s)))"

section \<open>Deleting objects\<close>

definition delete_results :: "(storage_error + unit) list \<Rightarrow> nat \<times> bool" where
  "delete_results rs = (length (filter (\<lambda>r. is_ok r \<or> r = Inl ObjectNotFound) rs), list_ex is_ok rs)"

definition pool_delete_object ::
  "('d, 'w, 'l, 'm) pool_env \<Rightarrow> string \<Rightarrow> string \<Rightarrow> ('d, 'l, 'm) volume_pool \<Rightarrow> (storage_error + unit) \<times> ('d, 'l, 'm) volume_pool" where
  "pool_delete_object E bucket key s =
     then_do (lift_path (validate_bucket_name bucket), s) (\<lambda>_ s.
     then_do (lift_path (validate_object_key key), s) (\<lambda>_ s.
     let cached = (case vp_write_cache s of None \<Rightarrow> (None, s)
           | Some c \<Rightarrow> (case wc_remove (px_dash E) bucket key c of (r, c) \<Rightarrow> (r, s\<lparr> vp_write_cache := Some c \<rparr>)));
         was_cached = (fst cached \<noteq> None);
         s = on_read_cache (rc_invalidate (px_lru E) bucket key) (snd cached) in
     then_do (object_ec E bucket key s) (\<lambda>ec s.
       case each_disk (bk_delete_object (px_ops E) bucket key) (vp_disks s) of (rs, ds) \<Rightarrow>
         let s = s\<lparr> vp_disks := ds \<rparr>; found = snd (delete_results rs) in
         if \<not> found \<and> \<not> was_cached then (Inl ObjectNotFound, s)
         else if was_cached \<and> \<not> found then (Inr (), s)
         else if fst (delete_results rs) < write_quorum (fst ec) (snd ec) then (Inl WriteQuorum, s)
         else (Inr (), s))))"

section \<open>Buckets\<close>

text \<open>One operation on the settings of a bucket on every disk; one disk is enough.\<close>

definition write_settings ::
  "('d, 'w, 'l, 'm) pool_env \<Rightarrow> string \<Rightarrow> ('d \<Rightarrow> bucket_settings) \<Rightarrow> ('d, 'l, 'm) volume_pool \<Rightarrow> (storage_error + unit) \<times> ('d, 'l, 'm) volume_pool" where
  "write_settings E bucket f s =
     (case each_disk (\<lambda>d. bk_write_bucket_settings (px_ops E) bucket (f d) d) (vp_disks s) of (rs, ds) \<Rightarrow>
        (if successes rs = 0 then Inl WriteQuorum else Inr (), s\<lparr> vp_disks := ds \<rparr>))"

definition set_ftt ::
  "('d, 'w, 'l, 'm) pool_env \<Rightarrow> string \<Rightarrow> nat \<Rightarrow> ('d, 'l, 'm) volume_pool \<Rightarrow> (storage_error + unit) \<times> ('d, 'l, 'm) volume_pool" where
  "set_ftt E bucket ftt s =
     then_do (check_bucket E s bucket, s) (\<lambda>_ s.
     then_do (ftt_to_ec ftt (length (vp_disks s)), s) (\<lambda>_ s.
       write_settings E bucket (\<lambda>d. (bk_read_bucket_settings (px_ops E) d bucket)\<lparr> bs_ftt := Some ftt \<rparr>) s))"

fun first_setting :: "('d \<Rightarrow> 'a option) \<Rightarrow> 'd list \<Rightarrow> 'a option" where
  "first_setting f [] = None"
| "first_setting f (d # ds) = (case f d of Some x \<Rightarrow> Some x | None \<Rightarrow> first_setting f ds)"

definition get_ftt :: "('d, 'w, 'l, 'm) pool_env \<Rightarrow> ('d, 'l, 'm) volume_pool \<Rightarrow> string \<Rightarrow> storage_error + nat option" where
  "get_ftt E s bucket = res_bind (check_bucket E s bucket) (\<lambda>_.
     Inr (first_setting (\<lambda>d. bs_ftt (bk_read_bucket_settings (px_ops E) d bucket)) (vp_disks s)))"

definition get_versioning_config :: "('d, 'w, 'l, 'm) pool_env \<Rightarrow> ('d, 'l, 'm) volume_pool \<Rightarrow> string \<Rightarrow> storage_error + string option" where
  "get_versioning_config E s bucket = res_bind (check_bucket E s bucket) (\<lambda>_.
     Inr (first_setting (\<lambda>d. bs_versioning (bk_read_bucket_settings (px_ops E) d bucket)) (vp_disks s)))"

definition set_versioning_config ::
  "('d, 'w, 'l, 'm) pool_env \<Rightarrow> string \<Rightarrow> string \<Rightarrow> ('d, 'l, 'm) volume_pool \<Rightarrow> (storage_error + unit) \<times> ('d, 'l, 'm) volume_pool" where
  "set_versioning_config E bucket status s =
     then_do (check_bucket E s bucket, s) (\<lambda>_ s.
       write_settings E bucket (\<lambda>d. (bk_read_bucket_settings (px_ops E) d bucket)\<lparr> bs_versioning := Some status \<rparr>) s)"

definition get_bucket_settings :: "('d, 'w, 'l, 'm) pool_env \<Rightarrow> ('d, 'l, 'm) volume_pool \<Rightarrow> string \<Rightarrow> storage_error + bucket_settings" where
  "get_bucket_settings E s bucket = res_bind (check_bucket E s bucket) (\<lambda>_.
     Inr (case find (\<lambda>b. b \<noteq> default_settings) (map (\<lambda>d. bk_read_bucket_settings (px_ops E) d bucket) (vp_disks s)) of
       Some b \<Rightarrow> b | None \<Rightarrow> default_settings))"

definition set_bucket_settings ::
  "('d, 'w, 'l, 'm) pool_env \<Rightarrow> string \<Rightarrow> bucket_settings \<Rightarrow> ('d, 'l, 'm) volume_pool \<Rightarrow> (storage_error + unit) \<times> ('d, 'l, 'm) volume_pool" where
  "set_bucket_settings E bucket settings s =
     then_do (check_bucket E s bucket, s) (\<lambda>_ s. write_settings E bucket (\<lambda>_. settings) s)"

definition pool_make_bucket ::
  "('d, 'w, 'l, 'm) pool_env \<Rightarrow> string \<Rightarrow> ('d, 'l, 'm) volume_pool \<Rightarrow> (storage_error + unit) \<times> ('d, 'l, 'm) volume_pool" where
  "pool_make_bucket E bucket s =
     then_do (lift_path (validate_bucket_name bucket), s) (\<lambda>_ s.
       if list_ex (\<lambda>d. bk_bucket_exists (px_ops E) d bucket) (vp_disks s) then (Inl BucketExists, s)
       else case each_disk (bk_make_bucket (px_ops E) bucket) (vp_disks s) of (rs, ds) \<Rightarrow>
         let s = s\<lparr> vp_disks := ds \<rparr> in
         if successes rs = 0 then (Inl WriteQuorum, s)
         else (Inr (), snd (set_ftt E bucket (default_ftt (length (vp_disks s))) s)))"

definition pool_delete_bucket ::
  "('d, 'w, 'l, 'm) pool_env \<Rightarrow> string \<Rightarrow> ('d, 'l, 'm) volume_pool \<Rightarrow> (storage_error + unit) \<times> ('d, 'l, 'm) volume_pool" where
  "pool_delete_bucket E bucket s =
     then_do (check_bucket E s bucket, s) (\<lambda>_ s.
       if (case vp_write_cache s of None \<Rightarrow> False | Some c \<Rightarrow> wc_list_keys (px_dash E) bucket [] c \<noteq> []) then (Inl BucketNotEmpty, s)
       else if list_ex (\<lambda>d. case bk_list_objects (px_ops E) d bucket [] of Inr keys \<Rightarrow> keys \<noteq> [] | Inl _ \<Rightarrow> False) (vp_disks s)
         then (Inl BucketNotEmpty, s)
       else (Inr (), on_read_cache (rc_invalidate_bucket (px_lru E) bucket)
         (s\<lparr> vp_disks := snd (each_disk (bk_delete_bucket (px_ops E) bucket) (vp_disks s)) \<rparr>)))"

definition pool_list_buckets :: "('d, 'w, 'l, 'm) pool_env \<Rightarrow> ('d, 'l, 'm) volume_pool \<Rightarrow> bucket_info list" where
  "pool_list_buckets E s = (case first_ok (\<lambda>d. res_bind (bk_list_buckets (px_ops E) d) (\<lambda>names.
       Inr (map (\<lambda>name. \<lparr> bi_name = name, bi_created_at = bk_bucket_created_at (px_ops E) d name \<rparr>) names))) (vp_disks s) of
     Some buckets \<Rightarrow> buckets | None \<Rightarrow> [])"

section \<open>Listing objects\<close>

fun find_str :: "string \<Rightarrow> string \<Rightarrow> nat option" where
  "find_str pat [] = (if pat = [] then Some 0 else None)"
| "find_str pat (c # cs) = (if starts_with (c # cs) pat then Some 0 else map_option Suc (find_str pat cs))"

definition disk_keys :: "('d, 'w, 'l, 'm) pool_env \<Rightarrow> ('d, 'l, 'm) volume_pool \<Rightarrow> string \<Rightarrow> string \<Rightarrow> string list" where
  "disk_keys E s bucket pre = (case first_ok (\<lambda>d. bk_list_objects (px_ops E) d bucket pre) (vp_disks s) of Some ks \<Rightarrow> ks | None \<Rightarrow> [])"

fun add_missing :: "string list \<Rightarrow> string list \<Rightarrow> string list" where
  "add_missing [] keys = keys"
| "add_missing (k # ks) keys = add_missing ks (if k \<in> set keys then keys else keys @ [k])"

definition all_keys :: "('d, 'w, 'l, 'm) pool_env \<Rightarrow> ('d, 'l, 'm) volume_pool \<Rightarrow> string \<Rightarrow> string \<Rightarrow> string list" where
  "all_keys E s bucket pre = (case vp_write_cache s of None \<Rightarrow> disk_keys E s bucket pre
     | Some c \<Rightarrow> sort (add_missing (wc_list_keys (px_dash E) bucket pre c) (disk_keys E s bucket pre)))"

text \<open>Keys with the delimiter behind the prefix are grouped; \<open>..=pos\<close> keeps one byte of the delimiter.\<close>

fun list_loop ::
  "('d, 'w, 'l, 'm) pool_env \<Rightarrow> string \<Rightarrow> string \<Rightarrow> string \<Rightarrow> string list \<Rightarrow> object_info list \<times> string list \<Rightarrow> ('d, 'l, 'm) volume_pool
    \<Rightarrow> (object_info list \<times> string list) \<times> ('d, 'l, 'm) volume_pool" where
  "list_loop E bucket pre delim [] acc s = (acc, s)"
| "list_loop E bucket pre delim (key # keys) (objects, prefixes) s =
     (case (if delim = [] then None else find_str delim (drop (length pre) key)) of
        Some pos \<Rightarrow> let cp = pre @ take (pos + 1) (drop (length pre) key) in
          list_loop E bucket pre delim keys (objects, if cp \<in> set prefixes then prefixes else prefixes @ [cp]) s
      | None \<Rightarrow> (case head_object E bucket key s of
            (Inr info, s) \<Rightarrow> list_loop E bucket pre delim keys (objects @ [info], prefixes) s
          | (Inl _, s) \<Rightarrow> list_loop E bucket pre delim keys (objects, prefixes) s))"

definition pool_list_objects ::
  "('d, 'w, 'l, 'm) pool_env \<Rightarrow> string \<Rightarrow> list_options \<Rightarrow> ('d, 'l, 'm) volume_pool \<Rightarrow> (storage_error + list_result) \<times> ('d, 'l, 'm) volume_pool" where
  "pool_list_objects E bucket opts s =
     then_do (lift_path (validate_bucket_name bucket), s) (\<lambda>_ s.
     then_do (lift_path (validate_object_prefix (lo_prefix opts)), s) (\<lambda>_ s.
     then_do (bucket_present E s bucket, s) (\<lambda>_ s.
       case list_loop E bucket (lo_prefix opts) (lo_delimiter opts) (all_keys E s bucket (lo_prefix opts)) ([], []) s of
         ((objects, prefixes), s) \<Rightarrow>
           let max_keys = (if lo_max_keys opts = 0 then 1000 else lo_max_keys opts) in
           (Inr \<lparr> lr_objects = objects, lr_common_prefixes = prefixes, lr_is_truncated = (length objects + length prefixes > max_keys),
              lr_next_continuation_token = [] \<rparr>, s))))"

section \<open>Tags and versions\<close>

definition get_object_tags :: "('d, 'w, 'l, 'm) pool_env \<Rightarrow> ('d, 'l, 'm) volume_pool \<Rightarrow> string \<Rightarrow> string \<Rightarrow> storage_error + (string \<rightharpoonup> string)" where
  "get_object_tags E s bucket key = res_bind (check_object E s bucket key None) (\<lambda>_.
     case first_ok (\<lambda>d. bk_stat_object (px_ops E) d bucket key) (vp_disks s) of Some meta \<Rightarrow> Inr (om_tags meta) | None \<Rightarrow> Inl ObjectNotFound)"

definition disk_versions :: "('d, 'w) backend_ops \<Rightarrow> string \<Rightarrow> string \<Rightarrow> 'd \<Rightarrow> object_meta list" where
  "disk_versions ops bucket key d = (case bk_read_meta_versions ops d bucket key of Inr vs \<Rightarrow> vs | Inl _ \<Rightarrow> [])"

fun tag_latest :: "(string \<rightharpoonup> string) \<Rightarrow> object_meta list \<Rightarrow> object_meta list option" where
  "tag_latest tags [] = None"
| "tag_latest tags (v # vs) = (if \<not> om_is_delete_marker v then Some (v\<lparr> om_tags := tags \<rparr> # vs) else map_option ((#) v) (tag_latest tags vs))"

definition tag_disk ::
  "('d, 'w) backend_ops \<Rightarrow> string \<Rightarrow> string \<Rightarrow> (string \<rightharpoonup> string) \<Rightarrow> 'd \<Rightarrow> (storage_error + unit) option \<times> 'd" where
  "tag_disk ops bucket key tags d = (case tag_latest tags (disk_versions ops bucket key d) of
      None \<Rightarrow> (None, d)
    | Some vs \<Rightarrow> (case bk_write_meta_versions ops bucket key vs d of (r, d) \<Rightarrow> (Some r, d)))"

definition put_object_tags ::
  "('d, 'w, 'l, 'm) pool_env \<Rightarrow> string \<Rightarrow> string \<Rightarrow> (string \<rightharpoonup> string) \<Rightarrow> ('d, 'l, 'm) volume_pool \<Rightarrow> (storage_error + unit) \<times> ('d, 'l, 'm) volume_pool" where
  "put_object_tags E bucket key tags s =
     then_do (check_object E s bucket key None, s) (\<lambda>_ s.
     then_do (object_ec E bucket key s) (\<lambda>ec s.
       case each_disk (tag_disk (px_ops E) bucket key tags) (vp_disks s) of (rs, ds) \<Rightarrow>
         let s = s\<lparr> vp_disks := ds \<rparr>; tried = List.map_filter (\<lambda>r. r) rs in
         if tried = [] then (Inl ObjectNotFound, s)
         else if successes tried < write_quorum (fst ec) (snd ec) then (Inl WriteQuorum, s)
         else (Inr (), s)))"

definition delete_object_tags ::
  "('d, 'w, 'l, 'm) pool_env \<Rightarrow> string \<Rightarrow> string \<Rightarrow> ('d, 'l, 'm) volume_pool \<Rightarrow> (storage_error + unit) \<times> ('d, 'l, 'm) volume_pool" where
  "delete_object_tags E bucket key s = put_object_tags E bucket key Map.empty s"

definition get_object_version ::
  "('d, 'w, 'l, 'm) pool_env \<Rightarrow> string \<Rightarrow> string \<Rightarrow> string \<Rightarrow> ('d, 'l, 'm) volume_pool
    \<Rightarrow> (storage_error + bytes \<times> object_info) \<times> ('d, 'l, 'm) volume_pool" where
  "get_object_version E bucket key version_id s =
     then_do (check_object E s bucket key (Some version_id), s) (\<lambda>_ s.
     then_do (object_ec E bucket key s) (\<lambda>ec s.
       (res_bind (read_and_decode_versioned (px_libs E) (px_ops E) (vp_disks s) (fst ec) (snd ec) bucket key version_id)
          (\<lambda>(data, meta). Inr (data, meta_to_info bucket key meta)), s)))"

definition delete_object_version ::
  "('d, 'w, 'l, 'm) pool_env \<Rightarrow> string \<Rightarrow> string \<Rightarrow> string \<Rightarrow> ('d, 'l, 'm) volume_pool \<Rightarrow> (storage_error + unit) \<times> ('d, 'l, 'm) volume_pool" where
  "delete_object_version E bucket key version_id s =
     then_do (check_object E s bucket key (Some version_id), s) (\<lambda>_ s.
       (Inr (), on_read_cache (rc_invalidate (px_lru E) bucket key)
          (s\<lparr> vp_disks := snd (each_disk (bk_delete_version_data (px_ops E) bucket key version_id) (vp_disks s)) \<rparr>)))"

definition delete_marker :: "string \<Rightarrow> u64 \<Rightarrow> object_meta" where
  "delete_marker version_id now = \<lparr> om_size = 0, om_etag = [], om_content_type = [], om_created_at = now,
     om_erasure = \<lparr> em_ftt = 0, em_index = 0, em_epoch_id = 0, em_volume_ids = [] \<rparr>, om_checksum = [],
     om_user_metadata = Map.empty, om_tags = Map.empty, om_version_id = version_id, om_is_latest = True, om_is_delete_marker = True,
     om_parts = [], om_inline_data = None \<rparr>"

definition mark_disk :: "('d, 'w) backend_ops \<Rightarrow> string \<Rightarrow> string \<Rightarrow> object_meta \<Rightarrow> 'd \<Rightarrow> (storage_error + unit) \<times> 'd" where
  "mark_disk ops bucket key marker d =
     bk_write_meta_versions ops bucket key (marker # map (\<lambda>v. v\<lparr> om_is_latest := False \<rparr>) (disk_versions ops bucket key d)) d"

definition add_delete_marker ::
  "('d, 'w, 'l, 'm) pool_env \<Rightarrow> string \<Rightarrow> string \<Rightarrow> ('d, 'l, 'm) volume_pool \<Rightarrow> (storage_error + object_info) \<times> ('d, 'l, 'm) volume_pool" where
  "add_delete_marker E bucket key s =
     then_do (check_object E s bucket key None, s) (\<lambda>_ s.
       let marker = delete_marker (px_new_uuid E) (px_now E) in
       (Inr (meta_to_info bucket key marker), on_read_cache (rc_invalidate (px_lru E) bucket key)
          (s\<lparr> vp_disks := snd (each_disk (mark_disk (px_ops E) bucket key marker) (vp_disks s)) \<rparr>)))"

definition list_object_versions ::
  "('d, 'w, 'l, 'm) pool_env \<Rightarrow> ('d, 'l, 'm) volume_pool \<Rightarrow> string \<Rightarrow> string \<Rightarrow> storage_error + (string \<times> object_meta list) list" where
  "list_object_versions E s bucket pre =
     res_bind (lift_path (validate_bucket_name bucket)) (\<lambda>_.
     res_bind (lift_path (validate_object_prefix pre)) (\<lambda>_.
     res_bind (bucket_present E s bucket) (\<lambda>_.
       Inr (List.map_filter (\<lambda>key. map_option (Pair key)
         (find (\<lambda>vs. vs \<noteq> []) (map (disk_versions (px_ops E) bucket key) (vp_disks s)))) (disk_keys E s bucket pre)))))"

end
