(* ===== verification/Pool_Proofs.thy ===== *)
theory Pool_Proofs
  imports Volume_Pool Object_Roundtrip
begin

text \<open>
  What the pool answers for objects in its write cache: a small object that the cache took is read
  back by the buffered read, while the streamed read also sends the padding of the last shard; and an
  entry in the write cache hides every later write that does not go through the cache.
\<close>

section \<open>Small objects\<close>

text \<open>The data shards of a small object and its layout.\<close>

lemma small_shards_data:
  assumes sh: "small_shards L dn pn data = Inr shards" and dn: "0 < dn"
    and code: "0 < pn \<longrightarrow> (\<exists>codec. l_reed_solomon L dn pn = Some codec \<and> rs_ok dn pn codec)"
  shows "length shards = dn + pn" and "take (length data) (concat (take dn shards)) = data"
    and "\<not> (dn = 1 \<and> pn = 0) \<Longrightarrow> take dn shards = split_data data dn"
proof -
  have "length shards = dn + pn \<and> take (length data) (concat (take dn shards)) = data
    \<and> (\<not> (dn = 1 \<and> pn = 0) \<longrightarrow> take dn shards = split_data data dn)"
  proof (cases "dn = 1 \<and> pn = 0")
    case True
    then show ?thesis using sh by (auto simp: small_shards_def)
  next
    case no: False
    show ?thesis
    proof (cases "pn = 0")
      case True
      then have "shards = split_data data dn" using sh no by (auto simp: small_shards_def)
      then show ?thesis using True join_split [OF dn, of data] by (simp add: split_data_shape)
    next
      case False
      then obtain codec where c: "l_reed_solomon L dn pn = Some codec" "rs_ok dn pn codec" using code by auto
      then have ok: "code_ok dn pn (Some codec)" using dn by (simp add: code_ok_def)
      have "length (split_data data dn ! 0) = shard_size (length data) dn" using dn by (simp add: split_data_pieces)
      then have "shards = coded (Some codec) dn pn data"
        using sh no False c(1) coded_shape(3) [OF ok refl, of data] by (simp add: small_shards_def Let_def)
      then show ?thesis using coded_shape(1,2) [OF ok, of data] join_split [OF dn, of data] by (simp add: same_length_def)
    qed
  qed
  then show "length shards = dn + pn" "take (length data) (concat (take dn shards)) = data"
    "\<not> (dn = 1 \<and> pn = 0) \<Longrightarrow> take dn shards = split_data data dn" by blast+
qed

lemma ftt_to_ec_bounds: "ftt_to_ec f n = Inr ec \<Longrightarrow> 0 < fst ec \<and> fst ec + snd ec = n"
  by (auto simp: ftt_to_ec_def split: if_splits)

lemma bucket_ec_bounds: "0 < n \<Longrightarrow> 0 < fst (bucket_ec_loop ops b n ds) \<and> fst (bucket_ec_loop ops b n ds) + snd (bucket_ec_loop ops b n ds) = n"
proof (induction ops b n ds rule: bucket_ec_loop.induct)
  case (1 ops b n)
  then show ?case by (auto simp: ftt_to_ec_def default_ftt_def)
next
  case (2 ops b n d ds)
  then show ?case using ftt_to_ec_bounds by (auto split: option.splits sum.splits)
qed

lemma resolve_ec_bounds:
  assumes "resolve_ec E s b opts = Inr ec" and "vp_disks s \<noteq> []"
  shows "0 < fst ec" and "fst ec + snd ec = length (vp_disks s)"
  using assms bucket_ec_bounds [of "length (vp_disks s)" "px_ops E" b "vp_disks s"] ftt_to_ec_bounds
  by (auto simp: resolve_ec_def bucket_ec_def split: option.splits)

section \<open>Reading through the write cache\<close>

lemma bucket_present_disks: "bucket_present E s b = Inr () \<Longrightarrow> vp_disks s \<noteq> []"
  by (auto simp: bucket_present_def pool_head_bucket_def res_bind_Inr_iff split: if_splits)

lemma check_object_same: "vp_disks s' = vp_disks s \<Longrightarrow> check_object E s' b k vid = check_object E s b k vid"
  by (simp add: check_object_def bucket_present_def pool_head_bucket_def)

lemma wc_lookup_hit:
  assumes "vp_write_cache s = Some c" and "dm_get (px_dash E) (b, k) (wc_entries c) = Some e"
  shows "\<exists>s'. wc_lookup E b k s = (Some e, s')"
  using assms by (simp add: wc_lookup_def wc_get_def Let_def)

lemma get_object_cached:
  assumes "check_object E s b k None = Inr ()" and "vp_write_cache s = Some c" and "dm_get (px_dash E) (b, k) (wc_entries c) = Some e"
  shows "fst (get_object E b k s) = res_bind (entry_data e) (\<lambda>data. Inr (data, entry_info b k e))"
    and "fst (get_object_stream E b k s) = res_bind (entry_data_n e) (\<lambda>n. Inr (entry_info b k e, map Inr (take n (we_shards e))))"
  using assms wc_lookup_hit [OF assms(2,3)] by (auto simp: get_object_def get_object_stream_def)

text \<open>The write cache takes the object: its parameters can be resolved, its placement planned, a peer
  has it if there is one, and there is room.\<close>

definition cache_takes ::
  "('d, 'w, 'l, 'm) pool_env \<Rightarrow> ('d, 'l, 'm) volume_pool \<Rightarrow> string \<Rightarrow> string \<Rightarrow> put_options \<Rightarrow> bytes \<Rightarrow> nat \<times> nat \<Rightarrow> bytes list
    \<Rightarrow> placement_record \<Rightarrow> bool" where
  "cache_takes E s b k opts data ec shards r \<longleftrightarrow> resolve_ec E s b opts = Inr ec
     \<and> small_shards (px_libs E) (fst ec) (snd ec) data = Inr shards
     \<and> plan (l_placement_hash (px_libs E)) (pool_planner_of s) b k (fst ec) (snd ec) = Inr r
     \<and> (let e = small_entry E (vp_local_node_id s) opts r data shards (small_metas (px_libs E) opts (px_now E) ec r data shards) in
        (vp_peers s = [] \<or> px_replicate E (hd (vp_peers s)) b k e)
        \<and> (\<exists>c. vp_write_cache s = Some c \<and> fst (wc_insert (px_dash E) b k e c)))"

lemma small_entry_data:
  assumes takes: "cache_takes E s b k opts data ec shards r" and chk: "check_object E s b k None = Inr ()"
    and code: "0 < snd ec \<longrightarrow> (\<exists>codec. l_reed_solomon (px_libs E) (fst ec) (snd ec) = Some codec \<and> rs_ok (fst ec) (snd ec) codec)"
    and size: "length data < 2 ^ 64"
    and e: "e = small_entry E (vp_local_node_id s) opts r data shards (small_metas (px_libs E) opts (px_now E) ec r data shards)"
  shows "entry_data_n e = Inr (fst ec)" and "entry_data e = Inr data"
proof -
  have t: "resolve_ec E s b opts = Inr ec" "small_shards (px_libs E) (fst ec) (snd ec) data = Inr shards"
    "plan (l_placement_hash (px_libs E)) (pool_planner_of s) b k (fst ec) (snd ec) = Inr r" using takes by (simp_all add: cache_takes_def)
  have "vp_disks s \<noteq> []" by (rule bucket_present_disks) (use chk in \<open>auto simp: check_object_def res_bind_Inr_iff\<close>)
  note ec = resolve_ec_bounds [OF t(1) this]
  have "length (map ps_index (pr_shards r)) = fst ec + snd ec" using plan_shards_map(1) [OF t(3)] by simp
  then have pl: "length (pr_shards r) = fst ec + snd ec" by simp
  have "[0..<fst ec + snd ec] = 0 # [1..<fst ec + snd ec]" using ec(1) by (simp add: upt_conv_Cons)
  then show n: "entry_data_n e = Inr (fst ec)"
    using pl by (simp add: e entry_data_n_def small_entry_def small_metas_def shard_meta_def meta_ec_def em_data_def)
  have "unat (of_nat (length data) :: u64) = length data" using size by (simp add: unat_of_nat take_bit_nat_eq_self)
  then show "entry_data e = Inr data"
    using n small_shards_data(2) [OF t(2) ec(1) code] by (simp add: entry_data_def e small_entry_def)
qed

lemma on_read_cache_simps [simp]:
  "vp_disks (on_read_cache f s) = vp_disks s" "vp_write_cache (on_read_cache f s) = vp_write_cache s" "vp_peers (on_read_cache f s) = vp_peers s"
  "vp_local_node_id (on_read_cache f s) = vp_local_node_id s" "pool_planner_of (on_read_cache f s) = pool_planner_of s"
  "resolve_ec E (on_read_cache f s) b opts = resolve_ec E s b opts"
  by (simp_all add: on_read_cache_def pool_planner_of_def resolve_ec_def bucket_ec_def cong: option.case_cong)

lemma small_put_cached:
  assumes ok: "dash_ok (px_dash E) good" and good: "\<And>c. vp_write_cache s = Some c \<Longrightarrow> good (wc_entries c)"
    and chk: "check_object E s b k None = Inr ()" and body: "collect_body body [] = Inr data" and len: "len \<le> LOG_THRESHOLD"
    and takes: "cache_takes E s b k opts data ec shards r"
  obtains s' c e where "put_object_stream E b k body opts None (Some len) s = (Inr (small_info (px_libs E) opts (px_now E) b k data), s')"
    and "vp_disks s' = vp_disks s" and "vp_write_cache s' = Some c" and "dm_get (px_dash E) (b, k) (wc_entries c) = Some e"
    and "e = small_entry E (vp_local_node_id s) opts r data shards (small_metas (px_libs E) opts (px_now E) ec r data shards)"
proof -
  let ?L = "px_libs E" and ?e = "small_entry E (vp_local_node_id s) opts r data shards (small_metas (px_libs E) opts (px_now E) ec r data shards)"
  have t: "resolve_ec E s b opts = Inr ec" "small_shards ?L (fst ec) (snd ec) data = Inr shards"
    "plan (l_placement_hash ?L) (pool_planner_of s) b k (fst ec) (snd ec) = Inr r"
    "vp_peers s = [] \<or> px_replicate E (hd (vp_peers s)) b k ?e" using takes by (simp_all add: cache_takes_def Let_def)
  obtain c where c0: "vp_write_cache s = Some c" "fst (wc_insert (px_dash E) b k ?e c)" using takes by (auto simp: cache_takes_def Let_def)
  then obtain c' where c: "vp_write_cache s = Some c" "wc_insert (px_dash E) b k ?e c = (True, c')"
    by (cases "wc_insert (px_dash E) b k ?e c") simp
  have peer: "(case vp_peers s of [] \<Rightarrow> True | p # _ \<Rightarrow> px_replicate E p b k ?e)" using t(4) by (cases "vp_peers s") simp_all
  have ent: "wc_entries c' = dm_insert (px_dash E) (b, k) ?e (wc_entries c)"
    using c(2) by (auto simp: wc_insert_def Let_def split: if_splits)
  have g: "good (wc_entries c)" using good [OF c(1)] .
  have get: "dm_get (px_dash E) (b, k) (wc_entries c') = Some ?e"
    unfolding ent dash_okD(2) [OF ok dash_okD(3) [OF ok g]] dash_okD(4) [OF ok g] by simp
  have "\<exists>s'. put_object_stream E b k body opts None (Some len) s = (Inr (small_info ?L opts (px_now E) b k data), s')
      \<and> vp_disks s' = vp_disks s \<and> vp_write_cache s' = Some c'"
    using chk body len t(1-3) c peer by (simp add: put_object_stream_def Let_def store_small_def cong: list.case_cong)
  then show ?thesis using that get by blast
qed

section \<open>A pool over disks that accept everything\<close>

definition null_ops :: "(unit, unit) backend_ops" where
  "null_ops = \<lparr> bk_open_shard_writer = (\<lambda>_ _ _ d. (Inr (), d)), bk_write_chunk = (\<lambda>_ w d. (Inr w, d)), bk_finalize = (\<lambda>_ _ d. (Inr (), d)),
     bk_write_shard = (\<lambda>_ _ _ _ d. (Inr (), d)), bk_read_shard = (\<lambda>_ _ _. Inl ObjectNotFound), bk_mmap_shard = (\<lambda>_ _ _. Inl ObjectNotFound),
     bk_delete_object = (\<lambda>_ _ d. (Inr (), d)), bk_list_objects = (\<lambda>_ _ _. Inr []), bk_list_buckets = (\<lambda>_. Inr []),
     bk_make_bucket = (\<lambda>_ d. (Inr (), d)), bk_delete_bucket = (\<lambda>_ d. (Inr (), d)), bk_bucket_exists = (\<lambda>_ _. True),
     bk_bucket_created_at = (\<lambda>_ _. 0), bk_stat_object = (\<lambda>_ _ _. Inl ObjectNotFound), bk_update_meta = (\<lambda>_ _ _ d. (Inr (), d)),
     bk_read_meta_versions = (\<lambda>_ _ _. Inr []), bk_write_meta_versions = (\<lambda>_ _ _ d. (Inr (), d)),
     bk_write_versioned_shard = (\<lambda>_ _ _ _ _ d. (Inr (), d)), bk_read_versioned_shard = (\<lambda>_ _ _ _. Inl ObjectNotFound),
     bk_delete_version_data = (\<lambda>_ _ _ d. (Inr (), d)), bk_read_bucket_settings = (\<lambda>_ _. default_settings),
     bk_write_bucket_settings = (\<lambda>_ _ d. (Inr (), d)), bk_info = (\<lambda>_. \<lparr> bki_label = [], bki_volume_id = [] \<rparr>),
     bk_set_volume_id = (\<lambda>_ d. d), bk_local = (\<lambda>_. None) \<rparr>"

definition null_env :: "(unit, unit, (cache_key \<times> read_entry) list, (cache_key \<times> write_entry) list) pool_env" where
  "null_env = \<lparr> px_libs = demo_libs, px_ops = null_ops, px_lru = list_lru, px_dash = list_dash, px_is_uuid = (\<lambda>_. False),
     px_part_index = (\<lambda>_. None), px_replicate = (\<lambda>_ _ _ _. True), px_sync_pull = (\<lambda>_ _. None), px_now = 5, px_nanos = 0, px_instant = 0,
     px_lag = 0, px_new_uuid = [] \<rparr>"

text \<open>Two disks without parity, and a single disk whose write cache holds an object.\<close>

definition two_pool :: "(unit, (cache_key \<times> read_entry) list, (cache_key \<times> write_entry) list) volume_pool" where
  "two_pool = \<lparr> vp_disks = [(), ()], vp_mrf = None, vp_epoch_id = 1, vp_cluster_id = ''local-set'', vp_placement = pp_disks pool_planner,
     vp_write_cache = Some (wc_new list_dash 10000), vp_read_cache = None, vp_local_node_id = [], vp_peers = [] \<rparr>"

definition striped_opts :: put_options where
  "striped_opts = demo_opts\<lparr> po_ec_ftt := Some 0 \<rparr>"

definition striped_plan :: placement_record where
  "striped_plan = \<lparr> pr_epoch_id = 1, pr_cluster_id = ''local-set'', pr_data = 2, pr_parity = 0, pr_shards =
     [\<lparr> ps_index = 0, ps_backend_index = 0, ps_node_id = ''local'', ps_volume_id = ''vol-0'' \<rparr>,
      \<lparr> ps_index = 1, ps_backend_index = 1, ps_node_id = ''local'', ps_volume_id = ''vol-1'' \<rparr>] \<rparr>"

lemma striped_plan: "plan (\<lambda>_. []) pool_planner ''bk'' ''k'' 2 0 = Inr striped_plan"
  by code_simp

lemma striped_shards: "small_shards demo_libs 2 0 [1, 2, 3] = Inr [[1, 2], [3, 0]]"
  by (simp add: small_shards_def split_data_pieces shard_size_def div_ceil_def piece_def resize_def upt_rec)

lemma two_pool_check: "check_object null_env two_pool ''bk'' ''k'' None = Inr ()"
  using sample_names(1,2)
  by (simp add: check_object_def bucket_present_def pool_head_bucket_def null_env_def null_ops_def two_pool_def)

lemma two_pool_takes: "cache_takes null_env two_pool ''bk'' ''k'' striped_opts [1, 2, 3] (2, 0) [[1, 2], [3, 0]] striped_plan"
proof -
  have p: "pool_planner_of two_pool = pool_planner" by (simp add: pool_planner_of_def two_pool_def pool_planner_def)
  have l: "px_libs null_env = demo_libs" "l_placement_hash demo_libs = (\<lambda>_. [])" by (simp_all add: null_env_def demo_libs_def)
  have r: "resolve_ec null_env two_pool ''bk'' striped_opts = Inr (2, 0)"
    by (simp add: resolve_ec_def striped_opts_def ftt_to_ec_def two_pool_def)
  have w: "vp_write_cache two_pool = Some (wc_new list_dash 10000)" "vp_peers two_pool = []" by (simp_all add: two_pool_def)
  have "we_mem_size (small_entry null_env n striped_opts striped_plan [1, 2, 3] [[1, 2], [3, 0]] ms) = of_nat (4 + length ms * 200 + length n + 152)" for n ms
    by (simp add: we_mem_size_def small_entry_def small_etag_def striped_opts_def demo_opts_def put_content_type_def null_env_def demo_libs_def)
  moreover have "length (small_metas demo_libs striped_opts (px_now null_env) (2, 0) striped_plan [1, 2, 3] [[1, 2], [3, 0]]) = 2"
    "vp_local_node_id two_pool = []" by (simp_all add: small_metas_def two_pool_def)
  ultimately have "fst (wc_insert (px_dash null_env) ''bk'' ''k'' (small_entry null_env (vp_local_node_id two_pool) striped_opts striped_plan [1, 2, 3]
      [[1, 2], [3, 0]] (small_metas demo_libs striped_opts (px_now null_env) (2, 0) striped_plan [1, 2, 3] [[1, 2], [3, 0]])) (wc_new list_dash 10000))"
    by (simp add: wc_insert_def wc_new_def Let_def null_env_def list_dash_def)
  then show ?thesis using p l r w striped_plan striped_shards by (simp add: cache_takes_def Let_def)
qed

lemma two_pool_good: "\<forall>c. vp_write_cache two_pool = Some c \<longrightarrow> list_good (wc_entries c)"
  by (simp add: two_pool_def wc_new_def list_dash_def list_good_def)

lemma null_dash_ok: "dash_ok (px_dash null_env) list_good"
  using list_dash_ok by (simp add: null_env_def)

text \<open>C8: a small object that the write cache takes is acknowledged without touching a disk, and the
  buffered read returns its bytes and its description, over any disks.\<close>

theorem cached_put_is_read_back:
  assumes ok: "dash_ok (px_dash E) good" and good: "\<forall>c. vp_write_cache s = Some c \<longrightarrow> good (wc_entries c)"
    and chk: "check_object E s b k None = Inr ()" and body: "collect_body body [] = Inr data" and len: "len \<le> LOG_THRESHOLD"
    and takes: "cache_takes E s b k opts data ec shards r"
    and code: "0 < snd ec \<longrightarrow> (\<exists>codec. l_reed_solomon (px_libs E) (fst ec) (snd ec) = Some codec \<and> rs_ok (fst ec) (snd ec) codec)"
    and size: "length data < 2 ^ 64"
  shows "\<exists>info s'. put_object_stream E b k body opts None (Some len) s = (Inr info, s') \<and> vp_disks s' = vp_disks s
     \<and> oi_size info = of_nat (length data) \<and> fst (get_object E b k s') = Inr (data, info)"
proof -
  obtain s' c e where put: "put_object_stream E b k body opts None (Some len) s = (Inr (small_info (px_libs E) opts (px_now E) b k data), s')"
    and s': "vp_disks s' = vp_disks s" "vp_write_cache s' = Some c" "dm_get (px_dash E) (b, k) (wc_entries c) = Some e"
    and e: "e = small_entry E (vp_local_node_id s) opts r data shards (small_metas (px_libs E) opts (px_now E) ec r data shards)"
    by (rule small_put_cached [OF ok _ chk body len takes]) (use good in auto)
  have "check_object E s' b k None = Inr ()" unfolding check_object_same [OF s'(1)] by (rule chk)
  note get = get_object_cached(1) [OF this s'(2,3)]
  note d = small_entry_data [OF takes chk code size e]
  have "entry_info b k e = small_info (px_libs E) opts (px_now E) b k data"
    by (simp add: e small_entry_def entry_info_def small_info_def put_info_def)
  then show ?thesis using put s'(1) get d(2) by (auto simp: small_info_def put_info_def)
qed

theorem cached_put_is_read_back_witness:
  "\<exists>info s'. put_object_stream null_env ''bk'' ''k'' [Inr [1, 2], Inr [3]] striped_opts None (Some 3) two_pool = (Inr info, s')
     \<and> fst (get_object null_env ''bk'' ''k'' s') = Inr ([1, 2, 3], info)"
proof -
  have b: "collect_body [Inr [1, 2], Inr [3]] [] = Inr [1, 2, 3]" and l: "3 \<le> LOG_THRESHOLD" by (simp_all add: LOG_THRESHOLD_def)
  show ?thesis using cached_put_is_read_back [OF null_dash_ok two_pool_good two_pool_check b l two_pool_takes] by auto
qed

text \<open>C19: the streamed read of the same object sends the shards whole, so that the padding of the last
  one follows the bytes of the object; the length it announces is that of the object alone.\<close>

theorem streamed_cached_object_is_padded:
  assumes ok: "dash_ok (px_dash E) good" and good: "\<forall>c. vp_write_cache s = Some c \<longrightarrow> good (wc_entries c)"
    and chk: "check_object E s b k None = Inr ()" and body: "collect_body body [] = Inr data" and len: "len \<le> LOG_THRESHOLD"
    and takes: "cache_takes E s b k opts data ec shards r" and many: "\<not> (fst ec = 1 \<and> snd ec = 0)"
    and code: "0 < snd ec \<longrightarrow> (\<exists>codec. l_reed_solomon (px_libs E) (fst ec) (snd ec) = Some codec \<and> rs_ok (fst ec) (snd ec) codec)"
    and size: "length data < 2 ^ 64"
  shows "\<exists>info info' s' items. put_object_stream E b k body opts None (Some len) s = (Inr info, s')
     \<and> fst (get_object_stream E b k s') = Inr (info', map Inr items) \<and> oi_size info' = of_nat (length data)
     \<and> concat items = data @ replicate (fst ec * shard_size (length data) (fst ec) - length data) 0"
proof -
  obtain s' c e where put: "put_object_stream E b k body opts None (Some len) s = (Inr (small_info (px_libs E) opts (px_now E) b k data), s')"
    and s': "vp_disks s' = vp_disks s" "vp_write_cache s' = Some c" "dm_get (px_dash E) (b, k) (wc_entries c) = Some e"
    and e: "e = small_entry E (vp_local_node_id s) opts r data shards (small_metas (px_libs E) opts (px_now E) ec r data shards)"
    by (rule small_put_cached [OF ok _ chk body len takes]) (use good in auto)
  have "check_object E s' b k None = Inr ()" unfolding check_object_same [OF s'(1)] by (rule chk)
  note get = get_object_cached(2) [OF this s'(2,3)]
  have "small_shards (px_libs E) (fst ec) (snd ec) data = Inr shards" and rec: "resolve_ec E s b opts = Inr ec" using takes by (simp_all add: cache_takes_def)
  moreover have "vp_disks s \<noteq> []" by (rule bucket_present_disks) (use chk in \<open>auto simp: check_object_def res_bind_Inr_iff\<close>)
  note dn = resolve_ec_bounds(1) [OF rec this]
  ultimately have "take (fst ec) shards = split_data data (fst ec)" using small_shards_data(3) [OF _ dn code] many by simp
  then have "concat (take (fst ec) shards) = data @ replicate (fst ec * shard_size (length data) (fst ec) - length data) 0"
    using shard_size_bounds [OF dn, of data] by (simp add: split_data_pieces concat_pieces resize_def)
  moreover have "we_shards e = shards" "oi_size (entry_info b k e) = of_nat (length data)"
    by (simp_all add: e small_entry_def entry_info_def)
  ultimately show ?thesis using put get small_entry_data(1) [OF takes chk code size e] by auto
qed

theorem streamed_cached_object_is_padded_witness:
  "\<exists>info info' s' items. put_object_stream null_env ''bk'' ''k'' [Inr [1, 2], Inr [3]] striped_opts None (Some 3) two_pool = (Inr info, s')
     \<and> fst (get_object_stream null_env ''bk'' ''k'' s') = Inr (info', map Inr items) \<and> oi_size info' = 3 \<and> concat items = [1, 2, 3, 0]"
proof -
  have b: "collect_body [Inr [1, 2], Inr [3]] [] = Inr [1, 2, 3]" and l: "3 \<le> LOG_THRESHOLD" by (simp_all add: LOG_THRESHOLD_def)
  have "fst (2 :: nat, 0 :: nat) * shard_size (length [1 :: u8, 2, 3]) (fst (2, 0 :: nat)) - length [1 :: u8, 2, 3] = 1"
    by (simp add: shard_size_def div_ceil_def)
  then show ?thesis using streamed_cached_object_is_padded [OF null_dash_ok two_pool_good two_pool_check b l two_pool_takes] by auto
qed

section \<open>Writes that pass by the cache\<close>

text \<open>C18: an entry in the write cache hides every later write of the object that does not go through the
  cache: after a successful \<open>put_object\<close> the buffered read still returns the old bytes, and the
  streamed read the old shards.\<close>

theorem cached_entry_hides_overwrite:
  assumes "vp_write_cache s = Some c" and "dm_get (px_dash E) (b, k) (wc_entries c) = Some e"
    and put: "put_object E b k data opts s = (Inr info, s')" and "bucket_present E s' b = Inr ()"
  shows "fst (get_object E b k s') = res_bind (entry_data e) (\<lambda>old. Inr (old, entry_info b k e))
     \<and> fst (get_object_stream E b k s') = res_bind (entry_data_n e) (\<lambda>n. Inr (entry_info b k e, map Inr (take n (we_shards e))))"
proof -
  have "vp_write_cache s' = Some c"
    using put assms(1) by (auto simp: put_object_def pool_put_object_def then_do_Inr_iff pool_encode_def split: prod.splits sum.splits)
  moreover have "check_object E s' b k None = Inr ()"
    using put assms(4) by (auto simp: put_object_def pool_put_object_def then_do_Inr_iff check_object_def res_bind_Inr_iff)
  ultimately show ?thesis using get_object_cached [of E s' b k c e] assms(2) by simp
qed

text \<open>A single disk whose write cache holds an older object.\<close>

definition one_planner :: placement_planner where
  "one_planner = pool_planner\<lparr> pp_disks := [\<lparr> pv_backend_index = 0, pv_node_id = ''local'', pv_volume_id = ''vol-0'' \<rparr>] \<rparr>"

definition one_pool :: "(unit, (cache_key \<times> read_entry) list, (cache_key \<times> write_entry) list) volume_pool" where
  "one_pool = two_pool\<lparr> vp_disks := [()], vp_placement := pp_disks one_planner,
     vp_write_cache := Some ((wc_new list_dash 10000)\<lparr> wc_entries := [((''bk'', ''k''), demo_write_entry)] \<rparr>) \<rparr>"

lemma one_plan: "\<exists>r. plan (\<lambda>_. []) one_planner ''bk'' ''k'' 1 0 = Inr r \<and> map ps_backend_index (pr_shards r) = [0]"
proof -
  have "map_sum (\<lambda>_. ()) (\<lambda>r. map ps_backend_index (pr_shards r)) (plan (\<lambda>_. []) one_planner ''bk'' ''k'' 1 0) = Inr [0]" by code_simp
  then show ?thesis by (cases "plan (\<lambda>_. []) one_planner ''bk'' ''k'' 1 0") simp_all
qed

lemma one_pool_check: "check_object null_env one_pool ''bk'' ''k'' None = Inr ()"
  using sample_names(1,2)
  by (simp add: check_object_def bucket_present_def pool_head_bucket_def null_env_def null_ops_def one_pool_def)

theorem cached_entry_hides_overwrite_witness:
  "\<exists>info s'. put_object null_env ''bk'' ''k'' [9] demo_opts one_pool = (Inr info, s')
     \<and> fst (get_object null_env ''bk'' ''k'' s') = Inr ([1], entry_info ''bk'' ''k'' demo_write_entry)"
proof -
  obtain r where r: "plan (\<lambda>_. []) one_planner ''bk'' ''k'' 1 0 = Inr r" "map ps_backend_index (pr_shards r) = [0]"
    using one_plan by auto
  have pl: "pool_planner_of one_pool = one_planner" by (simp add: pool_planner_of_def one_pool_def two_pool_def one_planner_def pool_planner_def)
  have h: "l_placement_hash demo_libs = (\<lambda>_. [])" by (simp add: demo_libs_def)
  have ec: "resolve_ec null_env one_pool ''bk'' demo_opts = Inr (1, 0)"
    by (simp add: resolve_ec_def demo_opts_def bucket_ec_def one_pool_def null_env_def null_ops_def default_settings_def ftt_to_ec_def default_ftt_def)
  have pm: "\<not> PIPELINE_MIN_BYTES \<le> Suc 0" by (simp add: PIPELINE_MIN_BYTES_def)
  have ops: "bk_open_shard_writer null_ops = (\<lambda>_ _ _ d. (Inr (), d))" "bk_write_chunk null_ops = (\<lambda>_ w d. (Inr w, d))"
    "bk_finalize null_ops = (\<lambda>_ _ d. (Inr (), d))" by (simp_all add: null_ops_def)
  have one: "encode_and_write_1plus0_serial demo_libs null_ops 5 ''bk'' ''k'' [Inr [9]] demo_opts None r ()
      = (Inr (put_info demo_libs demo_opts 5 None ''bk'' ''k'' [9]), ())"
    by (simp add: encode_and_write_1plus0_serial_def finish_1plus0_def ops)
  have enc: "encode_and_write demo_libs null_ops 0 5 one_planner 1 0 ''bk'' ''k'' [Inr [9]] demo_opts None (Some 1) [()]
      = (Inr (put_info demo_libs demo_opts 5 None ''bk'' ''k'' [9], False), [()])"
    unfolding encode_and_write_def h r sum.case Let_def by (simp add: pm on_disk_def one)
  have env: "px_libs null_env = demo_libs" "px_ops null_env = null_ops" "px_lag null_env = 0" "px_now null_env = 5" "vp_disks one_pool = [()]"
    by (simp_all add: null_env_def one_pool_def)
  obtain info s' where put: "put_object null_env ''bk'' ''k'' [9] demo_opts one_pool = (Inr info, s')" and d: "vp_disks s' = [()]"
    using one_pool_check ec enc by (simp add: put_object_def pool_put_object_def pool_encode_def pl env)
  have c: "vp_write_cache one_pool = Some ((wc_new list_dash 10000)\<lparr> wc_entries := [((''bk'', ''k''), demo_write_entry)] \<rparr>)"
    by (simp add: one_pool_def)
  have g: "dm_get (px_dash null_env) (''bk'', ''k'') (wc_entries ((wc_new list_dash 10000)\<lparr> wc_entries := [((''bk'', ''k''), demo_write_entry)] \<rparr>)) = Some demo_write_entry"
    by (simp add: null_env_def list_dash_def)
  have "bucket_present null_env s' ''bk'' = Inr ()"
    using sample_names(1) d by (simp add: bucket_present_def pool_head_bucket_def null_env_def null_ops_def)
  moreover have "entry_data demo_write_entry = Inr [1]" by (simp add: entry_data_def entry_data_n_def demo_write_entry_def)
  ultimately show ?thesis using cached_entry_hides_overwrite [OF c g put] put by auto
qed

end
