(* ===== verification/Internode_Auth.thy ===== *)
theory Internode_Auth
  imports Prelude
begin

text \<open>
  The tokens and the clock check of the requests between nodes (\<open>src/storage/internode_auth.rs\<close>).
  The JWT library is a parameter; \<open>jwt_ok\<close> states what its documentation promises: a token
  decodes under the secret it was signed with, to the claims it was made from, until its expiry
  time and the leeway of the validation have passed.  A reading of the clock is the number of
  nanoseconds since the epoch, or nothing when the clock is set before the epoch.
\<close>

section \<open>Tokens\<close>

record claims =
  cl_access_key :: string
  cl_iat :: u64
  cl_exp :: u64

record jwt_lib =
  jwt_encode :: "claims \<Rightarrow> string \<Rightarrow> string option"
  jwt_decode :: "nat \<Rightarrow> string \<Rightarrow> string \<Rightarrow> claims option"

definition TOKEN_LIFETIME_SECS :: u64 where "TOKEN_LIFETIME_SECS = 900"

definition MAX_CLOCK_SKEW_SECS :: u64 where "MAX_CLOCK_SKEW_SECS = 900"

definition clock_secs :: "nat \<Rightarrow> nat" where
  "clock_secs nanos = nanos div 1000000000"

definition sign_token :: "jwt_lib \<Rightarrow> nat option \<Rightarrow> string \<Rightarrow> string \<Rightarrow> string + string" where
  "sign_token J clk access_key secret_key = (case clk of
      None \<Rightarrow> Inl ''system clock before epoch''
    | Some nanos \<Rightarrow>
        (let now = of_nat (clock_secs nanos);
             claims = \<lparr> cl_access_key = access_key, cl_iat = now, cl_exp = now + TOKEN_LIFETIME_SECS \<rparr>
         in case jwt_encode J claims secret_key of None \<Rightarrow> Inl ''jwt sign'' | Some token \<Rightarrow> Inr token))"

text \<open>The library reads the clock itself when it compares the expiry time.\<close>

definition validate_token :: "jwt_lib \<Rightarrow> nat \<Rightarrow> string \<Rightarrow> string \<Rightarrow> string \<Rightarrow> string + unit" where
  "validate_token J nanos token expected_access_key secret_key =
     (case jwt_decode J (clock_secs nanos) secret_key token of
        None \<Rightarrow> Inl ''jwt validate''
      | Some data \<Rightarrow> if cl_access_key data \<noteq> expected_access_key then Inl ''access key mismatch'' else Inr ())"

section \<open>Clock skew\<close>

definition validate_clock_skew :: "nat option \<Rightarrow> string \<Rightarrow> string + unit" where
  "validate_clock_skew clk remote_nanos = (case parse_u64 remote_nanos of
      None \<Rightarrow> Inl ''invalid timestamp''
    | Some remote \<Rightarrow> (case clk of
        None \<Rightarrow> Inl ''system clock before epoch''
      | Some nanos \<Rightarrow>
          (let local = (of_nat nanos :: u64);
               diff = (if remote > local then remote - local else local - remote);
               diff_secs = diff div 1000000000
           in if diff_secs > MAX_CLOCK_SKEW_SECS then Inl ''clock skew'' else Inr ())))"

definition current_time_nanos :: "nat option \<Rightarrow> string" where
  "current_time_nanos clk = (case clk of Some nanos \<Rightarrow> show_nat nanos | None \<Rightarrow> ''0'')"

section \<open>What is accepted\<close>

definition jwt_ok :: "jwt_lib \<Rightarrow> nat \<Rightarrow> bool" where
  "jwt_ok J leeway \<longleftrightarrow> (\<forall>c k. \<exists>token. jwt_encode J c k = Some token
     \<and> (\<forall>now k'. jwt_decode J now k' token = (if k' = k \<and> now \<le> unat (cl_exp c) + leeway then Some c else None)))"

text \<open>Words and their distance.\<close>

lemma word_distance: "unat (if r > l then r - l else l - r) = (if l < r then unat r - unat l else unat l - unat (r :: u64))"
  by (simp add: unat_sub word_less_nat_alt word_le_nat_alt)

lemma skew_test: "(d :: u64) div 1000000000 > 900 \<longleftrightarrow> 901 * 1000000000 \<le> unat d"
proof -
  have "unat (d div 1000000000) = unat d div 1000000000" by (simp add: unat_div)
  then show ?thesis by (simp add: word_less_nat_alt less_eq_div_iff_mult_less_eq Suc_le_eq [symmetric])
qed

end
