(* ===== verification/Cluster.thy ===== *)
theory Cluster
  imports File_Tier Internode_Auth "HOL-Library.List_Lexorder" "HOL-Library.Char_ord"
begin

text \<open>
  The manager of the cluster's service state (\<open>src/cluster/mod.rs\<close>): it probes the configured
  nodes, decides whether this node may serve (\<open>Ready\<close>) or is cut off (\<open>Fenced\<close>), keeps the
  topology it shows to the administrator, and saves all of it in a file on every disk.  The
  manager's state and the files are passed through; the probes, the clock and the serializer are
  parameters.
\<close>

section \<open>State\<close>

record cluster_config =
  cc_node_id :: string
  cc_advertise_s3 :: string
  cc_advertise_cluster :: string
  cc_nodes :: "string list"
  cc_access_key :: string
  cc_secret_key :: string
  cc_no_auth :: bool
  cc_disk_paths :: "path list"

datatype service_state = Joining | SyncingEpoch | Fenced | Ready

record cluster_summary =
  cs_enabled :: bool
  cs_cluster_id :: string
  cs_node_id :: string
  cs_topology_hash :: "string option"
  cs_state :: service_state
  cs_epoch_id :: u64
  cs_leader_id :: string
  cs_node_count :: nat
  cs_voter_count :: nat
  cs_reachable_voters :: nat
  cs_quorum :: nat
  cs_fenced_reason :: "string option"

definition summary_fenced :: "string \<Rightarrow> cluster_summary" where
  "summary_fenced reason = \<lparr> cs_enabled = False, cs_cluster_id = [], cs_node_id = [], cs_topology_hash = None,
     cs_state = Fenced, cs_epoch_id = 0, cs_leader_id = [], cs_node_count = 0, cs_voter_count = 0,
     cs_reachable_voters = 0, cs_quorum = 0, cs_fenced_reason = Some reason \<rparr>"

record cluster_node_status =
  cn_node_id :: string
  cn_advertise_s3 :: string
  cn_advertise_cluster :: string
  cn_state :: service_state
  cn_voter :: bool
  cn_reachable :: bool
  cn_total_disks :: nat
  cn_last_heartbeat :: u64

record cluster_volume_status =
  cv_volume_id :: string
  cv_node_id :: string
  cv_path :: string

record cluster_epoch =
  ce_epoch_id :: u64
  ce_leader_id :: string
  ce_committed_at :: u64
  ce_voter_count :: nat
  ce_reachable_voters :: nat

record cluster_topology =
  ct_cluster_id :: string
  ct_epoch :: cluster_epoch
  ct_nodes :: "cluster_node_status list"
  ct_volumes :: "cluster_volume_status list"

definition topology_default :: cluster_topology where
  "topology_default = \<lparr> ct_cluster_id = [],
     ct_epoch = \<lparr> ce_epoch_id = 0, ce_leader_id = [], ce_committed_at = 0, ce_voter_count = 0, ce_reachable_voters = 0 \<rparr>,
     ct_nodes = [], ct_volumes = [] \<rparr>"

record cluster_state =
  ps_summary :: cluster_summary
  ps_topology :: cluster_topology
  ps_epochs :: "cluster_epoch list"

text \<open>\<open>cm_poisoned\<close>: a task panicked while it held the lock of the state.\<close>

record cluster_manager =
  cm_config :: cluster_config
  cm_state :: cluster_state
  cm_poisoned :: bool

text \<open>
  \<open>cx_sha8\<close> is the hexadecimal text of the first eight bytes of SHA-256; \<open>cx_get\<close> is an HTTP GET
  of a status page with its headers, answered by a summary or not at all; \<open>cx_clock\<close> numbers the
  readings of the clock within one operation.
\<close>

record cluster_env =
  cx_sha8 :: "string \<Rightarrow> string"
  cx_display :: "path \<Rightarrow> string"
  cx_enc :: "cluster_state \<Rightarrow> bytes"
  cx_dec :: "bytes \<Rightarrow> cluster_state option"
  cx_jwt :: jwt_lib
  cx_nanos :: "nat option"
  cx_clock :: "nat \<Rightarrow> u64"
  cx_get :: "string \<Rightarrow> (string \<times> string) list \<Rightarrow> cluster_summary option"

section \<open>Names\<close>

definition starts_with_text :: "string \<Rightarrow> string \<Rightarrow> bool" where
  "starts_with_text p s \<longleftrightarrow> strip_prefix p s \<noteq> None"

definition normalize_endpoint :: "string \<Rightarrow> string" where
  "normalize_endpoint endpoint = (let trimmed = trim_end_slashes (trim endpoint) in
     if starts_with_text ''http://'' trimmed \<or> starts_with_text ''https://'' trimmed then trimmed
     else if trimmed = [] then trimmed else ''http://'' @ trimmed)"

fun normalize_nodes_from :: "string set \<Rightarrow> string list \<Rightarrow> string list" where
  "normalize_nodes_from seen [] = []"
| "normalize_nodes_from seen (node # nodes) = (let value = normalize_endpoint node in
     if value \<in> seen then normalize_nodes_from seen nodes
     else value # normalize_nodes_from (insert value seen) nodes)"

definition normalize_nodes :: "string list \<Rightarrow> string list" where
  "normalize_nodes nodes = normalize_nodes_from {} nodes"

definition normalize_id :: "string \<Rightarrow> string" where
  "normalize_id value = (let trimmed = trim value in if trimmed = [] then ''local'' else trimmed)"

definition cluster_id_for :: "cluster_env \<Rightarrow> string \<Rightarrow> string list \<Rightarrow> string" where
  "cluster_id_for E node_id nodes = ''abixio-'' @ cx_sha8 E (node_id @ concat nodes)"

definition volume_id_for :: "cluster_env \<Rightarrow> string \<Rightarrow> path \<Rightarrow> string" where
  "volume_id_for E node_id p = ''vol-'' @ cx_sha8 E (node_id @ cx_display E p)"

text \<open>The first element of the ordered set of the ids.\<close>

definition elect_leader :: "string \<Rightarrow> (string \<times> cluster_summary) list \<Rightarrow> string" where
  "elect_leader local_node_id peer_summaries = fold (\<lambda>p m. min (cs_node_id (snd p)) m) peer_summaries local_node_id"

section \<open>The state file\<close>

datatype cluster_error = PoisonedLock | CreateStateDir path | WriteState path | ReadState path | ParseState path

definition CLUSTER_STATE_FILE :: "path \<Rightarrow> path" where
  "CLUSTER_STATE_FILE disk = push (push disk ''.abixio.sys'') ''cluster.json''"

fun load_persisted_state :: "cluster_env \<Rightarrow> files \<Rightarrow> path list \<Rightarrow> cluster_error + cluster_state option" where
  "load_persisted_state E fs [] = Inr None"
| "load_persisted_state E fs (disk # disks) =
     (let p = CLUSTER_STATE_FILE disk in
      if map_of fs p = None then load_persisted_state E fs disks
      else case fs_read fs p of None \<Rightarrow> Inl (ReadState p)
        | Some bytes \<Rightarrow> (case cx_dec E bytes of None \<Rightarrow> Inl (ParseState p) | Some st \<Rightarrow> Inr (Some st)))"

fun persist_disks :: "bytes \<Rightarrow> path list \<Rightarrow> files \<Rightarrow> (cluster_error + unit) \<times> files" where
  "persist_disks bytes [] fs = (Inr (), fs)"
| "persist_disks bytes (disk # disks) fs =
     (let p = CLUSTER_STATE_FILE disk in
      case create_dir_all (butlast p) fs of
        (Inl e, fs1) \<Rightarrow> (Inl (CreateStateDir (butlast p)), fs1)
      | (Inr u, fs1) \<Rightarrow> (case fs_write p bytes fs1 of
            (Inl e, fs2) \<Rightarrow> (Inl (WriteState p), fs2)
          | (Inr u, fs2) \<Rightarrow> persist_disks bytes disks fs2))"

definition persist_state :: "cluster_env \<Rightarrow> cluster_manager \<Rightarrow> files \<Rightarrow> (cluster_error + unit) \<times> files" where
  "persist_state E m fs = (if cm_poisoned m then (Inl PoisonedLock, fs)
     else persist_disks (cx_enc E (cm_state m)) (cc_disk_paths (cm_config m)) fs)"

section \<open>Queries\<close>

definition cluster_enabled :: "cluster_manager \<Rightarrow> bool" where
  "cluster_enabled m \<longleftrightarrow> cc_nodes (cm_config m) \<noteq> []"

definition current_epoch_id :: u64 where "current_epoch_id = 1"

definition summary :: "cluster_manager \<Rightarrow> cluster_summary" where
  "summary m = (if cm_poisoned m then summary_fenced ''lock poisoned'' else ps_summary (cm_state m))"

definition topology_hash :: "cluster_manager \<Rightarrow> string option" where
  "topology_hash m = cs_topology_hash (summary m)"

definition blocks_data_plane :: "cluster_manager \<Rightarrow> bool" where
  "blocks_data_plane m \<longleftrightarrow> cs_state (summary m) \<noteq> Ready"

definition allows_mutation :: "cluster_manager \<Rightarrow> bool" where
  "allows_mutation m \<longleftrightarrow> cs_state (summary m) = Ready"

definition topology :: "cluster_manager \<Rightarrow> cluster_topology" where
  "topology m = (if cm_poisoned m then topology_default else ps_topology (cm_state m))"

definition status_response :: "cluster_manager \<Rightarrow> cluster_summary \<times> cluster_topology" where
  "status_response m = (summary m, topology m)"

definition cluster_nodes :: "cluster_manager \<Rightarrow> cluster_node_status list" where
  "cluster_nodes m = (if cm_poisoned m then [] else ct_nodes (ps_topology (cm_state m)))"

definition epochs :: "cluster_manager \<Rightarrow> cluster_epoch list" where
  "epochs m = (if cm_poisoned m then [] else ps_epochs (cm_state m))"

section \<open>Changes of state\<close>

text \<open>\<open>iter_mut().find(..)\<close> followed by a change of the node found.\<close>

fun update_first :: "('a \<Rightarrow> bool) \<Rightarrow> ('a \<Rightarrow> 'a) \<Rightarrow> 'a list \<Rightarrow> 'a list" where
  "update_first P f [] = []"
| "update_first P f (x # xs) = (if P x then f x # xs else x # update_first P f xs)"

definition on_local_node :: "cluster_config \<Rightarrow> (cluster_node_status \<Rightarrow> cluster_node_status) \<Rightarrow> cluster_node_status list \<Rightarrow> cluster_node_status list" where
  "on_local_node cfg = update_first (\<lambda>node. cn_node_id node = cc_node_id cfg)"

definition set_first_epoch :: "cluster_epoch \<Rightarrow> cluster_epoch list \<Rightarrow> cluster_epoch list" where
  "set_first_epoch e es = (case es of [] \<Rightarrow> [e] | _ # rest \<Rightarrow> e # rest)"

text \<open>A write through the lock, then \<open>let _ = self.persist_state()\<close>; a poisoned lock stops both.\<close>

definition commit :: "cluster_env \<Rightarrow> (cluster_state \<Rightarrow> cluster_state) \<Rightarrow> cluster_manager \<Rightarrow> files \<Rightarrow> cluster_manager \<times> files" where
  "commit E f m fs = (if cm_poisoned m then (m, fs)
     else let m = m\<lparr> cm_state := f (cm_state m) \<rparr> in (m, snd (persist_state E m fs)))"

definition force_fence :: "cluster_env \<Rightarrow> string \<Rightarrow> cluster_manager \<Rightarrow> files \<Rightarrow> cluster_manager \<times> files" where
  "force_fence E reason m = commit E (\<lambda>st. st\<lparr>
       ps_summary := (ps_summary st)\<lparr> cs_state := Fenced, cs_fenced_reason := Some reason \<rparr>,
       ps_topology := (ps_topology st)\<lparr> ct_nodes := on_local_node (cm_config m) (\<lambda>n. n\<lparr> cn_state := Fenced \<rparr>) (ct_nodes (ps_topology st)) \<rparr> \<rparr>) m"

definition quorum_lost :: "nat \<Rightarrow> nat \<Rightarrow> string" where
  "quorum_lost reachable_voters quorum =
     ''cluster quorum lost: reachable_voters='' @ show_nat reachable_voters @ '' quorum='' @ show_nat quorum"

definition install_topology ::
  "cluster_env \<Rightarrow> u64 \<Rightarrow> string \<Rightarrow> cluster_node_status list \<Rightarrow> cluster_volume_status list \<Rightarrow> cluster_manager \<Rightarrow> files \<Rightarrow> cluster_manager \<times> files" where
  "install_topology E epoch_id leader_id nodes volumes = commit E (\<lambda>st.
     let committed_at = cx_clock E 0;
         voter_count = max (length (filter cn_voter nodes)) 1;
         reachable_voters = max (length (filter (\<lambda>n. cn_voter n \<and> cn_reachable n) nodes)) 1;
         quorum = voter_count div 2 + 1;
         epoch = \<lparr> ce_epoch_id = epoch_id, ce_leader_id = leader_id, ce_committed_at = committed_at,
           ce_voter_count = voter_count, ce_reachable_voters = reachable_voters \<rparr>
     in \<lparr> ps_summary = (ps_summary st)\<lparr>
            cs_state := (if reachable_voters \<ge> quorum then Ready else Fenced),
            cs_epoch_id := epoch_id, cs_leader_id := leader_id, cs_node_count := length nodes - 1,
            cs_voter_count := voter_count, cs_reachable_voters := reachable_voters, cs_quorum := quorum,
            cs_fenced_reason := (if reachable_voters \<ge> quorum then None else Some (quorum_lost reachable_voters quorum)) \<rparr>,
          ps_topology = \<lparr> ct_cluster_id = cs_cluster_id (ps_summary st), ct_epoch = epoch, ct_nodes = nodes, ct_volumes = volumes \<rparr>,
          ps_epochs = set_first_epoch epoch (ps_epochs st) \<rparr>)"

definition is_self :: "cluster_config \<Rightarrow> string \<Rightarrow> bool" where
  "is_self cfg remote \<longleftrightarrow> trim_end_slashes remote = trim_end_slashes (cc_advertise_s3 cfg)
     \<or> trim_end_slashes remote = trim_end_slashes (cc_advertise_cluster cfg)"

definition remote_node :: "cluster_env \<Rightarrow> (string \<times> cluster_summary) list \<Rightarrow> nat \<Rightarrow> string \<Rightarrow> cluster_node_status" where
  "remote_node E probed i remote = (let status = map_of probed remote in
     \<lparr> cn_node_id = (case status of Some s \<Rightarrow> cs_node_id s | None \<Rightarrow> remote),
       cn_advertise_s3 = (case status of Some s \<Rightarrow> cs_node_id s | None \<Rightarrow> []),
       cn_advertise_cluster = remote,
       cn_state = (case status of Some s \<Rightarrow> cs_state s | None \<Rightarrow> Joining),
       cn_voter = True, cn_reachable = (status \<noteq> None), cn_total_disks = 0, cn_last_heartbeat = cx_clock E i \<rparr>)"

definition build_nodes ::
  "cluster_env \<Rightarrow> cluster_config \<Rightarrow> service_state \<Rightarrow> (string \<times> cluster_summary) list option \<Rightarrow> cluster_node_status list" where
  "build_nodes E cfg local_state peer_summaries =
     (let probed = (case peer_summaries of Some ps \<Rightarrow> ps | None \<Rightarrow> []) in
      \<lparr> cn_node_id = cc_node_id cfg, cn_advertise_s3 = cc_advertise_s3 cfg, cn_advertise_cluster = cc_advertise_cluster cfg,
        cn_state = local_state, cn_voter = True, cn_reachable = True, cn_total_disks = length (cc_disk_paths cfg),
        cn_last_heartbeat = cx_clock E 1 \<rparr>
      # map (\<lambda>(i, remote). remote_node E probed i remote)
          (enumerate 2 (filter (\<lambda>remote. \<not> is_self cfg remote) (cc_nodes cfg))))"

definition mark_ready ::
  "cluster_env \<Rightarrow> u64 \<Rightarrow> string \<Rightarrow> nat \<Rightarrow> (string \<times> cluster_summary) list option \<Rightarrow> cluster_manager \<Rightarrow> files \<Rightarrow> cluster_manager \<times> files" where
  "mark_ready E epoch_id leader_id reachable_voters peer_summaries m = commit E (\<lambda>st.
     let committed_at = cx_clock E 0;
         voter_count = length (cc_nodes (cm_config m));
         epoch = \<lparr> ce_epoch_id = epoch_id, ce_leader_id = leader_id, ce_committed_at = committed_at,
           ce_voter_count = voter_count, ce_reachable_voters = reachable_voters \<rparr>
     in \<lparr> ps_summary = (ps_summary st)\<lparr> cs_state := Ready, cs_epoch_id := epoch_id, cs_leader_id := leader_id,
            cs_voter_count := voter_count, cs_reachable_voters := reachable_voters, cs_quorum := voter_count div 2 + 1,
            cs_fenced_reason := None \<rparr>,
          ps_topology = (ps_topology st)\<lparr> ct_epoch := epoch,
            ct_nodes := on_local_node (cm_config m) (\<lambda>n. n\<lparr> cn_state := Ready, cn_reachable := True, cn_last_heartbeat := committed_at \<rparr>)
              (build_nodes E (cm_config m) Ready peer_summaries) \<rparr>,
          ps_epochs = set_first_epoch epoch (ps_epochs st) \<rparr>) m"

definition mark_fenced ::
  "cluster_env \<Rightarrow> u64 \<Rightarrow> string \<Rightarrow> nat \<Rightarrow> string option \<Rightarrow> cluster_manager \<Rightarrow> files \<Rightarrow> cluster_manager \<times> files" where
  "mark_fenced E epoch_id leader_id reachable_voters reason m = commit E (\<lambda>st.
     let voter_count = length (cc_nodes (cm_config m)) in
     st\<lparr> ps_summary := (ps_summary st)\<lparr> cs_state := Fenced, cs_epoch_id := epoch_id, cs_leader_id := leader_id,
           cs_voter_count := voter_count, cs_reachable_voters := reachable_voters, cs_quorum := voter_count div 2 + 1,
           cs_fenced_reason := reason \<rparr>,
         ps_topology := (ps_topology st)\<lparr>
           ct_nodes := on_local_node (cm_config m)
             (\<lambda>n. n\<lparr> cn_state := Fenced, cn_reachable := True,
                cn_last_heartbeat := cx_clock E (length (filter (\<lambda>r. \<not> is_self (cm_config m) r) (cc_nodes (cm_config m))) + 2) \<rparr>)
             (build_nodes E (cm_config m) Fenced None) \<rparr> \<rparr>) m"

section \<open>Probing the nodes\<close>

definition auth_headers :: "cluster_env \<Rightarrow> cluster_config \<Rightarrow> (string \<times> string) list" where
  "auth_headers E cfg = (if cc_no_auth cfg then []
     else case sign_token (cx_jwt E) (cx_nanos E) (cc_access_key cfg) (cc_secret_key cfg) of
       Inl e \<Rightarrow> []
     | Inr token \<Rightarrow> [(''authorization'', ''Bearer '' @ token), (''x-abixio-time'', current_time_nanos (cx_nanos E))])"

definition probe :: "cluster_env \<Rightarrow> cluster_manager \<Rightarrow> string \<Rightarrow> (string \<times> cluster_summary) list" where
  "probe E m peer = (case cx_get E (trim_end_slashes peer @ ''/_admin/cluster/status'') (auth_headers E (cm_config m)) of
      None \<Rightarrow> []
    | Some s \<Rightarrow> if cs_cluster_id s = cs_cluster_id (summary m) then [(peer, s)] else [])"

definition fetch_peer_summaries :: "cluster_env \<Rightarrow> cluster_manager \<Rightarrow> (string \<times> cluster_summary) list" where
  "fetch_peer_summaries E m = concat (map (probe E m) (cc_nodes (cm_config m)))"

definition refresh_from_nodes :: "cluster_env \<Rightarrow> cluster_manager \<Rightarrow> files \<Rightarrow> cluster_manager \<times> files" where
  "refresh_from_nodes E m =
     (let peer_summaries = fetch_peer_summaries E m;
          reachable_voters = 1 + length peer_summaries;
          voter_count = length (cc_nodes (cm_config m));
          quorum = voter_count div 2 + 1;
          leader_id = elect_leader (cc_node_id (cm_config m)) peer_summaries
      in if reachable_voters < quorum
         then mark_fenced E current_epoch_id leader_id reachable_voters (Some (quorum_lost reachable_voters quorum)) m
         else mark_ready E current_epoch_id leader_id reachable_voters (Some peer_summaries) m)"

section \<open>Start\<close>

definition volume_statuses :: "cluster_env \<Rightarrow> cluster_config \<Rightarrow> cluster_volume_status list" where
  "volume_statuses E cfg = map (\<lambda>p. \<lparr> cv_volume_id = volume_id_for E (cc_node_id cfg) p,
     cv_node_id = cc_node_id cfg, cv_path = cx_display E p \<rparr>) (cc_disk_paths cfg)"

definition initial_state :: "cluster_env \<Rightarrow> cluster_config \<Rightarrow> string \<Rightarrow> cluster_state" where
  "initial_state E cfg cluster_id =
     (let committed_at = cx_clock E 0;
          state = (if cc_nodes cfg = [] then Ready else SyncingEpoch);
          n = length (cc_nodes cfg);
          epoch = \<lparr> ce_epoch_id = 1, ce_leader_id = cc_node_id cfg, ce_committed_at = committed_at, ce_voter_count = n, ce_reachable_voters = 1 \<rparr>
      in \<lparr> ps_summary = \<lparr> cs_enabled = (cc_nodes cfg \<noteq> []), cs_cluster_id = cluster_id, cs_node_id = cc_node_id cfg,
             cs_topology_hash = None, cs_state = state, cs_epoch_id = 1, cs_leader_id = cc_node_id cfg, cs_node_count = n,
             cs_voter_count = n, cs_reachable_voters = 1, cs_quorum = n div 2 + 1, cs_fenced_reason = None \<rparr>,
           ps_topology = \<lparr> ct_cluster_id = cluster_id, ct_epoch = epoch,
             ct_nodes = [\<lparr> cn_node_id = cc_node_id cfg, cn_advertise_s3 = cc_advertise_s3 cfg, cn_advertise_cluster = cc_advertise_cluster cfg,
               cn_state = state, cn_voter = True, cn_reachable = True, cn_total_disks = length (cc_disk_paths cfg),
               cn_last_heartbeat = committed_at \<rparr>],
             ct_volumes = volume_statuses E cfg \<rparr>,
           ps_epochs = [epoch] \<rparr>)"

definition refresh_local_identity :: "cluster_env \<Rightarrow> cluster_manager \<Rightarrow> cluster_manager" where
  "refresh_local_identity E m = (if cm_poisoned m then m
     else let cfg = cm_config m; cluster_id = cluster_id_for E (cc_node_id cfg) (cc_nodes cfg); st = cm_state m in
       m\<lparr> cm_state := st\<lparr>
         ps_summary := (ps_summary st)\<lparr> cs_node_id := cc_node_id cfg, cs_cluster_id := cluster_id,
           cs_node_count := length (cc_nodes cfg), cs_topology_hash := None \<rparr>,
         ps_topology := (ps_topology st)\<lparr> ct_cluster_id := cluster_id, ct_volumes := volume_statuses E cfg \<rparr> \<rparr> \<rparr>)"

definition normalize_config :: "cluster_config \<Rightarrow> cluster_config" where
  "normalize_config cfg = cfg\<lparr> cc_node_id := normalize_id (cc_node_id cfg),
     cc_advertise_s3 := normalize_endpoint (cc_advertise_s3 cfg),
     cc_advertise_cluster := normalize_endpoint (cc_advertise_cluster cfg),
     cc_nodes := normalize_nodes (cc_nodes cfg) \<rparr>"

text \<open>The manager before its first save; the saved state counts only under the same cluster id.\<close>

definition started_with :: "cluster_env \<Rightarrow> cluster_config \<Rightarrow> cluster_state option \<Rightarrow> cluster_manager" where
  "started_with E cfg loaded =
     (let cluster_id = cluster_id_for E (cc_node_id cfg) (cc_nodes cfg) in
      refresh_local_identity E \<lparr> cm_config = cfg, cm_state = (case loaded of
          Some st \<Rightarrow> if cs_cluster_id (ps_summary st) = cluster_id then st else initial_state E cfg cluster_id
        | None \<Rightarrow> initial_state E cfg cluster_id), cm_poisoned = False \<rparr>)"

definition cluster_new :: "cluster_env \<Rightarrow> cluster_config \<Rightarrow> files \<Rightarrow> (cluster_error + cluster_manager) \<times> files" where
  "cluster_new E config fs =
     (let cfg = normalize_config config in
      case load_persisted_state E fs (cc_disk_paths cfg) of
        Inl e \<Rightarrow> (Inl e, fs)
      | Inr loaded \<Rightarrow>
          (let m = started_with E cfg loaded in
           if \<not> cluster_enabled m
           then (case mark_ready E current_epoch_id (cc_node_id cfg) 1 None m fs of (m, fs) \<Rightarrow> (Inr m, fs))
           else then_do (persist_state E m fs) (\<lambda>_ fs. (Inr m, fs))))"

section \<open>A node serves only with a majority\<close>

text \<open>
  The life of a node: it starts on empty disks or on those it left behind, refreshes, is fenced,
  gets a topology installed, has its lock poisoned, stops.  The environment may differ at every
  step; only the serializer stays the same.
\<close>

inductive cluster_reach :: "(cluster_state \<Rightarrow> bytes) \<Rightarrow> (bytes \<Rightarrow> cluster_state option) \<Rightarrow> cluster_manager option \<Rightarrow> files \<Rightarrow> bool"
  for enc dec where
  blank: "(\<And>d. fs_read fs (CLUSTER_STATE_FILE d) = None) \<Longrightarrow> cluster_reach enc dec None fs"
| start: "cluster_reach enc dec None fs \<Longrightarrow> cx_enc E = enc \<Longrightarrow> cx_dec E = dec \<Longrightarrow> cluster_new E cfg fs = (r, fs')
     \<Longrightarrow> cluster_reach enc dec (case r of Inl e \<Rightarrow> None | Inr m \<Rightarrow> Some m) fs'"
| refresh: "cluster_reach enc dec (Some m) fs \<Longrightarrow> cx_enc E = enc \<Longrightarrow> refresh_from_nodes E m fs = (m', fs') \<Longrightarrow> cluster_reach enc dec (Some m') fs'"
| fence: "cluster_reach enc dec (Some m) fs \<Longrightarrow> cx_enc E = enc \<Longrightarrow> force_fence E reason m fs = (m', fs') \<Longrightarrow> cluster_reach enc dec (Some m') fs'"
| install: "cluster_reach enc dec (Some m) fs \<Longrightarrow> cx_enc E = enc \<Longrightarrow> install_topology E epoch leader nodes vols m fs = (m', fs')
     \<Longrightarrow> cluster_reach enc dec (Some m') fs'"
| poison: "cluster_reach enc dec (Some m) fs \<Longrightarrow> cluster_reach enc dec (Some (m\<lparr> cm_poisoned := True \<rparr>)) fs"
| stop: "cluster_reach enc dec (Some m) fs \<Longrightarrow> cluster_reach enc dec None fs"

definition quorate :: "cluster_summary \<Rightarrow> bool" where
  "quorate s \<longleftrightarrow> cs_quorum s = cs_voter_count s div 2 + 1 \<and> (cs_state s = Ready \<longrightarrow> cs_quorum s \<le> cs_reachable_voters s)"

definition saved_quorate :: "(bytes \<Rightarrow> cluster_state option) \<Rightarrow> files \<Rightarrow> bool" where
  "saved_quorate dec fs \<longleftrightarrow> (\<forall>d bs st. fs_read fs (CLUSTER_STATE_FILE d) = Some bs \<longrightarrow> dec bs = Some st \<longrightarrow> quorate (ps_summary st))"

definition codec_sound :: "(cluster_state \<Rightarrow> bytes) \<Rightarrow> (bytes \<Rightarrow> cluster_state option) \<Rightarrow> bool" where
  "codec_sound enc dec \<longleftrightarrow> (\<forall>st st'. dec (enc st) = Some st' \<longrightarrow> ps_summary st' = ps_summary st)"

lemma saved_quorate_disks:
  assumes "saved_quorate dec fs" and "\<And>st. dec bs = Some st \<Longrightarrow> quorate (ps_summary st)"
  shows "saved_quorate dec (snd (persist_disks bs disks fs))"
  using assms(1)
proof (induction disks arbitrary: fs)
  case (Cons disk disks)
  let ?p = "CLUSTER_STATE_FILE disk"
  show ?case
  proof (cases "create_dir_all (butlast ?p) fs")
    case (Pair r fs1)
    show ?thesis
    proof (cases r)
      case (Inl e)
      with Pair Cons.prems create_dir_all_Inl [of "butlast ?p" fs e fs1] show ?thesis by (simp add: Let_def)
    next
      case (Inr u)
      have r1: "fs_read fs1 q = fs_read fs q" for q using create_dir_all_Inr(1) Pair Inr by blast
      obtain w fs2 where w: "fs_write ?p bs fs1 = (w, fs2)" by force
      show ?thesis
      proof (cases w)
        case (Inl e)
        with w have "fs2 = fs1" using fs_write_Inl by blast
        with Inl w Pair Inr Cons.prems r1 show ?thesis by (simp add: Let_def saved_quorate_def)
      next
        case w_ok: (Inr v)
        have "saved_quorate dec fs2"
          using Cons.prems assms(2) fs_write_Inr(1) [OF w [unfolded w_ok]] r1 by (auto simp: saved_quorate_def split: if_splits)
        with Cons.IH [of fs2] w w_ok Pair Inr show ?thesis by (simp add: Let_def)
      qed
    qed
  qed
qed simp

lemma saved_quorate_persist:
  assumes "codec_sound (cx_enc E) dec" "saved_quorate dec fs" "quorate (ps_summary (cm_state m))"
  shows "saved_quorate dec (snd (persist_state E m fs))"
  using assms saved_quorate_disks [of dec fs "cx_enc E (cm_state m)"]
  by (auto simp: persist_state_def codec_sound_def)

text \<open>Every change of state goes through \<open>commit\<close>.\<close>

lemma commit_quorate:
  assumes "commit E f m fs = (m', fs')" "codec_sound (cx_enc E) dec" "saved_quorate dec fs"
    and "quorate (ps_summary (cm_state m))" and "quorate (ps_summary (f (cm_state m)))"
  shows "quorate (ps_summary (cm_state m')) \<and> saved_quorate dec fs'"
  using assms saved_quorate_persist [of E dec fs "m\<lparr> cm_state := f (cm_state m) \<rparr>"]
  by (auto simp: commit_def Let_def split: if_splits)

lemma refresh_quorate:
  assumes "refresh_from_nodes E m fs = (m', fs')" "codec_sound (cx_enc E) dec" "saved_quorate dec fs" "quorate (ps_summary (cm_state m))"
  shows "quorate (ps_summary (cm_state m')) \<and> saved_quorate dec fs'"
proof (cases "1 + length (fetch_peer_summaries E m) < length (cc_nodes (cm_config m)) div 2 + 1")
  case True
  with assms(1) have "mark_fenced E current_epoch_id (elect_leader (cc_node_id (cm_config m)) (fetch_peer_summaries E m))
      (1 + length (fetch_peer_summaries E m))
      (Some (quorum_lost (1 + length (fetch_peer_summaries E m)) (length (cc_nodes (cm_config m)) div 2 + 1))) m fs = (m', fs')"
    unfolding refresh_from_nodes_def by (simp add: Let_def)
  then show ?thesis unfolding mark_fenced_def
    by (rule commit_quorate [OF _ assms(2,3,4)]) (simp add: quorate_def Let_def)
next
  case False
  with assms(1) have "mark_ready E current_epoch_id (elect_leader (cc_node_id (cm_config m)) (fetch_peer_summaries E m))
      (1 + length (fetch_peer_summaries E m)) (Some (fetch_peer_summaries E m)) m fs = (m', fs')"
    unfolding refresh_from_nodes_def by (simp add: Let_def)
  then show ?thesis unfolding mark_ready_def
    by (rule commit_quorate [OF _ assms(2,3,4)]) (use False in \<open>simp add: quorate_def Let_def\<close>)
qed

lemma fence_quorate:
  assumes "force_fence E reason m fs = (m', fs')" "codec_sound (cx_enc E) dec" "saved_quorate dec fs" "quorate (ps_summary (cm_state m))"
  shows "quorate (ps_summary (cm_state m')) \<and> saved_quorate dec fs'"
  using assms(1) unfolding force_fence_def
  by (rule commit_quorate [OF _ assms(2,3,4)]) (use assms(4) in \<open>simp add: quorate_def\<close>)

lemma install_quorate:
  assumes "install_topology E ep ld ns vs m fs = (m', fs')" "codec_sound (cx_enc E) dec" "saved_quorate dec fs" "quorate (ps_summary (cm_state m))"
  shows "quorate (ps_summary (cm_state m')) \<and> saved_quorate dec fs'"
  using assms(1) unfolding install_topology_def
  by (rule commit_quorate [OF _ assms(2,3,4)]) (simp add: quorate_def Let_def)

lemma loaded_quorate:
  "saved_quorate (cx_dec E) fs \<Longrightarrow> load_persisted_state E fs ds = Inr (Some st) \<Longrightarrow> quorate (ps_summary st)"
proof (induction ds)
  case (Cons d ds)
  then show ?case
    by (auto simp: Let_def saved_quorate_def split: if_splits option.splits)
qed simp

lemma started_enabled: "cluster_enabled (started_with E cfg loaded) \<longleftrightarrow> cc_nodes cfg \<noteq> []"
  by (simp add: cluster_enabled_def started_with_def Let_def refresh_local_identity_def)

lemma started_quorate:
  assumes "\<And>st. loaded = Some st \<Longrightarrow> quorate (ps_summary st)"
  shows "quorate (ps_summary (cm_state (started_with E cfg loaded)))"
  using assms by (auto simp: started_with_def Let_def refresh_local_identity_def quorate_def initial_state_def split: option.splits)

lemma new_quorate:
  assumes new: "cluster_new E config fs = (r, fs')" and cod: "codec_sound (cx_enc E) (cx_dec E)" and sv: "saved_quorate (cx_dec E) fs"
  shows "saved_quorate (cx_dec E) fs' \<and> (\<forall>m. r = Inr m \<longrightarrow> quorate (ps_summary (cm_state m)))"
proof (cases "load_persisted_state E fs (cc_disk_paths (normalize_config config))")
  case (Inl e)
  with new sv show ?thesis by (auto simp: cluster_new_def Let_def started_enabled)
next
  case (Inr loaded)
  let ?m = "started_with E (normalize_config config) loaded"
  have q: "quorate (ps_summary (cm_state ?m))"
    by (rule started_quorate) (use loaded_quorate [OF sv] Inr in simp)
  show ?thesis
  proof (cases "cc_nodes (normalize_config config) = []")
    case True
    obtain m fs1 where mr: "mark_ready E current_epoch_id (cc_node_id (normalize_config config)) 1 None ?m fs = (m, fs1)" by force
    have cfg: "cc_nodes (cm_config ?m) = []" using True by (simp add: started_with_def Let_def refresh_local_identity_def)
    have "quorate (ps_summary (cm_state m)) \<and> saved_quorate (cx_dec E) fs1"
      using mr unfolding mark_ready_def
      by (rule commit_quorate [OF _ cod sv q]) (simp add: quorate_def Let_def cfg)
    with new Inr True mr show ?thesis by (auto simp: cluster_new_def Let_def started_enabled)
  next
    case False
    obtain r1 fs1 where ps: "persist_state E ?m fs = (r1, fs1)" by force
    have "saved_quorate (cx_dec E) fs1" using saved_quorate_persist [OF cod sv q] ps by simp
    with new Inr False ps q show ?thesis by (cases r1) (auto simp: cluster_new_def Let_def started_enabled)
  qed
qed

lemma reach_quorate:
  assumes "cluster_reach enc dec om fs" "codec_sound enc dec"
  shows "saved_quorate dec fs \<and> (\<forall>m. om = Some m \<longrightarrow> quorate (ps_summary (cm_state m)))"
  using assms
proof (induction rule: cluster_reach.induct)
  case (start fs E cfg r fs')
  then show ?case using new_quorate [of E cfg fs r fs'] by (auto split: sum.splits)
next
  case (refresh m fs E m' fs')
  then show ?case using refresh_quorate [of E m fs m' fs' dec] by auto
next
  case (fence m fs E reason m' fs')
  then show ?case using fence_quorate [of E reason m fs m' fs' dec] by auto
next
  case (install m fs E epoch leader nodes vols m' fs')
  then show ?case using install_quorate [of E epoch leader nodes vols m fs m' fs' dec] by auto
qed (auto simp: saved_quorate_def)

text \<open>
  C6: A node lets requests change data only while the voters it counts as reachable are more than
  half of the voters it counts: in every state the node gets into, through starts on the disks it
  left behind, probes of its peers with any answers, installed topologies, fences and poisoned
  locks.  The node that serves therefore never holds a minority by its own count.
\<close>

theorem serving_needs_majority:
  assumes "cluster_reach enc dec (Some m) fs" and "codec_sound enc dec" and "allows_mutation m"
  shows "cs_voter_count (summary m) < 2 * cs_reachable_voters (summary m)"
proof -
  have "\<not> cm_poisoned m" using assms(3) by (auto simp: allows_mutation_def summary_def summary_fenced_def)
  then have s: "summary m = ps_summary (cm_state m)" by (simp add: summary_def)
  have "quorate (summary m)" using reach_quorate [OF assms(1,2)] s by simp
  with assms(3) show ?thesis by (auto simp: quorate_def allows_mutation_def)
qed

text \<open>
  A small world for the witnesses: the serializer knows one state, the hash is the identity,
  there are no disks, and only the given page answers.
\<close>

definition demo_saved :: cluster_state where
  "demo_saved = \<lparr> ps_summary = summary_fenced [], ps_topology = topology_default, ps_epochs = [] \<rparr>"

definition demo_enc :: "cluster_state \<Rightarrow> bytes" where
  "demo_enc st = (if st = demo_saved then [0] else [1])"

definition demo_dec :: "bytes \<Rightarrow> cluster_state option" where
  "demo_dec bs = (if bs = [0] then Some demo_saved else None)"

definition demo_config :: "string list \<Rightarrow> cluster_config" where
  "demo_config nodes = \<lparr> cc_node_id = ''n1'', cc_advertise_s3 = ''http://a'', cc_advertise_cluster = ''http://a'', cc_nodes = nodes,
     cc_access_key = [], cc_secret_key = [], cc_no_auth = True, cc_disk_paths = [] \<rparr>"

definition demo_answer :: "string list \<Rightarrow> cluster_summary" where
  "demo_answer nodes = (summary_fenced [])\<lparr> cs_cluster_id := ''abixio-n1'' @ concat nodes, cs_node_id := ''n1'' \<rparr>"

definition demo_cluster_env :: "string list \<Rightarrow> cluster_env" where
  "demo_cluster_env nodes = \<lparr> cx_sha8 = (\<lambda>s. s), cx_display = (\<lambda>p. []), cx_enc = demo_enc, cx_dec = demo_dec,
     cx_jwt = \<lparr> jwt_encode = (\<lambda>c k. None), jwt_decode = (\<lambda>n k t. None) \<rparr>, cx_nanos = None, cx_clock = (\<lambda>i. 7),
     cx_get = (\<lambda>url hdrs. if url = ''http://a/_admin/cluster/status'' then Some (demo_answer nodes) else None) \<rparr>"

lemma demo_codec: "codec_sound demo_enc demo_dec"
  by (auto simp: codec_sound_def demo_enc_def demo_dec_def split: if_splits)

lemma demo_config_simps [simp]:
  "cc_node_id (demo_config nodes) = ''n1''" "cc_nodes (demo_config nodes) = nodes" "cc_disk_paths (demo_config nodes) = []"
  "cc_no_auth (demo_config nodes)" "cc_advertise_s3 (demo_config nodes) = ''http://a''" "cc_advertise_cluster (demo_config nodes) = ''http://a''"
  by (simp_all add: demo_config_def)

lemma demo_env_simps [simp]:
  "cx_sha8 (demo_cluster_env nodes) = (\<lambda>s. s)" "cx_enc (demo_cluster_env nodes) = demo_enc" "cx_dec (demo_cluster_env nodes) = demo_dec"
  "cx_get (demo_cluster_env nodes) url hdrs = (if url = ''http://a/_admin/cluster/status'' then Some (demo_answer nodes) else None)"
  by (simp_all add: demo_cluster_env_def)

abbreviation three_nodes :: "string list" where
  "three_nodes \<equiv> [''http://a'', ''http://b'', ''http://c'']"

lemma demo_normal: "normalize_config (demo_config three_nodes) = demo_config three_nodes"
proof -
  have "trim ''n1'' = ''n1''" "trim ''http://a'' = ''http://a''" "trim ''http://b'' = ''http://b''" "trim ''http://c'' = ''http://c''" by code_simp+
  then show ?thesis
    by (simp add: normalize_config_def normalize_id_def normalize_endpoint_def normalize_nodes_def trim_end_slashes_def
        starts_with_text_def strip_prefix_def Let_def demo_config_def)
qed

definition demo_started :: cluster_manager where
  "demo_started = started_with (demo_cluster_env three_nodes) (demo_config three_nodes) None"

lemma demo_started_simps [simp]:
  "cm_config demo_started = demo_config three_nodes" "\<not> cm_poisoned demo_started"
  "cs_cluster_id (ps_summary (cm_state demo_started)) = ''abixio-n1'' @ concat three_nodes"
  by (simp_all add: demo_started_def started_with_def Let_def refresh_local_identity_def cluster_id_for_def)

lemma demo_new: "cluster_new (demo_cluster_env three_nodes) (demo_config three_nodes) [] = (Inr demo_started, [])"
  using started_enabled [of "demo_cluster_env three_nodes" "demo_config three_nodes" None]
  by (simp add: cluster_new_def Let_def demo_normal persist_state_def flip: demo_started_def)

lemma demo_fetch: "fetch_peer_summaries (demo_cluster_env three_nodes) demo_started = [(''http://a'', demo_answer three_nodes)]"
  by (simp add: fetch_peer_summaries_def probe_def trim_end_slashes_def summary_def demo_answer_def)

lemma demo_reach: "cluster_reach demo_enc demo_dec (Some (fst (refresh_from_nodes (demo_cluster_env three_nodes) demo_started []))) []"
proof -
  have "cluster_reach demo_enc demo_dec None []" by (rule cluster_reach.blank) simp
  from cluster_reach.start [OF this _ _ demo_new] have "cluster_reach demo_enc demo_dec (Some demo_started) []" by simp
  moreover have "refresh_from_nodes (demo_cluster_env three_nodes) demo_started []
      = (fst (refresh_from_nodes (demo_cluster_env three_nodes) demo_started []), [])"
    by (simp add: refresh_from_nodes_def demo_fetch Let_def mark_ready_def commit_def persist_state_def)
  ultimately show ?thesis using cluster_reach.refresh [of demo_enc demo_dec demo_started "[]" "demo_cluster_env three_nodes"] by simp
qed

lemma demo_serves:
  "summary (fst (refresh_from_nodes (demo_cluster_env three_nodes) demo_started []))
     = (ps_summary (cm_state demo_started))\<lparr> cs_state := Ready, cs_epoch_id := 1, cs_leader_id := ''n1'', cs_voter_count := 3,
         cs_reachable_voters := 2, cs_quorum := 2, cs_fenced_reason := None \<rparr>"
  by (simp add: refresh_from_nodes_def demo_fetch Let_def mark_ready_def commit_def summary_def current_epoch_id_def elect_leader_def demo_answer_def)

theorem serving_needs_majority_witness:
  "cs_voter_count (summary (fst (refresh_from_nodes (demo_cluster_env three_nodes) demo_started [])))
     < 2 * cs_reachable_voters (summary (fst (refresh_from_nodes (demo_cluster_env three_nodes) demo_started [])))"
  using serving_needs_majority [OF demo_reach demo_codec] by (simp add: allows_mutation_def demo_serves)

section \<open>Whose answers count\<close>

text \<open>
  The id of the cluster is a hash of the id of this node and the list of nodes, so nodes with the
  same list have different ids of the cluster.
\<close>

definition status_of_node :: "cluster_env \<Rightarrow> cluster_manager \<Rightarrow> string \<Rightarrow> cluster_summary option" where
  "status_of_node E m peer = cx_get E (trim_end_slashes peer @ ''/_admin/cluster/status'') (auth_headers E (cm_config m))"

lemma fetch_own_only:
  assumes apart: "\<And>p s. p \<in> set (cc_nodes (cm_config m)) \<Longrightarrow> status_of_node E m p = Some s
               \<Longrightarrow> cluster_id_for E (cs_node_id s) (cc_nodes (cm_config m)) = cluster_id_for E (cc_node_id (cm_config m)) (cc_nodes (cm_config m))
               \<Longrightarrow> cs_node_id s = cc_node_id (cm_config m)"
    and own_id: "cs_cluster_id (summary m) = cluster_id_for E (cc_node_id (cm_config m)) (cc_nodes (cm_config m))"
    and ids: "\<And>p s. p \<in> set (cc_nodes (cm_config m)) \<Longrightarrow> status_of_node E m p = Some s
               \<Longrightarrow> cs_cluster_id s = cluster_id_for E (cs_node_id s) (cc_nodes (cm_config m))"
    and other: "\<And>p s. p \<in> set (cc_nodes (cm_config m)) \<Longrightarrow> p \<noteq> own \<Longrightarrow> status_of_node E m p = Some s \<Longrightarrow> cs_node_id s \<noteq> cc_node_id (cm_config m)"
    and own: "status_of_node E m own = Some s0" "cs_node_id s0 = cc_node_id (cm_config m)"
    and nodes: "distinct (cc_nodes (cm_config m))" "own \<in> set (cc_nodes (cm_config m))"
  shows "fetch_peer_summaries E m = [(own, s0)]"
proof -
  let ?ns = "cc_nodes (cm_config m)"
  have p_own: "probe E m own = [(own, s0)]"
    using own ids [OF nodes(2) own(1)] own_id by (simp add: probe_def flip: status_of_node_def)
  have p_other: "probe E m p = []" if "p \<in> set ?ns" "p \<noteq> own" for p
  proof (cases "status_of_node E m p")
    case (Some s)
    have "cs_cluster_id s \<noteq> cs_cluster_id (summary m)"
      using ids [OF that(1) Some] other [OF that Some] apart [OF that(1) Some] own_id by metis
    with Some show ?thesis by (simp add: probe_def flip: status_of_node_def)
  qed (simp add: probe_def flip: status_of_node_def)
  obtain xs ys where split: "?ns = xs @ own # ys" using nodes(2) split_list by fastforce
  with nodes(1) have out: "own \<notin> set xs" "own \<notin> set ys" by auto
  have none: "concat (map (probe E m) zs) = []" if "set zs \<subseteq> set ?ns" "own \<notin> set zs" for zs
    using that p_other by (induction zs) auto
  have "concat (map (probe E m) xs) = []" "concat (map (probe E m) ys) = []"
    by (rule none; use split out in auto)+
  with split p_own show ?thesis by (simp only: fetch_peer_summaries_def map_append concat_append list.map concat.simps append_Nil append_Nil2 append.simps)
qed

text \<open>
  C38: Whether a node of a running cluster serves does not depend on its peers at all.  With the
  node's own endpoint among the configured nodes, as the start after the first one passes them,
  and every node started with the same list, a refresh makes a cluster of up to three nodes ready
  even if no peer answers, and a larger one is fenced even if all of them do: the id of the
  cluster is hashed from the id of the local node, so the answer of a peer never carries it, and
  the node counts itself a second time through its own endpoint.  The hash is only assumed not to
  collide on the ids of the nodes that answer.
\<close>

theorem readiness_ignores_peers:
  assumes "\<And>p s. p \<in> set (cc_nodes (cm_config m)) \<Longrightarrow> status_of_node E m p = Some s
               \<Longrightarrow> cluster_id_for E (cs_node_id s) (cc_nodes (cm_config m)) = cluster_id_for E (cc_node_id (cm_config m)) (cc_nodes (cm_config m))
               \<Longrightarrow> cs_node_id s = cc_node_id (cm_config m)"
    and "\<not> cm_poisoned m"
    and "cs_cluster_id (summary m) = cluster_id_for E (cc_node_id (cm_config m)) (cc_nodes (cm_config m))"
    and "\<And>p s. p \<in> set (cc_nodes (cm_config m)) \<Longrightarrow> status_of_node E m p = Some s
               \<Longrightarrow> cs_cluster_id s = cluster_id_for E (cs_node_id s) (cc_nodes (cm_config m))"
    and "\<And>p s. p \<in> set (cc_nodes (cm_config m)) \<Longrightarrow> p \<noteq> own \<Longrightarrow> status_of_node E m p = Some s \<Longrightarrow> cs_node_id s \<noteq> cc_node_id (cm_config m)"
    and "status_of_node E m own = Some s0" "cs_node_id s0 = cc_node_id (cm_config m)"
    and "distinct (cc_nodes (cm_config m))" "own \<in> set (cc_nodes (cm_config m))"
  shows "allows_mutation (fst (refresh_from_nodes E m fs)) \<longleftrightarrow> length (cc_nodes (cm_config m)) \<le> 3"
proof -
  have "fetch_peer_summaries E m = [(own, s0)]" by (rule fetch_own_only [OF assms(1,3-9)])
  moreover have "2 < length (cc_nodes (cm_config m)) div 2 + 1 \<longleftrightarrow> \<not> length (cc_nodes (cm_config m)) \<le> 3" by linarith
  ultimately show ?thesis using assms(2)
    by (simp add: refresh_from_nodes_def Let_def mark_fenced_def mark_ready_def commit_def allows_mutation_def summary_def)
qed

theorem readiness_ignores_peers_witness:
  "allows_mutation (fst (refresh_from_nodes (demo_cluster_env three_nodes) demo_started []))"
proof -
  let ?E = "demo_cluster_env three_nodes"
  have st: "status_of_node ?E demo_started p = (if p = ''http://a'' then Some (demo_answer three_nodes) else None)" if "p \<in> set three_nodes" for p
    using that by (auto simp: status_of_node_def trim_end_slashes_def)
  have "allows_mutation (fst (refresh_from_nodes ?E demo_started [])) \<longleftrightarrow> length (cc_nodes (cm_config demo_started)) \<le> 3"
    by (rule readiness_ignores_peers [where own = "''http://a''" and ?s0.0 = "demo_answer three_nodes"])
      (auto simp: st summary_def cluster_id_for_def demo_answer_def split: if_splits)
  then show ?thesis by simp
qed

end
