(* ===== verification/Byte_Codec.thy ===== *)
theory Byte_Codec
  imports Prelude
begin

text \<open>
  Serializers of concrete types into bytes, with their parsers.  The serializers of the program
  (JSON, MessagePack) are parameters of the model; these give them a value in the examples that
  show that the assumptions about them can be met.
\<close>

type_synonym 'a codec = "('a \<Rightarrow> bytes) \<times> (bytes \<Rightarrow> ('a \<times> bytes) option)"

definition codec_ok :: "'a codec \<Rightarrow> bool" where
  "codec_ok c \<longleftrightarrow> (\<forall>x rest. snd c (fst c x @ rest) = Some (x, rest))"

fun nat_decode :: "bytes \<Rightarrow> (nat \<times> bytes) option" where
  "nat_decode [] = None"
| "nat_decode (b # bs) = (if b = 0 then Some (0, bs) else map_option (\<lambda>(n, r). (Suc n, r)) (nat_decode bs))"

definition nat_codec :: "nat codec" where
  "nat_codec = ((\<lambda>n. replicate n 1 @ [0]), nat_decode)"

lemma nat_codec_ok: "codec_ok nat_codec"
proof -
  have "nat_decode (replicate n 1 @ [0] @ rest) = Some (n, rest)" for n rest by (induction n) auto
  then show ?thesis by (simp add: codec_ok_def nat_codec_def)
qed

definition pair_codec :: "'a codec \<Rightarrow> 'b codec \<Rightarrow> ('a \<times> 'b) codec" where
  "pair_codec a b = ((\<lambda>(x, y). fst a x @ fst b y),
     (\<lambda>bs. Option.bind (snd a bs) (\<lambda>(x, r). map_option (\<lambda>(y, r). ((x, y), r)) (snd b r))))"

lemma pair_codec_ok: "codec_ok a \<Longrightarrow> codec_ok b \<Longrightarrow> codec_ok (pair_codec a b)"
  by (simp add: codec_ok_def pair_codec_def)

definition map_codec :: "('b \<Rightarrow> 'a) \<Rightarrow> ('a \<Rightarrow> 'b) \<Rightarrow> 'a codec \<Rightarrow> 'b codec" where
  "map_codec f g c = ((\<lambda>x. fst c (f x)), (\<lambda>bs. map_option (\<lambda>(x, r). (g x, r)) (snd c bs)))"

lemma map_codec_ok: "codec_ok c \<Longrightarrow> (\<And>x. g (f x) = x) \<Longrightarrow> codec_ok (map_codec f g c)"
  by (simp add: codec_ok_def map_codec_def)

fun decode_many :: "(bytes \<Rightarrow> ('a \<times> bytes) option) \<Rightarrow> nat \<Rightarrow> bytes \<Rightarrow> ('a list \<times> bytes) option" where
  "decode_many d 0 bs = Some ([], bs)"
| "decode_many d (Suc n) bs = Option.bind (d bs) (\<lambda>(x, r). map_option (\<lambda>(xs, r). (x # xs, r)) (decode_many d n r))"

definition list_codec :: "'a codec \<Rightarrow> 'a list codec" where
  "list_codec c = ((\<lambda>xs. fst nat_codec (length xs) @ concat (map (fst c) xs)),
     (\<lambda>bs. Option.bind (snd nat_codec bs) (\<lambda>(n, r). decode_many (snd c) n r)))"

lemma list_codec_ok:
  assumes "codec_ok c"
  shows "codec_ok (list_codec c)"
proof -
  have "decode_many (snd c) (length xs) (concat (map (fst c) xs) @ rest) = Some (xs, rest)" for xs rest
    using assms by (induction xs) (simp_all add: codec_ok_def)
  then show ?thesis using nat_codec_ok by (simp add: codec_ok_def list_codec_def)
qed

definition option_codec :: "'a codec \<Rightarrow> 'a option codec" where
  "option_codec c = map_codec (\<lambda>x. case x of None \<Rightarrow> [] | Some y \<Rightarrow> [y]) (\<lambda>xs. case xs of [] \<Rightarrow> None | y # _ \<Rightarrow> Some y) (list_codec c)"

lemma option_codec_ok: "codec_ok c \<Longrightarrow> codec_ok (option_codec c)"
  unfolding option_codec_def by (rule map_codec_ok [OF list_codec_ok]) (auto split: option.split)

definition string_codec :: "string codec" where
  "string_codec = map_codec (map of_char) (map char_of) (list_codec nat_codec)"

lemma string_codec_ok: "codec_ok string_codec"
  unfolding string_codec_def by (rule map_codec_ok [OF list_codec_ok [OF nat_codec_ok]]) (simp add: comp_def)

definition word_codec :: "'a::len word codec" where
  "word_codec = map_codec unat word_of_nat nat_codec"

lemma word_codec_ok: "codec_ok word_codec"
  unfolding word_codec_def by (rule map_codec_ok [OF nat_codec_ok]) simp

lemmas codec_oks = nat_codec_ok pair_codec_ok list_codec_ok option_codec_ok string_codec_ok word_codec_ok

text \<open>A whole file: nothing may follow.\<close>

definition encode_with :: "'a codec \<Rightarrow> 'a \<Rightarrow> bytes" where
  "encode_with c = fst c"

definition decode_with :: "'a codec \<Rightarrow> bytes \<Rightarrow> 'a option" where
  "decode_with c bs = (case snd c bs of Some (x, []) \<Rightarrow> Some x | _ \<Rightarrow> None)"

lemma decode_encode_with: "codec_ok c \<Longrightarrow> decode_with c (encode_with c x) = Some x"
  unfolding codec_ok_def decode_with_def encode_with_def by (metis (no_types, lifting) append_Nil2 list.simps(4) option.simps(5) prod.simps(2))

end
