(* ===== verification/Identity.thy ===== *)
theory Identity
  imports File_Tier Byte_Codec "HOL-Library.Multiset" "HOL-Library.List_Lexorder" "HOL-Library.Char_ord"
begin

text \<open>
  Who a node is: the file \<open>volume.json\<close> of every disk (\<open>src/storage/volume.rs\<close>) and the boot
  sequence that loads or formats the disks and exchanges identities with the other nodes
  (\<open>src/cluster/identity.rs\<close>).  The serializer, the hash, the generator of UUIDs, the clock and
  the requests to other nodes are in the record \<open>identity_env\<close>.
\<close>

section \<open>Volume files\<close>

record set_member =
  sm_volume_id :: string
  sm_node_id :: string
  sm_index :: u32

record volume_format =
  vf_version :: u32
  vf_cluster_id :: "string option"
  vf_node_id :: string
  vf_volume_id :: string
  vf_volume_index :: u32
  vf_created_at :: u64
  vf_cluster :: "set_member list option"

record volume_entry =
  ve_volume_id :: string
  ve_index :: u32
  ve_path :: string

record node_identity =
  ni_node_id :: string
  ni_advertise :: string
  ni_volumes :: "volume_entry list"

record identity_env =
  ix_enc :: "volume_format \<Rightarrow> bytes"
  ix_dec :: "bytes \<Rightarrow> volume_format option"
  ix_sha8 :: "string \<Rightarrow> string"
  ix_display :: "path \<Rightarrow> string"
  ix_uuid :: "nat \<Rightarrow> string"
  ix_clock :: "nat \<Rightarrow> u64"
  ix_hostname :: "string option"
  ix_join :: "nat \<Rightarrow> string \<Rightarrow> node_identity \<Rightarrow> node_identity option"

datatype identity_error = FormatNewer u32 | FormatOlder u32 | ReadVolume path | ParseVolume path | MixedState nat nat
  | NodeIdMismatch string string | ClusterIdMismatch | DuplicateVolumeId string | WriteVolume path | NoDisk

definition CURRENT_VOLUME_FORMAT_VERSION :: u32 where "CURRENT_VOLUME_FORMAT_VERSION = 1"

definition MIN_SUPPORTED_VOLUME_FORMAT_VERSION :: u32 where "MIN_SUPPORTED_VOLUME_FORMAT_VERSION = 1"

definition check_format_version :: "u32 \<Rightarrow> identity_error + unit" where
  "check_format_version version =
     (if version > CURRENT_VOLUME_FORMAT_VERSION then Inl (FormatNewer version)
      else if version < MIN_SUPPORTED_VOLUME_FORMAT_VERSION then Inl (FormatOlder version) else Inr ())"

definition volume_path :: "path \<Rightarrow> path" where
  "volume_path disk_root = push (push disk_root ''.abixio.sys'') ''volume.json''"

definition read_volume_format :: "identity_env \<Rightarrow> files \<Rightarrow> path \<Rightarrow> identity_error + volume_format option" where
  "read_volume_format I fs disk_root = (let p = volume_path disk_root in
     if map_of fs p = None then Inr None
     else case fs_read fs p of None \<Rightarrow> Inl (ReadVolume p)
       | Some data \<Rightarrow> (case ix_dec I data of None \<Rightarrow> Inl (ParseVolume p)
           | Some fmt \<Rightarrow> res_bind (check_format_version (vf_version fmt)) (\<lambda>_. Inr (Some fmt))))"

definition write_volume_format :: "identity_env \<Rightarrow> path \<Rightarrow> volume_format \<Rightarrow> files \<Rightarrow> (identity_error + unit) \<times> files" where
  "write_volume_format I disk_root fmt fs =
     (case create_dir_all (push disk_root ''.abixio.sys'') fs of
        (Inl e, fs1) \<Rightarrow> (Inl (WriteVolume disk_root), fs1)
      | (Inr u, fs1) \<Rightarrow> (case fs_write (volume_path disk_root) (ix_enc I fmt) fs1 of
            (Inl e, fs2) \<Rightarrow> (Inl (WriteVolume disk_root), fs2) | (Inr u, fs2) \<Rightarrow> (Inr (), fs2)))"

definition generate_volume_format :: "identity_env \<Rightarrow> string \<Rightarrow> nat \<Rightarrow> volume_format" where
  "generate_volume_format I node_id i = \<lparr> vf_version = CURRENT_VOLUME_FORMAT_VERSION, vf_cluster_id = None,
     vf_node_id = node_id, vf_volume_id = ix_uuid I (Suc i), vf_volume_index = of_nat i, vf_created_at = ix_clock I i, vf_cluster = None \<rparr>"

fun read_all_formats :: "identity_env \<Rightarrow> files \<Rightarrow> path list \<Rightarrow> identity_error + volume_format option list" where
  "read_all_formats I fs [] = Inr []"
| "read_all_formats I fs (p # ps) =
     res_bind (read_volume_format I fs p) (\<lambda>f. res_bind (read_all_formats I fs ps) (\<lambda>rest. Inr (f # rest)))"

fun check_consistent :: "volume_format \<Rightarrow> volume_format list \<Rightarrow> identity_error + unit" where
  "check_consistent f0 [] = Inr ()"
| "check_consistent f0 (f # fmts) =
     (if vf_node_id f \<noteq> vf_node_id f0 then Inl (NodeIdMismatch (vf_node_id f0) (vf_node_id f))
      else if vf_cluster_id f \<noteq> vf_cluster_id f0 then Inl ClusterIdMismatch else check_consistent f0 fmts)"

fun check_unique :: "string set \<Rightarrow> volume_format list \<Rightarrow> identity_error + unit" where
  "check_unique seen [] = Inr ()"
| "check_unique seen (f # fmts) = (if vf_volume_id f \<in> seen then Inl (DuplicateVolumeId (vf_volume_id f))
     else check_unique (insert (vf_volume_id f) seen) fmts)"

fun somes :: "'a option list \<Rightarrow> 'a list" where
  "somes [] = []"
| "somes (None # xs) = somes xs"
| "somes (Some x # xs) = x # somes xs"

definition load_volumes :: "identity_env \<Rightarrow> files \<Rightarrow> path list \<Rightarrow> identity_error + volume_format list option" where
  "load_volumes I fs disk_paths = res_bind (read_all_formats I fs disk_paths) (\<lambda>formats.
     let present = somes formats in
     case present of [] \<Rightarrow> Inr None
     | f0 # _ \<Rightarrow> if length present \<noteq> length disk_paths then Inl (MixedState (length present) (length disk_paths))
         else res_bind (check_consistent f0 present) (\<lambda>_. res_bind (check_unique {} present) (\<lambda>_. Inr (Some present))))"

text \<open>Writing one file per disk; the first failure stops, what was written stays.\<close>

fun write_formats :: "identity_env \<Rightarrow> (path \<times> volume_format) list \<Rightarrow> files \<Rightarrow> (identity_error + unit) \<times> files" where
  "write_formats I [] fs = (Inr (), fs)"
| "write_formats I ((p, f) # rest) fs = then_do (write_volume_format I p f fs) (\<lambda>_ fs. write_formats I rest fs)"

definition format_volumes :: "identity_env \<Rightarrow> path list \<Rightarrow> files \<Rightarrow> (identity_error + volume_format list) \<times> files" where
  "format_volumes I disk_paths fs =
     (let formats = map (generate_volume_format I (ix_uuid I 0)) [0..<length disk_paths] in
      then_do (write_formats I (zip disk_paths formats) fs) (\<lambda>_ fs. (Inr formats, fs)))"

definition finalize_format :: "string \<Rightarrow> set_member list \<Rightarrow> volume_format \<Rightarrow> volume_format" where
  "finalize_format cluster_id members f = f\<lparr> vf_cluster_id := Some cluster_id, vf_cluster := Some members \<rparr>"

definition finalize_volumes ::
  "identity_env \<Rightarrow> path list \<Rightarrow> volume_format list \<Rightarrow> string \<Rightarrow> set_member list \<Rightarrow> files \<Rightarrow> (identity_error + unit) \<times> files" where
  "finalize_volumes I disk_paths formats cluster_id members =
     write_formats I (zip disk_paths (map (finalize_format cluster_id members) formats))"

section \<open>Boot\<close>

record node_volumes =
  nv_node_id :: string
  nv_endpoint :: string
  nv_volume_paths :: "string list"

record resolved_identity =
  ri_node_id :: string
  ri_cluster_id :: string
  ri_advertise :: string
  ri_nodes :: "string list"
  ri_disk_paths :: "path list"
  ri_all_members :: "set_member list"
  ri_node_volumes :: "node_volumes list"

definition build_members :: "node_identity list \<Rightarrow> set_member list" where
  "build_members identities =
     map (\<lambda>(i, node_id, vol). \<lparr> sm_volume_id = ve_volume_id vol, sm_node_id = node_id, sm_index = of_nat i \<rparr>)
       (enumerate 0 (concat (map (\<lambda>id. map (Pair (ni_node_id id)) (ni_volumes id)) (sort_key ni_node_id identities))))"

definition deployment_id_for :: "identity_env \<Rightarrow> string list \<Rightarrow> string" where
  "deployment_id_for I sorted_node_ids = ''abixio-'' @ ix_sha8 I (''deployment:'' @ concat (map (\<lambda>i. i @ '':'') sorted_node_ids))"

text \<open>
  Grouping by node with the entry interface of a hash map.  The iteration order of the hash map
  is not specified; here it is the order in which the nodes were met.
\<close>

fun push_group :: "string \<Rightarrow> string \<Rightarrow> (string \<times> string list) list \<Rightarrow> (string \<times> string list) list" where
  "push_group n v [] = [(n, [v])]"
| "push_group n v ((n', vs) # gs) = (if n' = n then (n', vs @ [v]) # gs else (n', vs) # push_group n v gs)"

definition group_members :: "set_member list \<Rightarrow> (string \<times> string list) list" where
  "group_members members = fold (\<lambda>m. push_group (sm_node_id m) (sm_volume_id m)) members []"

definition first_other_endpoint :: "string \<Rightarrow> string list \<Rightarrow> string" where
  "first_other_endpoint local_advertise nodes =
     (case filter (\<lambda>n. trim_end_slashes n \<noteq> trim_end_slashes local_advertise) nodes of [] \<Rightarrow> [] | n # _ \<Rightarrow> n)"

definition build_node_volumes_from_members ::
  "identity_env \<Rightarrow> string \<Rightarrow> string \<Rightarrow> path list \<Rightarrow> set_member list \<Rightarrow> string list \<Rightarrow> node_volumes list" where
  "build_node_volumes_from_members I local_node_id local_advertise local_disk_paths members nodes =
     (let by_node = group_members members in
      (if map_of by_node local_node_id \<noteq> None
       then [\<lparr> nv_node_id = local_node_id, nv_endpoint = local_advertise, nv_volume_paths = map (ix_display I) local_disk_paths \<rparr>] else [])
      @ map (\<lambda>(nid, vol_ids). \<lparr> nv_node_id = nid, nv_endpoint = first_other_endpoint local_advertise nodes, nv_volume_paths = vol_ids \<rparr>)
          (filter (\<lambda>(nid, _). nid \<noteq> local_node_id) by_node))"

definition derive_advertise :: "identity_env \<Rightarrow> string \<Rightarrow> string" where
  "derive_advertise I listen =
     (let addr = (if take 1 listen = '':'' then ''0.0.0.0'' @ listen else listen);
          host = (case ix_hostname I of Some h \<Rightarrow> h | None \<Rightarrow> ''127.0.0.1'');
          port = last (split_on (CHR '':'') addr)
      in ''http://'' @ host @ '':'' @ port)"

text \<open>One pass over the remote nodes that have not answered yet.\<close>

fun exchange_round :: "identity_env \<Rightarrow> nat \<Rightarrow> node_identity \<Rightarrow> string list \<Rightarrow> node_identity list \<Rightarrow> node_identity list" where
  "exchange_round I r local_identity [] ids = ids"
| "exchange_round I r local_identity (node # nodes) ids =
     (if list_ex (\<lambda>i. trim_end_slashes (ni_advertise i) = trim_end_slashes node) ids
      then exchange_round I r local_identity nodes ids
      else case ix_join I r (trim_end_slashes node @ ''/_admin/cluster/join'') local_identity of
          None \<Rightarrow> exchange_round I r local_identity nodes ids
        | Some peer \<Rightarrow> exchange_round I r local_identity nodes
            (if list_ex (\<lambda>i. ni_node_id i = ni_node_id peer) ids then ids else ids @ [peer]))"

text \<open>The loop waits as long as nodes are missing: \<open>None\<close> when the given number of rounds is not enough.\<close>

fun exchange_loop :: "identity_env \<Rightarrow> nat \<Rightarrow> nat \<Rightarrow> node_identity \<Rightarrow> string list \<Rightarrow> nat \<Rightarrow> node_identity list \<Rightarrow> node_identity list option" where
  "exchange_loop I 0 r local_identity remote_nodes expected ids = None"
| "exchange_loop I (Suc fuel) r local_identity remote_nodes expected ids =
     (let ids = exchange_round I r local_identity remote_nodes ids in
      if length ids \<ge> expected then Some ids
      else exchange_loop I fuel (Suc r) local_identity remote_nodes expected ids)"

definition local_identity_of :: "identity_env \<Rightarrow> string \<Rightarrow> string \<Rightarrow> path list \<Rightarrow> volume_format list \<Rightarrow> node_identity" where
  "local_identity_of I node_id advertise disk_paths formats = \<lparr> ni_node_id = node_id, ni_advertise = advertise,
     ni_volumes = map (\<lambda>(f, p). \<lparr> ve_volume_id = vf_volume_id f, ve_index = vf_volume_index f, ve_path = ix_display I p \<rparr>)
       (zip formats disk_paths) \<rparr>"

definition identity_volumes :: "node_identity \<Rightarrow> node_volumes" where
  "identity_volumes i = \<lparr> nv_node_id = ni_node_id i, nv_endpoint = ni_advertise i, nv_volume_paths = map ve_path (ni_volumes i) \<rparr>"

definition load_or_format :: "identity_env \<Rightarrow> path list \<Rightarrow> files \<Rightarrow> (identity_error + volume_format list) \<times> files" where
  "load_or_format I disk_paths fs = (case load_volumes I fs disk_paths of
      Inl e \<Rightarrow> (Inl e, fs) | Inr (Some f) \<Rightarrow> (Inr f, fs) | Inr None \<Rightarrow> format_volumes I disk_paths fs)"

definition resolve_standalone ::
  "identity_env \<Rightarrow> path list \<Rightarrow> string \<Rightarrow> string \<Rightarrow> volume_format list \<Rightarrow> files \<Rightarrow> (identity_error + resolved_identity option) \<times> files" where
  "resolve_standalone I disk_paths node_id advertise formats fs =
     (let cluster_id = deployment_id_for I [node_id];
          members = build_members [local_identity_of I node_id advertise disk_paths formats]
      in then_do (finalize_volumes I disk_paths formats cluster_id members fs) (\<lambda>_ fs.
        (Inr (Some \<lparr> ri_node_id = node_id, ri_cluster_id = cluster_id, ri_advertise = advertise, ri_nodes = [],
           ri_disk_paths = disk_paths, ri_all_members = members,
           ri_node_volumes = [\<lparr> nv_node_id = node_id, nv_endpoint = advertise, nv_volume_paths = map (ix_display I) disk_paths \<rparr>] \<rparr>), fs)))"

definition resolve_first_boot ::
  "identity_env \<Rightarrow> nat \<Rightarrow> path list \<Rightarrow> string list \<Rightarrow> string \<Rightarrow> string \<Rightarrow> volume_format list \<Rightarrow> files
   \<Rightarrow> (identity_error + resolved_identity option) \<times> files" where
  "resolve_first_boot I fuel disk_paths nodes node_id advertise formats fs =
     (let local = local_identity_of I node_id advertise disk_paths formats;
          remote_nodes = filter (\<lambda>n. trim_end_slashes n \<noteq> trim_end_slashes advertise) nodes
      in case exchange_loop I fuel 0 local remote_nodes (length nodes) [local] of
           None \<Rightarrow> (Inr None, fs)
         | Some ids \<Rightarrow>
             (let cluster_id = deployment_id_for I (sort (map ni_node_id ids)); members = build_members ids in
              then_do (finalize_volumes I disk_paths formats cluster_id members fs) (\<lambda>_ fs.
                (Inr (Some \<lparr> ri_node_id = node_id, ri_cluster_id = cluster_id, ri_advertise = advertise,
                   ri_nodes = map ni_advertise (filter (\<lambda>i. ni_node_id i \<noteq> node_id) ids), ri_disk_paths = disk_paths,
                   ri_all_members = members, ri_node_volumes = map identity_volumes ids \<rparr>), fs))))"

text \<open>\<open>Inr None\<close>: still waiting for nodes.\<close>

definition resolve_identity ::
  "identity_env \<Rightarrow> nat \<Rightarrow> path list \<Rightarrow> string \<Rightarrow> string list \<Rightarrow> files \<Rightarrow> (identity_error + resolved_identity option) \<times> files" where
  "resolve_identity I fuel disk_paths listen nodes fs =
     then_do (load_or_format I disk_paths fs) (\<lambda>formats fs.
       case formats of [] \<Rightarrow> (Inl NoDisk, fs)
       | f0 # _ \<Rightarrow>
           (let node_id = vf_node_id f0; advertise = derive_advertise I listen in
            if nodes = [] then resolve_standalone I disk_paths node_id advertise formats fs
            else case (vf_cluster_id f0, vf_cluster f0) of
                (Some cluster_id, Some members) \<Rightarrow>
                  (Inr (Some \<lparr> ri_node_id = node_id, ri_cluster_id = cluster_id, ri_advertise = advertise, ri_nodes = nodes,
                     ri_disk_paths = disk_paths, ri_all_members = members,
                     ri_node_volumes = build_node_volumes_from_members I node_id advertise disk_paths members nodes \<rparr>), fs)
              | _ \<Rightarrow> resolve_first_boot I fuel disk_paths nodes node_id advertise formats fs))"

section \<open>All nodes derive the same members\<close>

lemma sort_key_unique:
  assumes "mset xs = mset ys" "distinct (map f xs)"
  shows "sort_key f xs = sort_key f ys"
proof (rule properties_for_sort_key)
  show "mset (sort_key f ys) = mset xs" using assms by simp
  show "sorted (map f (sort_key f ys))" by simp
  show "filter (\<lambda>x. f k = f x) (sort_key f ys) = filter (\<lambda>x. f k = f x) xs" if "k \<in> set (sort_key f ys)" for k
  proof -
    have one: "filter (\<lambda>x. f k = f x) zs = [k]" if "mset zs = mset xs" "k \<in> set zs" for zs
    proof -
      have "distinct (map f zs)" using assms(2) that(1) by (metis distinct_map mset_eq_imp_distinct_iff mset_map)
      then show ?thesis using that(2)
      proof (induction zs)
        case (Cons z zs)
        show ?case
        proof (cases "k = z")
          case True
          with Cons.prems show ?thesis by (auto simp: filter_empty_conv)
        next
          case False
          with Cons.prems have "f k \<in> f ` set zs" "f z \<notin> f ` set zs" by auto
          then have "f k \<noteq> f z" by auto
          with False Cons show ?thesis by auto
        qed
      qed simp
    qed
    have "set ys = set xs" using assms(1) by (metis set_mset_mset)
    then show ?thesis using one [of "sort_key f ys"] one [of xs] assms(1) that by simp
  qed
qed

lemma exchange_round_distinct:
  "distinct (map ni_node_id ids) \<Longrightarrow> distinct (map ni_node_id (exchange_round I r la nodes ids))"
proof (induction I r la nodes ids rule: exchange_round.induct)
  case (2 I r la node nodes ids)
  have "distinct (map ni_node_id (if list_ex (\<lambda>i. ni_node_id i = ni_node_id peer) ids then ids else ids @ [peer]))" for peer
    using 2(4) by (auto simp: list_ex_iff)
  with 2 show ?case by (simp split: option.split)
qed simp

lemma exchange_loop_distinct:
  "distinct (map ni_node_id ids) \<Longrightarrow> exchange_loop I fuel r la remote n ids = Some ids' \<Longrightarrow> distinct (map ni_node_id ids')"
  by (induction I fuel r la remote n ids rule: exchange_loop.induct)
    (auto simp: Let_def exchange_round_distinct split: if_splits)

text \<open>
  C15: The order in which nodes discover each other does not matter.  Two nodes that end the exchange
  with the same identities, found in whatever order and after however many rounds, build the same
  list of members with the same indices and derive the same cluster id.
\<close>

theorem members_agree:
  assumes "exchange_loop I fuel r a remote n [a] = Some ids" and "exchange_loop J fuel' r' b remote' n' [b] = Some ids'"
    and "set ids = set ids'"
  shows "build_members ids = build_members ids'
     \<and> deployment_id_for I (sort (map ni_node_id ids)) = deployment_id_for I (sort (map ni_node_id ids'))"
proof -
  have d: "distinct (map ni_node_id ids)" "distinct (map ni_node_id ids')"
    using exchange_loop_distinct [OF _ assms(1)] exchange_loop_distinct [OF _ assms(2)] by simp_all
  then have m: "mset ids = mset ids'" using assms(3) by (simp add: distinct_map set_eq_iff_mset_eq_distinct)
  then have "sort_key ni_node_id ids = sort_key ni_node_id ids'" using d(1) by (rule sort_key_unique)
  moreover have "sort (map ni_node_id ids) = sort (map ni_node_id ids')"
    using m by (intro properties_for_sort) simp_all
  ultimately show ?thesis by (simp add: build_members_def)
qed

definition demo_node :: "string \<Rightarrow> node_identity" where
  "demo_node n = \<lparr> ni_node_id = n, ni_advertise = ''http://'' @ n, ni_volumes = [\<lparr> ve_volume_id = n, ve_index = 0, ve_path = ''/d'' \<rparr>] \<rparr>"

definition format_codec :: "volume_format codec" where
  "format_codec = map_codec
     (\<lambda>f. (vf_version f, vf_cluster_id f, vf_node_id f, vf_volume_id f, vf_volume_index f, vf_created_at f,
        map_option (map (\<lambda>m. (sm_volume_id m, sm_node_id m, sm_index m))) (vf_cluster f)))
     (\<lambda>(v, c, n, vid, i, t, ms). \<lparr> vf_version = v, vf_cluster_id = c, vf_node_id = n, vf_volume_id = vid, vf_volume_index = i, vf_created_at = t,
        vf_cluster = map_option (map (\<lambda>(a, b, c). \<lparr> sm_volume_id = a, sm_node_id = b, sm_index = c \<rparr>)) ms \<rparr>)
     (pair_codec word_codec (pair_codec (option_codec string_codec) (pair_codec string_codec (pair_codec string_codec
       (pair_codec word_codec (pair_codec word_codec (option_codec (list_codec (pair_codec string_codec (pair_codec string_codec word_codec))))))))))"

lemma member_eta: "(\<lambda>m. \<lparr> sm_volume_id = sm_volume_id m, sm_node_id = sm_node_id m, sm_index = sm_index m \<rparr>) = (\<lambda>m. m)"
  by (rule ext) simp

lemma format_codec_ok: "codec_ok format_codec"
  unfolding format_codec_def
  by (rule map_codec_ok) (auto intro!: codec_oks simp: option.map_comp comp_def option.map_ident member_eta)

text \<open>A world where the other of two nodes answers at once.\<close>

definition demo_identity_env :: identity_env where
  "demo_identity_env = \<lparr> ix_enc = encode_with format_codec, ix_dec = decode_with format_codec, ix_sha8 = (\<lambda>s. s), ix_display = (\<lambda>p. ''/d''),
     ix_uuid = (\<lambda>n. replicate n (CHR ''u'')), ix_clock = (\<lambda>i. 7), ix_hostname = None,
     ix_join = (\<lambda>r url me. if ni_node_id me = ''a'' then Some (demo_node ''b'') else Some (demo_node ''a'')) \<rparr>"

theorem members_agree_witness:
  "build_members [demo_node ''a'', demo_node ''b''] = build_members [demo_node ''b'', demo_node ''a''] \<and>
   deployment_id_for demo_identity_env (sort [''a'', ''b'']) = deployment_id_for demo_identity_env (sort [''b'', ''a''])"
proof -
  have ids: "ni_node_id (demo_node n) = n" for n by (simp add: demo_node_def)
  have same: "set [demo_node ''a'', demo_node ''b''] = set [demo_node ''b'', demo_node ''a'']" by auto
  have "exchange_loop demo_identity_env 1 0 (demo_node ''a'') [''http://b''] 2 [demo_node ''a''] = Some [demo_node ''a'', demo_node ''b'']"
    "exchange_loop demo_identity_env 1 0 (demo_node ''b'') [''http://a''] 2 [demo_node ''b''] = Some [demo_node ''b'', demo_node ''a'']"
    by (simp_all add: demo_identity_env_def demo_node_def trim_end_slashes_def)
  from members_agree [OF this same] show ?thesis by (simp add: ids)
qed

section \<open>The identity survives a restart\<close>

definition holds_format :: "identity_env \<Rightarrow> files \<Rightarrow> path \<Rightarrow> volume_format \<Rightarrow> bool" where
  "holds_format I fs p f \<longleftrightarrow> (\<exists>bs. fs_read fs (volume_path p) = Some bs \<and> ix_dec I bs = Some f) \<and> check_format_version (vf_version f) = Inr ()"

lemma volume_path_eq_iff [simp]: "volume_path p = volume_path q \<longleftrightarrow> p = q"
  by (simp add: volume_path_def push_def comp_of_def)

lemma read_holds: "read_volume_format I fs p = Inr (Some f) \<longleftrightarrow> holds_format I fs p f"
  by (auto simp: read_volume_format_def holds_format_def Let_def fs_read_def res_bind_Inr_iff split: option.splits)

lemma read_all_holds: "read_all_formats I fs ps = Inr (map Some fmts) \<longleftrightarrow> list_all2 (holds_format I fs) ps fmts"
proof (induction ps arbitrary: fmts)
  case (Cons p ps)
  then show ?case by (cases fmts) (auto simp: res_bind_Inr_iff read_holds)
qed simp

lemma check_consistent_iff:
  "check_consistent f0 fmts = Inr () \<longleftrightarrow> (\<forall>f \<in> set fmts. vf_node_id f = vf_node_id f0 \<and> vf_cluster_id f = vf_cluster_id f0)"
  by (induction fmts) auto

lemma check_unique_iff:
  "check_unique seen fmts = Inr () \<longleftrightarrow> distinct (map vf_volume_id fmts) \<and> seen \<inter> set (map vf_volume_id fmts) = {}"
  by (induction fmts arbitrary: seen) auto

lemma length_read_all: "read_all_formats I fs ps = Inr fmts \<Longrightarrow> length fmts = length ps"
  by (induction ps arbitrary: fmts) (auto simp: res_bind_Inr_iff)

lemma length_somes: "length (somes xs) \<le> length xs"
  by (induction xs rule: somes.induct) auto

lemma somes_full: "length (somes xs) = length xs \<Longrightarrow> xs = map Some (somes xs)"
proof (induction xs rule: somes.induct)
  case (2 xs)
  with length_somes [of xs] show ?case by simp
qed simp_all

lemma somes_map_Some [simp]: "somes (map Some xs) = xs"
  by (induction xs) auto

lemma load_volumes_iff:
  "load_volumes I fs ps = Inr (Some fmts) \<longleftrightarrow> fmts \<noteq> [] \<and> list_all2 (holds_format I fs) ps fmts
     \<and> check_consistent (hd fmts) fmts = Inr () \<and> check_unique {} fmts = Inr ()" (is "?L \<longleftrightarrow> ?R")
proof
  assume ?L
  then obtain os where os: "read_all_formats I fs ps = Inr os" and rest: "(case somes os of [] \<Rightarrow> Inr None
     | f0 # _ \<Rightarrow> if length (somes os) \<noteq> length ps then Inl (MixedState (length (somes os)) (length ps))
         else res_bind (check_consistent f0 (somes os)) (\<lambda>_. res_bind (check_unique {} (somes os)) (\<lambda>_. Inr (Some (somes os))))) = Inr (Some fmts)"
    unfolding load_volumes_def by (auto simp: res_bind_Inr_iff Let_def)
  then obtain f0 rest where so: "somes os = f0 # rest" by (cases "somes os") auto
  with rest have fm: "fmts = somes os" and len: "length (somes os) = length ps"
    and chk: "check_consistent f0 fmts = Inr ()" "check_unique {} fmts = Inr ()"
    by (auto simp: res_bind_Inr_iff simp del: check_consistent.simps check_unique.simps split: if_splits)
  have "length (somes os) = length os" using len length_read_all [OF os] by simp
  then have full: "os = map Some fmts" unfolding fm by (rule somes_full)
  have "read_all_formats I fs ps = Inr (map Some fmts)" using os by (rule trans) (simp only: full [symmetric])
  then have "list_all2 (holds_format I fs) ps fmts" by (simp only: read_all_holds)
  moreover have "fmts = f0 # rest" using fm so by simp
  ultimately show ?R using chk by simp
next
  assume R: ?R
  then have "read_all_formats I fs ps = Inr (map Some fmts)" "length ps = length fmts"
    by (auto simp: read_all_holds dest: list_all2_lengthD)
  with R show ?L unfolding load_volumes_def by (cases fmts) (simp_all add: Let_def)
qed

lemma write_format_reads:
  assumes "write_volume_format I p f fs = (Inr u, fs')"
  shows "fs_read fs' q = (if q = volume_path p then Some (ix_enc I f) else fs_read fs q)"
proof -
  obtain u1 fs1 where c: "create_dir_all (push p ''.abixio.sys'') fs = (Inr u1, fs1)"
    and w: "fs_write (volume_path p) (ix_enc I f) fs1 = (Inr (), fs')"
    using assms unfolding write_volume_format_def by (auto split: prod.splits sum.splits)
  show ?thesis using create_dir_all_Inr(1) [OF c] fs_write_Inr(1) [OF w] by simp
qed

lemma write_formats_reads:
  assumes "write_formats I pfs fs = (Inr u, fs')" "q \<notin> volume_path ` fst ` set pfs"
  shows "fs_read fs' q = fs_read fs q"
  using assms
proof (induction I pfs fs rule: write_formats.induct)
  case (2 I p f rest fs)
  from 2(2) obtain fs1 where "write_volume_format I p f fs = (Inr (), fs1)" "write_formats I rest fs1 = (Inr u, fs')"
    by (auto simp: then_do_Inr_iff)
  with 2 write_format_reads [of I p f fs "()" fs1 q] show ?case by auto
qed simp

lemma write_formats_holds:
  assumes "write_formats I (zip ps fmts) fs = (Inr u, fs')" "length ps = length fmts" "distinct ps"
    and "\<And>f. ix_dec I (ix_enc I f) = Some f" "\<And>f. f \<in> set fmts \<Longrightarrow> check_format_version (vf_version f) = Inr ()"
  shows "list_all2 (holds_format I fs') ps fmts"
  using assms
proof (induction ps arbitrary: fmts fs)
  case (Cons p ps)
  then obtain f rest where fm: "fmts = f # rest" by (cases fmts) auto
  with Cons.prems(1) obtain fs1 where w: "write_volume_format I p f fs = (Inr (), fs1)" "write_formats I (zip ps rest) fs1 = (Inr u, fs')"
    by (auto simp: then_do_Inr_iff)
  have "fs_read fs' (volume_path p) = fs_read fs1 (volume_path p)"
    by (rule write_formats_reads [OF w(2)]) (use Cons.prems(3) in \<open>auto dest: set_zip_leftD\<close>)
  then have "holds_format I fs' p f"
    using write_format_reads [OF w(1), of "volume_path p"] Cons.prems(4,5) fm by (simp add: holds_format_def)
  with Cons.IH [OF w(2)] Cons.prems fm show ?case by simp
qed simp

lemma finalize_loads:
  assumes fin: "finalize_volumes I ps fmts cid ms fs = (Inr u, fs')" and len: "length ps = length fmts" and ne: "fmts \<noteq> []"
    and ps: "distinct ps" and cod: "\<And>f. ix_dec I (ix_enc I f) = Some f"
    and ver: "\<And>f. f \<in> set fmts \<Longrightarrow> check_format_version (vf_version f) = Inr ()"
    and same: "\<And>f. f \<in> set fmts \<Longrightarrow> vf_node_id f = nid" and uniq: "distinct (map vf_volume_id fmts)"
  shows "load_volumes I fs' ps = Inr (Some (map (finalize_format cid ms) fmts))"
proof -
  have "list_all2 (holds_format I fs') ps (map (finalize_format cid ms) fmts)"
    by (rule write_formats_holds [OF fin [unfolded finalize_volumes_def] _ ps cod]) (use len ver in \<open>auto simp: finalize_format_def\<close>)
  moreover have "map vf_volume_id (map (finalize_format cid ms) fmts) = map vf_volume_id fmts" by (simp add: finalize_format_def)
  ultimately show ?thesis using ne same uniq
    by (auto simp: load_volumes_iff check_consistent_iff check_unique_iff finalize_format_def list.map_sel simp del: list.map_comp map_map)
qed

text \<open>What boot works with: formats that could be loaded, one per disk.\<close>

definition formats_ok :: "path list \<Rightarrow> volume_format list \<Rightarrow> bool" where
  "formats_ok ps fmts \<longleftrightarrow> length ps = length fmts \<and> (\<forall>f \<in> set fmts. check_format_version (vf_version f) = Inr () \<and> vf_node_id f = vf_node_id (hd fmts))
     \<and> distinct (map vf_volume_id fmts)"

lemma load_or_format_ok:
  assumes "load_or_format I ps fs = (Inr fmts, fs')" "inj (ix_uuid I)"
  shows "formats_ok ps fmts" and "load_volumes I fs ps = Inr (Some fmts) \<and> fs' = fs \<or> (\<forall>f \<in> set fmts. vf_cluster_id f = None)"
proof -
  consider (loaded) "load_volumes I fs ps = Inr (Some fmts)" "fs' = fs" | (fresh) "format_volumes I ps fs = (Inr fmts, fs')"
    using assms(1) unfolding load_or_format_def by (auto split: sum.splits option.splits)
  then have "formats_ok ps fmts \<and> (load_volumes I fs ps = Inr (Some fmts) \<and> fs' = fs \<or> (\<forall>f \<in> set fmts. vf_cluster_id f = None))"
  proof cases
    case loaded
    then have h: "list_all2 (holds_format I fs) ps fmts" "check_consistent (hd fmts) fmts = Inr ()" "check_unique {} fmts = Inr ()"
      by (simp_all add: load_volumes_iff)
    have "\<forall>f \<in> set fmts. check_format_version (vf_version f) = Inr ()"
      using h(1) by (induction rule: list_all2_induct) (auto simp: holds_format_def)
    then have "formats_ok ps fmts" using h list_all2_lengthD [OF h(1)]
      unfolding formats_ok_def check_consistent_iff check_unique_iff by simp
    with loaded show ?thesis by simp
  next
    case fresh
    then have f: "fmts = map (generate_volume_format I (ix_uuid I 0)) [0..<length ps]"
      unfolding format_volumes_def by (auto simp: Let_def then_do_Inr_iff)
    have "map vf_volume_id fmts = map (ix_uuid I \<circ> Suc) [0..<length ps]" by (simp add: f generate_volume_format_def comp_def)
    moreover have "inj (ix_uuid I \<circ> Suc)" using assms(2) by (simp add: inj_compose)
    ultimately have "distinct (map vf_volume_id fmts)" by (simp add: distinct_map inj_on_subset [OF _ subset_UNIV])
    moreover have "vf_node_id f = vf_node_id (hd fmts)" if "f \<in> set fmts" for f
    proof -
      from that have "hd fmts \<in> set fmts" by (cases fmts) auto
      with that show ?thesis unfolding f by (auto simp: generate_volume_format_def)
    qed
    ultimately show ?thesis unfolding formats_ok_def
      by (auto simp: f generate_volume_format_def check_format_version_def CURRENT_VOLUME_FORMAT_VERSION_def MIN_SUPPORTED_VOLUME_FORMAT_VERSION_def)
  qed
  then show "formats_ok ps fmts" and "load_volumes I fs ps = Inr (Some fmts) \<and> fs' = fs \<or> (\<forall>f \<in> set fmts. vf_cluster_id f = None)"
    by auto
qed

lemma finalized_loads:
  assumes "formats_ok ps (f0 # rest)" "finalize_volumes I ps (f0 # rest) cid ms fs = (Inr u, fs')" "distinct ps"
    and "\<And>f. ix_dec I (ix_enc I f) = Some f"
  shows "load_volumes I fs' ps = Inr (Some (finalize_format cid ms f0 # map (finalize_format cid ms) rest))"
  using finalize_loads [OF assms(2) _ _ assms(3,4), of "vf_node_id f0"] assms(1) by (auto simp: formats_ok_def)

text \<open>
  C14: The identity a node boots with is the one it finds on its disks at the next boot.  Whichever
  way the boot went, fresh disks or known ones, alone or after the exchange with other nodes,
  loading the volume files it leaves behind succeeds and gives the same node id, the same cluster
  id and the same list of members.
\<close>

theorem identity_survives_restart:
  assumes boot: "resolve_identity I fuel ps listen nodes fs = (Inr (Some ri), fs')"
    and "distinct ps" "inj (ix_uuid I)" and "\<And>f. ix_dec I (ix_enc I f) = Some f"
  shows "\<exists>f0 rest. load_volumes I fs' ps = Inr (Some (f0 # rest)) \<and> vf_node_id f0 = ri_node_id ri
     \<and> vf_cluster_id f0 = Some (ri_cluster_id ri) \<and> vf_cluster f0 = Some (ri_all_members ri)"
proof -
  from boot obtain fmts fs1 where lf: "load_or_format I ps fs = (Inr fmts, fs1)"
    by (auto simp: resolve_identity_def then_do_Inr_iff)
  obtain f0 rest where fm: "fmts = f0 # rest" using boot lf by (cases fmts) (auto simp: resolve_identity_def)
  have ok: "formats_ok ps (f0 # rest)" using load_or_format_ok(1) [OF lf assms(3)] fm by simp
  note loads = finalized_loads [OF ok _ assms(2,4)]
  let ?adv = "derive_advertise I listen"
  consider (alone) "resolve_standalone I ps (vf_node_id f0) ?adv (f0 # rest) fs1 = (Inr (Some ri), fs')"
    | (known) cid ms where "vf_cluster_id f0 = Some cid" "vf_cluster f0 = Some ms" "fs' = fs1"
        "ri_node_id ri = vf_node_id f0" "ri_cluster_id ri = cid" "ri_all_members ri = ms"
    | (first) "resolve_first_boot I fuel ps nodes (vf_node_id f0) ?adv (f0 # rest) fs1 = (Inr (Some ri), fs')"
    using boot lf fm unfolding resolve_identity_def by (auto simp: Let_def split: if_splits option.splits)
  then show ?thesis
  proof cases
    case alone
    then show ?thesis unfolding resolve_standalone_def
      by (auto simp: Let_def then_do_Inr_iff finalize_format_def dest!: loads)
  next
    case known
    then have "load_volumes I fs ps = Inr (Some (f0 # rest)) \<and> fs1 = fs"
      using load_or_format_ok(2) [OF lf assms(3)] fm by auto
    with known show ?thesis by auto
  next
    case first
    then show ?thesis unfolding resolve_first_boot_def
      by (auto simp: Let_def then_do_Inr_iff finalize_format_def split: option.splits dest!: loads)
  qed
qed

lemma demo_boot:
  "\<exists>ri fs'. resolve_identity demo_identity_env 0 [[RootDir, NormalComp ''d'']] '':1'' [] [] = (Inr (Some ri), fs')"
proof -
  let ?p = "[RootDir, NormalComp ''d'']"
  have w: "\<exists>fs'. write_volume_format demo_identity_env ?p f fs = (Inr (), fs') \<and> map_of fs' (volume_path ?p) \<noteq> Some None
       \<and> (\<forall>q \<in> set (prefixes_of (push ?p ''.abixio.sys'')). \<not> is_file fs' q)"
    if nd: "map_of fs (volume_path ?p) \<noteq> Some None" and nf: "\<forall>q \<in> set (prefixes_of (push ?p ''.abixio.sys'')). \<not> is_file fs q" for f fs
  proof -
    obtain fs1 where c: "create_dir_all (push ?p ''.abixio.sys'') fs = (Inr (), fs1)"
      using nf by (auto simp: create_dir_all_def list_ex_iff)
    note c' = create_dir_all_Inr [OF c]
    have vp: "volume_path ?p \<notin> set (prefixes_of (push ?p ''.abixio.sys''))" "butlast (volume_path ?p) \<in> set (prefixes_of (push ?p ''.abixio.sys''))"
      by (simp_all add: volume_path_def push_def comp_of_def prefixes_of_def upt_rec)
    have "\<not> is_dir fs1 (volume_path ?p)" "is_dir fs1 (butlast (volume_path ?p))" using c'(2) vp nd by (auto simp: is_dir_def)
    then obtain fs2 where w2: "fs_write (volume_path ?p) (ix_enc demo_identity_env f) fs1 = (Inr (), fs2)" using fs_write_ok by blast
    note w' = fs_write_Inr [OF w2]
    have "write_volume_format demo_identity_env ?p f fs = (Inr (), fs2)" using c w2 by (simp add: write_volume_format_def)
    moreover have "map_of fs2 (volume_path ?p) \<noteq> Some None" using w'(2) \<open>\<not> is_dir fs1 (volume_path ?p)\<close> by (simp add: is_dir_def)
    moreover have "\<not> is_file fs2 q" if "q \<in> set (prefixes_of (push ?p ''.abixio.sys''))" for q
      using w'(1) [of q] c'(1) [of q] nf that vp by (auto simp: is_file_def)
    ultimately show ?thesis by blast
  qed
  obtain fs1 where f1: "write_volume_format demo_identity_env ?p (generate_volume_format demo_identity_env (ix_uuid demo_identity_env 0) 0) [] = (Inr (), fs1)"
    "map_of fs1 (volume_path ?p) \<noteq> Some None" "\<forall>q \<in> set (prefixes_of (push ?p ''.abixio.sys'')). \<not> is_file fs1 q"
    using w [of "[]"] by auto
  let ?f = "generate_volume_format demo_identity_env (ix_uuid demo_identity_env 0) 0"
  have "load_or_format demo_identity_env [?p] [] = (Inr [?f], fs1)"
    using f1(1) by (simp add: load_or_format_def load_volumes_def read_volume_format_def format_volumes_def Let_def)
  moreover have then_all: "\<exists>fs2. then_do (then_do (write_volume_format demo_identity_env ?p g fs1) (\<lambda>_. write_formats demo_identity_env [])) (\<lambda>_ fs. (Inr y, fs)) = (Inr y, fs2)"
    for g and y :: "resolved_identity option"
    using w [OF f1(2,3), of g] by auto
  moreover obtain ri fs2 where "resolve_standalone demo_identity_env [?p] (vf_node_id ?f) (derive_advertise demo_identity_env '':1'') [?f] fs1 = (Inr (Some ri), fs2)"
    unfolding resolve_standalone_def finalize_volumes_def Let_def list.map zip_Cons_Cons zip_Nil write_formats.simps(2)
    using then_all by blast
  ultimately show ?thesis by (auto simp: resolve_identity_def Let_def)
qed

theorem identity_survives_restart_witness:
  "\<exists>ri fs' f0 rest. resolve_identity demo_identity_env 0 [[RootDir, NormalComp ''d'']] '':1'' [] [] = (Inr (Some ri), fs')
     \<and> load_volumes demo_identity_env fs' [[RootDir, NormalComp ''d'']] = Inr (Some (f0 # rest)) \<and> vf_node_id f0 = ri_node_id ri
     \<and> vf_cluster_id f0 = Some (ri_cluster_id ri) \<and> vf_cluster f0 = Some (ri_all_members ri)"
proof -
  obtain ri fs' where b: "resolve_identity demo_identity_env 0 [[RootDir, NormalComp ''d'']] '':1'' [] [] = (Inr (Some ri), fs')"
    using demo_boot by auto
  have "inj (ix_uuid demo_identity_env)" by (rule injI) (simp add: demo_identity_env_def replicate_eq_replicate)
  from identity_survives_restart [OF b _ this] decode_encode_with [OF format_codec_ok] b show ?thesis
    by (auto simp: demo_identity_env_def)
qed

section \<open>After a restart the other nodes are looked for in one place\<close>

lemma push_group_mem:
  "\<exists>vs. (n, vs) \<in> set (push_group n v gs) \<and> v \<in> set vs"
  "(n', vs) \<in> set gs \<Longrightarrow> \<exists>vs'. (n', vs') \<in> set (push_group n v gs) \<and> set vs \<subseteq> set vs'"
  by (induction n v gs rule: push_group.induct) auto

lemma fold_group_mem:
  "(\<exists>vs. (n, vs) \<in> set gs \<and> v \<in> set vs) \<or> (\<exists>m \<in> set ms. sm_node_id m = n \<and> sm_volume_id m = v)
   \<Longrightarrow> \<exists>vs. (n, vs) \<in> set (fold (\<lambda>m. push_group (sm_node_id m) (sm_volume_id m)) ms gs) \<and> v \<in> set vs"
proof (induction ms arbitrary: gs)
  case (Cons m ms)
  show ?case
  proof (cases "sm_node_id m = n \<and> sm_volume_id m = v")
    case True
    then show ?thesis using Cons.IH [of "push_group n v gs"] push_group_mem(1) [of n v gs] by auto
  next
    case False
    then have "(\<exists>vs. (n, vs) \<in> set (push_group (sm_node_id m) (sm_volume_id m) gs) \<and> v \<in> set vs) \<or> (\<exists>m \<in> set ms. sm_node_id m = n \<and> sm_volume_id m = v)"
      using Cons.prems push_group_mem(2) [of n _ gs "sm_node_id m" "sm_volume_id m"] by fastforce
    from Cons.IH [OF this] show ?thesis by simp
  qed
qed simp

text \<open>
  C37: When a node of a cluster boots from disks that already know the cluster, it looks for every
  volume of every other node at the same endpoint, the first of the list that is not its own, and
  under the id of the volume where the other node expects the path: with three nodes or more, all
  but one of the other nodes are never asked.
\<close>

theorem restart_asks_one_node:
  assumes "load_volumes I fs ps = Inr (Some (f0 # rest))" "vf_cluster_id f0 = Some cid" "vf_cluster f0 = Some ms" "nodes \<noteq> []"
    and "m \<in> set ms" "sm_node_id m \<noteq> vf_node_id f0"
  shows "\<exists>ri nv. resolve_identity I fuel ps listen nodes fs = (Inr (Some ri), fs) \<and> nv \<in> set (ri_node_volumes ri)
     \<and> nv_node_id nv = sm_node_id m \<and> sm_volume_id m \<in> set (nv_volume_paths nv)
     \<and> nv_endpoint nv = first_other_endpoint (derive_advertise I listen) nodes
     \<and> (\<forall>nv' \<in> set (ri_node_volumes ri). nv_node_id nv' \<noteq> vf_node_id f0 \<longrightarrow> nv_endpoint nv' = first_other_endpoint (derive_advertise I listen) nodes)"
proof -
  obtain vs where vs: "(sm_node_id m, vs) \<in> set (group_members ms)" "sm_volume_id m \<in> set vs"
    using fold_group_mem [of "sm_node_id m" "[]" "sm_volume_id m" ms] assms(5) unfolding group_members_def by auto
  have r: "resolve_identity I fuel ps listen nodes fs = (Inr (Some \<lparr> ri_node_id = vf_node_id f0, ri_cluster_id = cid,
      ri_advertise = derive_advertise I listen, ri_nodes = nodes, ri_disk_paths = ps, ri_all_members = ms,
      ri_node_volumes = build_node_volumes_from_members I (vf_node_id f0) (derive_advertise I listen) ps ms nodes \<rparr>), fs)"
    using assms by (simp add: resolve_identity_def load_or_format_def Let_def)
  have "\<lparr> nv_node_id = sm_node_id m, nv_endpoint = first_other_endpoint (derive_advertise I listen) nodes, nv_volume_paths = vs \<rparr>
      \<in> set (build_node_volumes_from_members I (vf_node_id f0) (derive_advertise I listen) ps ms nodes)"
    using vs(1) assms(6) by (force simp: build_node_volumes_from_members_def Let_def)
  moreover have "nv_endpoint nv' = first_other_endpoint (derive_advertise I listen) nodes"
    if "nv' \<in> set (build_node_volumes_from_members I (vf_node_id f0) (derive_advertise I listen) ps ms nodes)" "nv_node_id nv' \<noteq> vf_node_id f0" for nv'
    using that by (auto simp: build_node_volumes_from_members_def Let_def split: if_splits)
  ultimately show ?thesis using r vs(2) by (intro exI conjI) auto
qed

definition known_format :: volume_format where
  "known_format = \<lparr> vf_version = 1, vf_cluster_id = Some ''c'', vf_node_id = ''a'', vf_volume_id = ''va'', vf_volume_index = 0, vf_created_at = 7,
     vf_cluster = Some [\<lparr> sm_volume_id = ''va'', sm_node_id = ''a'', sm_index = 0 \<rparr>, \<lparr> sm_volume_id = ''vb'', sm_node_id = ''b'', sm_index = 1 \<rparr>,
       \<lparr> sm_volume_id = ''vc'', sm_node_id = ''c'', sm_index = 2 \<rparr>] \<rparr>"

theorem restart_asks_one_node_witness:
  "\<exists>ri nv. resolve_identity demo_identity_env 0 [[RootDir]] '':1'' [''http://b:1'', ''http://c:1''] [(volume_path [RootDir], Some (encode_with format_codec known_format))]
       = (Inr (Some ri), [(volume_path [RootDir], Some (encode_with format_codec known_format))])
     \<and> nv \<in> set (ri_node_volumes ri) \<and> nv_node_id nv = ''c'' \<and> ''vc'' \<in> set (nv_volume_paths nv) \<and> nv_endpoint nv = ''http://b:1''"
proof -
  let ?fs = "[(volume_path [RootDir], Some (encode_with format_codec known_format))]"
  have "load_volumes demo_identity_env ?fs [[RootDir]] = Inr (Some [known_format])"
    using decode_encode_with [OF format_codec_ok, of known_format]
    by (simp add: load_volumes_iff holds_format_def fs_read_def demo_identity_env_def check_format_version_def known_format_def
        CURRENT_VOLUME_FORMAT_VERSION_def MIN_SUPPORTED_VOLUME_FORMAT_VERSION_def)
  moreover have "first_other_endpoint (derive_advertise demo_identity_env '':1'') [''http://b:1'', ''http://c:1''] = ''http://b:1''"
    by (simp add: first_other_endpoint_def derive_advertise_def demo_identity_env_def trim_end_slashes_def Let_def)
  moreover have "vf_cluster_id known_format = Some ''c''" "vf_cluster known_format = Some [\<lparr> sm_volume_id = ''va'', sm_node_id = ''a'', sm_index = 0 \<rparr>,
      \<lparr> sm_volume_id = ''vb'', sm_node_id = ''b'', sm_index = 1 \<rparr>, \<lparr> sm_volume_id = ''vc'', sm_node_id = ''c'', sm_index = 2 \<rparr>]" "vf_node_id known_format = ''a''"
    by (simp_all add: known_format_def)
  ultimately show ?thesis
    using restart_asks_one_node [of demo_identity_env ?fs "[[RootDir]]" known_format "[]" "''c''" _ "[''http://b:1'', ''http://c:1'']"
      "\<lparr> sm_volume_id = ''vc'', sm_node_id = ''c'', sm_index = 2 \<rparr>" 0 "'':1''"] by simp blast
qed

end
