(* ===== verification/Remote.thy ===== *)
theory Remote
  imports Backend Caches Internode_Auth
begin

text \<open>
  Volumes of other nodes: the storage server that offers the local volumes over HTTP
  (\<open>src/storage/storage_server.rs\<close>), the client behind the interface of a disk
  (\<open>src/storage/remote_volume.rs\<close>) and the client of the peer caches
  (\<open>src/storage/peer_cache.rs\<close>).  Requests and responses are records; serializers, the query
  encoding and the Raft runtime are parameters.  The HTTP method of a request is not modelled: the
  server does not look at it.
\<close>

section \<open>Messages\<close>

record http_request =
  rq_path :: string
  rq_query :: string
  rq_headers :: "(string \<times> string) list"
  rq_body :: "string + bytes"

record http_response =
  rp_status :: nat
  rp_headers :: "(string \<times> string) list"
  rp_body :: bytes

definition text_bytes :: "string \<Rightarrow> bytes" where
  "text_bytes s = map (\<lambda>c. of_nat (of_char c)) s"

definition bytes_text :: "bytes \<Rightarrow> string" where
  "bytes_text bs = map (\<lambda>b. char_of (unat b)) bs"

lemma bytes_text_bytes [simp]: "bytes_text (text_bytes s) = s"
proof -
  have "char_of (unat (of_nat (of_char c) :: u8)) = c" for c
    using of_char_mod_256 [of c, where ?'a = nat] by (simp add: unat_of_nat)
  then show ?thesis by (simp add: bytes_text_def text_bytes_def comp_def)
qed

text \<open>A header value is text only when it is made of visible ASCII characters and tabs.\<close>

definition visible_ascii :: "string \<Rightarrow> bool" where
  "visible_ascii s = list_all (\<lambda>c. let n = (of_char c :: nat) in 32 \<le> n \<and> n \<le> 126 \<or> n = 9) s"

definition header_text :: "string \<Rightarrow> (string \<times> string) list \<Rightarrow> string option" where
  "header_text name hs = (case map_of hs name of Some v \<Rightarrow> if visible_ascii v then Some v else None | None \<Rightarrow> None)"

record rpc_lib =
  w_query :: "(string \<times> string) list \<Rightarrow> string"
  r_query :: "string \<Rightarrow> (string \<times> string) list"
  w_meta :: "object_meta \<Rightarrow> string"
  r_meta :: "string \<Rightarrow> object_meta option"
  w_metas :: "object_meta list \<Rightarrow> string"
  r_metas :: "string \<Rightarrow> object_meta list option"
  w_settings :: "bucket_settings \<Rightarrow> string"
  r_settings :: "string \<Rightarrow> bucket_settings option"
  w_texts :: "string list \<Rightarrow> string"
  r_texts :: "string \<Rightarrow> string list option"
  w_flag :: "bool \<Rightarrow> string"
  r_flag :: "string \<Rightarrow> bool option"
  w_num :: "u64 \<Rightarrow> string"
  r_num :: "string \<Rightarrow> u64 option"
  w_info :: "backend_info \<Rightarrow> string"
  w_error :: "string \<Rightarrow> string"
  r_error :: "string \<Rightarrow> string option"
  w_cache_entry :: "write_entry \<Rightarrow> bytes option"
  r_cache_entry :: "bytes \<Rightarrow> write_entry option"
  w_cache_entries :: "(string \<times> string \<times> write_entry) list \<Rightarrow> bytes option"
  r_cache_entries :: "bytes \<Rightarrow> (string \<times> string \<times> write_entry) list option"
  rl_jwt :: jwt_lib
  rl_is_uuid :: "string \<Rightarrow> bool"

section \<open>Errors on the wire\<close>

definition path_error_text :: "path_error \<Rightarrow> string" where
  "path_error_text e = (case e of InvalidBucketName s \<Rightarrow> ''invalid bucket name: '' @ s
    | InvalidObjectKey s \<Rightarrow> ''invalid object key or prefix: '' @ s
    | InvalidVersionId s \<Rightarrow> ''invalid version id: '' @ s
    | InvalidUploadId s \<Rightarrow> ''invalid upload id: '' @ s
    | OutsideRoot \<Rightarrow> ''invalid object key or prefix: '')"

definition error_text :: "storage_error \<Rightarrow> string" where
  "error_text e = (case e of BucketNotFound \<Rightarrow> ''bucket not found'' | ObjectNotFound \<Rightarrow> ''object not found''
    | BucketExists \<Rightarrow> ''bucket already exists'' | BucketNotEmpty \<Rightarrow> ''bucket not empty''
    | WriteQuorum \<Rightarrow> ''write quorum not met'' | ReadQuorum \<Rightarrow> ''read quorum not met'' | Bitrot \<Rightarrow> ''bitrot detected''
    | InvalidConfig s \<Rightarrow> ''invalid config: '' @ s | Io s \<Rightarrow> ''io error: '' @ s
    | NameError p \<Rightarrow> path_error_text p | Internal s \<Rightarrow> ''internal error: '' @ s)"

definition json_body :: "string \<Rightarrow> http_response" where
  "json_body s = \<lparr> rp_status = 200, rp_headers = [(''Content-Type'', ''application/json'')], rp_body = text_bytes s \<rparr>"

definition error_response :: "rpc_lib \<Rightarrow> nat \<Rightarrow> string \<Rightarrow> http_response" where
  "error_response M status msg = \<lparr> rp_status = status, rp_headers = [(''Content-Type'', ''application/json'')], rp_body = text_bytes (w_error M msg) \<rparr>"

definition ok_empty :: http_response where
  "ok_empty = \<lparr> rp_status = 200, rp_headers = [], rp_body = [] \<rparr>"

definition error_status :: "storage_error \<Rightarrow> nat" where
  "error_status e = (case e of BucketNotFound \<Rightarrow> 404 | ObjectNotFound \<Rightarrow> 404 | BucketExists \<Rightarrow> 409 | BucketNotEmpty \<Rightarrow> 409
    | InvalidConfig _ \<Rightarrow> 400 | NameError _ \<Rightarrow> 400 | _ \<Rightarrow> 500)"

definition storage_error_response :: "rpc_lib \<Rightarrow> storage_error \<Rightarrow> http_response" where
  "storage_error_response M e = error_response M (error_status e) (error_text e)"

definition is_success :: "http_response \<Rightarrow> bool" where
  "is_success r \<longleftrightarrow> 200 \<le> rp_status r \<and> rp_status r \<le> 299"

definition classify_error :: "nat \<Rightarrow> string \<Rightarrow> storage_error" where
  "classify_error status msg =
     (if status = 404 then if contains_str ''bucket'' msg then BucketNotFound else ObjectNotFound
      else if status = 400 \<and> contains_str ''invalid bucket name'' msg then NameError (InvalidBucketName msg)
      else if status = 400 \<and> contains_str ''invalid object key'' msg then NameError (InvalidObjectKey msg)
      else if status = 400 \<and> contains_str ''invalid version id'' msg then NameError (InvalidVersionId msg)
      else if status = 400 \<and> contains_str ''invalid upload id'' msg then NameError (InvalidUploadId msg)
      else if status = 409 then if contains_str ''not empty'' msg then BucketNotEmpty else BucketExists
      else Io msg)"

definition parse_error :: "rpc_lib \<Rightarrow> http_response \<Rightarrow> storage_error" where
  "parse_error M r = (let body = bytes_text (rp_body r) in
     classify_error (rp_status r) (case r_error M body of Some msg \<Rightarrow> msg | None \<Rightarrow> body))"

section \<open>The server\<close>

text \<open>
  The volumes by path, and the shared write cache.  \<open>sv_raft\<close> is the Raft runtime behind the
  three routes of the consensus protocol: it refuses a body it cannot decode (a status and a
  message) or answers with bytes.
\<close>

record ('d, 'm) storage_server =
  sv_volumes :: "(string \<times> 'd) list"
  sv_access_key :: string
  sv_secret_key :: string
  sv_no_auth :: bool
  sv_write_cache :: "'m write_cache option"
  sv_raft :: "(string \<Rightarrow> bytes \<Rightarrow> nat \<times> string + bytes) option"

record ('d, 'w, 'm) server_env =
  se_ops :: "('d, 'w) backend_ops"
  se_dash :: "(write_entry, 'm) dash_ops"
  se_nanos :: "nat option"
  se_instant :: nat

definition authenticate :: "rpc_lib \<Rightarrow> nat option \<Rightarrow> ('d, 'm) storage_server \<Rightarrow> http_request \<Rightarrow> string + unit" where
  "authenticate M clk sv req = (if sv_no_auth sv then Inr ()
     else case header_text ''authorization'' (rq_headers req) of None \<Rightarrow> Inl ''missing authorization header''
     | Some auth \<Rightarrow> (case strip_prefix ''Bearer '' auth of None \<Rightarrow> Inl ''invalid auth scheme''
       | Some token \<Rightarrow>
           res_bind (validate_token (rl_jwt M) (case clk of Some n \<Rightarrow> n | None \<Rightarrow> 0) token (sv_access_key sv) (sv_secret_key sv)) (\<lambda>_.
             case header_text ''x-abixio-time'' (rq_headers req) of None \<Rightarrow> Inr ()
             | Some t \<Rightarrow> validate_clock_skew clk t)))"

definition query_param :: "rpc_lib \<Rightarrow> http_request \<Rightarrow> string \<Rightarrow> string" where
  "query_param M req key = (case map_of (rev (r_query M (rq_query req))) key of Some v \<Rightarrow> v | None \<Rightarrow> [])"

definition resolve_volume :: "('d, 'm) storage_server \<Rightarrow> http_request \<Rightarrow> string + string \<times> 'd" where
  "resolve_volume sv req = (case header_text ''x-abixio-volume-path'' (rq_headers req) of
      None \<Rightarrow> Inl ''missing x-abixio-volume-path header''
    | Some p \<Rightarrow> (case map_of (sv_volumes sv) p of None \<Rightarrow> Inl (''unknown volume: '' @ p) | Some d \<Rightarrow> Inr (p, d)))"

definition set_volume :: "string \<Rightarrow> 'd \<Rightarrow> ('d, 'm) storage_server \<Rightarrow> ('d, 'm) storage_server" where
  "set_volume p d sv = sv\<lparr> sv_volumes := AList.update p d (sv_volumes sv) \<rparr>"

definition validate_names :: "rpc_lib \<Rightarrow> string \<Rightarrow> string option \<Rightarrow> string option \<Rightarrow> storage_error + unit" where
  "validate_names M bucket key version_id = lift_path (res_bind (validate_bucket_name bucket) (\<lambda>_.
     res_bind (case key of Some k \<Rightarrow> validate_object_key k | None \<Rightarrow> Inr ()) (\<lambda>_.
       case version_id of Some v \<Rightarrow> validate_version_id (rl_is_uuid M) v | None \<Rightarrow> Inr ())))"

text \<open>The frame of the handlers: the volume, the names, then the work; a handler that changes nothing returns no volume.\<close>

definition on_volume ::
  "rpc_lib \<Rightarrow> ('d, 'm) storage_server \<Rightarrow> http_request \<Rightarrow> (storage_error + unit) \<Rightarrow> ('d \<Rightarrow> http_response \<times> 'd) \<Rightarrow> http_response \<times> ('d, 'm) storage_server" where
  "on_volume M sv req names work = (case resolve_volume sv req of
      Inl e \<Rightarrow> (error_response M 400 e, sv)
    | Inr (p, d) \<Rightarrow> (case names of Inl e \<Rightarrow> (storage_error_response M e, sv)
        | Inr u \<Rightarrow> (case work d of (r, d') \<Rightarrow> (r, set_volume p d' sv))))"

definition reply_unit :: "rpc_lib \<Rightarrow> (storage_error + unit) \<times> 'd \<Rightarrow> http_response \<times> 'd" where
  "reply_unit M r = (case r of (Inr u, d) \<Rightarrow> (ok_empty, d) | (Inl e, d) \<Rightarrow> (storage_error_response M e, d))"

definition reply_json :: "rpc_lib \<Rightarrow> ('a \<Rightarrow> string) \<Rightarrow> storage_error + 'a \<Rightarrow> http_response" where
  "reply_json M enc r = (case r of Inr x \<Rightarrow> json_body (enc x) | Inl e \<Rightarrow> storage_error_response M e)"

definition reply_shard :: "rpc_lib \<Rightarrow> storage_error + bytes \<times> object_meta \<Rightarrow> http_response" where
  "reply_shard M r = (case r of
      Inr (data, meta) \<Rightarrow> \<lparr> rp_status = 200, rp_headers = [(''x-abixio-meta'', w_meta M meta)], rp_body = data \<rparr>
    | Inl e \<Rightarrow> storage_error_response M e)"

definition body_of :: "rpc_lib \<Rightarrow> http_request \<Rightarrow> (bytes \<Rightarrow> 'd \<Rightarrow> http_response \<times> 'd) \<Rightarrow> 'd \<Rightarrow> http_response \<times> 'd" where
  "body_of M req f d = (case rq_body req of Inl e \<Rightarrow> (error_response M 400 e, d) | Inr bs \<Rightarrow> f bs d)"

definition handle_info :: "rpc_lib \<Rightarrow> ('d, 'w, 'm) server_env \<Rightarrow> ('d, 'm) storage_server \<Rightarrow> http_request \<Rightarrow> http_response \<times> ('d, 'm) storage_server" where
  "handle_info M S sv req = on_volume M sv req (Inr ()) (\<lambda>d. (json_body (w_info M (bk_info (se_ops S) d)), d))"

definition handle_write_shard :: "rpc_lib \<Rightarrow> ('d, 'w, 'm) server_env \<Rightarrow> ('d, 'm) storage_server \<Rightarrow> http_request \<Rightarrow> http_response \<times> ('d, 'm) storage_server" where
  "handle_write_shard M S sv req =
     (let bucket = query_param M req ''bucket''; key = query_param M req ''key'' in
      on_volume M sv req (validate_names M bucket (Some key) None) (\<lambda>d.
        case r_meta M (query_param M req ''meta'') of None \<Rightarrow> (error_response M 400 ''bad meta'', d)
        | Some meta \<Rightarrow> body_of M req (\<lambda>body d. reply_unit M (bk_write_shard (se_ops S) bucket key body meta d)) d))"

definition handle_read_shard :: "rpc_lib \<Rightarrow> ('d, 'w, 'm) server_env \<Rightarrow> ('d, 'm) storage_server \<Rightarrow> http_request \<Rightarrow> http_response \<times> ('d, 'm) storage_server" where
  "handle_read_shard M S sv req =
     (let bucket = query_param M req ''bucket''; key = query_param M req ''key'' in
      on_volume M sv req (validate_names M bucket (Some key) None) (\<lambda>d. (reply_shard M (bk_read_shard (se_ops S) d bucket key), d)))"

definition handle_delete_object :: "rpc_lib \<Rightarrow> ('d, 'w, 'm) server_env \<Rightarrow> ('d, 'm) storage_server \<Rightarrow> http_request \<Rightarrow> http_response \<times> ('d, 'm) storage_server" where
  "handle_delete_object M S sv req =
     (let bucket = query_param M req ''bucket''; key = query_param M req ''key'' in
      on_volume M sv req (validate_names M bucket (Some key) None) (\<lambda>d. reply_unit M (bk_delete_object (se_ops S) bucket key d)))"

definition handle_stat_object :: "rpc_lib \<Rightarrow> ('d, 'w, 'm) server_env \<Rightarrow> ('d, 'm) storage_server \<Rightarrow> http_request \<Rightarrow> http_response \<times> ('d, 'm) storage_server" where
  "handle_stat_object M S sv req =
     (let bucket = query_param M req ''bucket''; key = query_param M req ''key'' in
      on_volume M sv req (validate_names M bucket (Some key) None) (\<lambda>d. (reply_json M (w_meta M) (bk_stat_object (se_ops S) d bucket key), d)))"

definition handle_list_objects :: "rpc_lib \<Rightarrow> ('d, 'w, 'm) server_env \<Rightarrow> ('d, 'm) storage_server \<Rightarrow> http_request \<Rightarrow> http_response \<times> ('d, 'm) storage_server" where
  "handle_list_objects M S sv req =
     (let bucket = query_param M req ''bucket''; prefix = query_param M req ''prefix'' in
      on_volume M sv req (res_bind (validate_names M bucket None None) (\<lambda>_. lift_path (validate_object_prefix prefix)))
        (\<lambda>d. (reply_json M (w_texts M) (bk_list_objects (se_ops S) d bucket prefix), d)))"

definition handle_list_buckets :: "rpc_lib \<Rightarrow> ('d, 'w, 'm) server_env \<Rightarrow> ('d, 'm) storage_server \<Rightarrow> http_request \<Rightarrow> http_response \<times> ('d, 'm) storage_server" where
  "handle_list_buckets M S sv req = on_volume M sv req (Inr ()) (\<lambda>d. (reply_json M (w_texts M) (bk_list_buckets (se_ops S) d), d))"

definition handle_make_bucket :: "rpc_lib \<Rightarrow> ('d, 'w, 'm) server_env \<Rightarrow> ('d, 'm) storage_server \<Rightarrow> http_request \<Rightarrow> http_response \<times> ('d, 'm) storage_server" where
  "handle_make_bucket M S sv req = (let bucket = query_param M req ''bucket'' in
     on_volume M sv req (validate_names M bucket None None) (\<lambda>d. reply_unit M (bk_make_bucket (se_ops S) bucket d)))"

definition handle_delete_bucket :: "rpc_lib \<Rightarrow> ('d, 'w, 'm) server_env \<Rightarrow> ('d, 'm) storage_server \<Rightarrow> http_request \<Rightarrow> http_response \<times> ('d, 'm) storage_server" where
  "handle_delete_bucket M S sv req = (let bucket = query_param M req ''bucket'' in
     on_volume M sv req (validate_names M bucket None None) (\<lambda>d. reply_unit M (bk_delete_bucket (se_ops S) bucket d)))"

definition handle_bucket_exists :: "rpc_lib \<Rightarrow> ('d, 'w, 'm) server_env \<Rightarrow> ('d, 'm) storage_server \<Rightarrow> http_request \<Rightarrow> http_response \<times> ('d, 'm) storage_server" where
  "handle_bucket_exists M S sv req = (let bucket = query_param M req ''bucket'' in
     on_volume M sv req (validate_names M bucket None None) (\<lambda>d. (json_body (w_flag M (bk_bucket_exists (se_ops S) d bucket)), d)))"

definition handle_bucket_created_at :: "rpc_lib \<Rightarrow> ('d, 'w, 'm) server_env \<Rightarrow> ('d, 'm) storage_server \<Rightarrow> http_request \<Rightarrow> http_response \<times> ('d, 'm) storage_server" where
  "handle_bucket_created_at M S sv req = (let bucket = query_param M req ''bucket'' in
     on_volume M sv req (validate_names M bucket None None) (\<lambda>d. (json_body (w_num M (bk_bucket_created_at (se_ops S) d bucket)), d)))"

definition handle_update_meta :: "rpc_lib \<Rightarrow> ('d, 'w, 'm) server_env \<Rightarrow> ('d, 'm) storage_server \<Rightarrow> http_request \<Rightarrow> http_response \<times> ('d, 'm) storage_server" where
  "handle_update_meta M S sv req =
     (let bucket = query_param M req ''bucket''; key = query_param M req ''key'' in
      on_volume M sv req (validate_names M bucket (Some key) None) (body_of M req (\<lambda>body d.
        case r_meta M (bytes_text body) of None \<Rightarrow> (error_response M 400 ''bad meta'', d)
        | Some meta \<Rightarrow> reply_unit M (bk_update_meta (se_ops S) bucket key meta d))))"

definition handle_read_meta_versions :: "rpc_lib \<Rightarrow> ('d, 'w, 'm) server_env \<Rightarrow> ('d, 'm) storage_server \<Rightarrow> http_request \<Rightarrow> http_response \<times> ('d, 'm) storage_server" where
  "handle_read_meta_versions M S sv req =
     (let bucket = query_param M req ''bucket''; key = query_param M req ''key'' in
      on_volume M sv req (validate_names M bucket (Some key) None) (\<lambda>d. (reply_json M (w_metas M) (bk_read_meta_versions (se_ops S) d bucket key), d)))"

definition handle_write_meta_versions :: "rpc_lib \<Rightarrow> ('d, 'w, 'm) server_env \<Rightarrow> ('d, 'm) storage_server \<Rightarrow> http_request \<Rightarrow> http_response \<times> ('d, 'm) storage_server" where
  "handle_write_meta_versions M S sv req =
     (let bucket = query_param M req ''bucket''; key = query_param M req ''key'' in
      on_volume M sv req (validate_names M bucket (Some key) None) (body_of M req (\<lambda>body d.
        case r_metas M (bytes_text body) of None \<Rightarrow> (error_response M 400 ''bad versions'', d)
        | Some versions \<Rightarrow> reply_unit M (bk_write_meta_versions (se_ops S) bucket key versions d))))"

definition handle_write_versioned_shard :: "rpc_lib \<Rightarrow> ('d, 'w, 'm) server_env \<Rightarrow> ('d, 'm) storage_server \<Rightarrow> http_request \<Rightarrow> http_response \<times> ('d, 'm) storage_server" where
  "handle_write_versioned_shard M S sv req =
     (let bucket = query_param M req ''bucket''; key = query_param M req ''key''; version_id = query_param M req ''version_id'' in
      on_volume M sv req (validate_names M bucket (Some key) (Some version_id)) (\<lambda>d.
        case r_meta M (query_param M req ''meta'') of None \<Rightarrow> (error_response M 400 ''bad meta'', d)
        | Some meta \<Rightarrow> body_of M req (\<lambda>body d. reply_unit M (bk_write_versioned_shard (se_ops S) bucket key version_id body meta d)) d))"

definition handle_read_versioned_shard :: "rpc_lib \<Rightarrow> ('d, 'w, 'm) server_env \<Rightarrow> ('d, 'm) storage_server \<Rightarrow> http_request \<Rightarrow> http_response \<times> ('d, 'm) storage_server" where
  "handle_read_versioned_shard M S sv req =
     (let bucket = query_param M req ''bucket''; key = query_param M req ''key''; version_id = query_param M req ''version_id'' in
      on_volume M sv req (validate_names M bucket (Some key) (Some version_id))
        (\<lambda>d. (reply_shard M (bk_read_versioned_shard (se_ops S) d bucket key version_id), d)))"

definition handle_delete_version_data :: "rpc_lib \<Rightarrow> ('d, 'w, 'm) server_env \<Rightarrow> ('d, 'm) storage_server \<Rightarrow> http_request \<Rightarrow> http_response \<times> ('d, 'm) storage_server" where
  "handle_delete_version_data M S sv req =
     (let bucket = query_param M req ''bucket''; key = query_param M req ''key''; version_id = query_param M req ''version_id'' in
      on_volume M sv req (validate_names M bucket (Some key) (Some version_id))
        (\<lambda>d. reply_unit M (bk_delete_version_data (se_ops S) bucket key version_id d)))"

definition handle_read_bucket_settings :: "rpc_lib \<Rightarrow> ('d, 'w, 'm) server_env \<Rightarrow> ('d, 'm) storage_server \<Rightarrow> http_request \<Rightarrow> http_response \<times> ('d, 'm) storage_server" where
  "handle_read_bucket_settings M S sv req = (let bucket = query_param M req ''bucket'' in
     on_volume M sv req (validate_names M bucket None None) (\<lambda>d. (json_body (w_settings M (bk_read_bucket_settings (se_ops S) d bucket)), d)))"

definition handle_write_bucket_settings :: "rpc_lib \<Rightarrow> ('d, 'w, 'm) server_env \<Rightarrow> ('d, 'm) storage_server \<Rightarrow> http_request \<Rightarrow> http_response \<times> ('d, 'm) storage_server" where
  "handle_write_bucket_settings M S sv req = (let bucket = query_param M req ''bucket'' in
     on_volume M sv req (validate_names M bucket None None) (body_of M req (\<lambda>body d.
       case r_settings M (bytes_text body) of None \<Rightarrow> (error_response M 400 ''bad settings'', d)
       | Some settings \<Rightarrow> reply_unit M (bk_write_bucket_settings (se_ops S) bucket settings d))))"

definition handle_cache_replicate :: "rpc_lib \<Rightarrow> ('d, 'w, 'm) server_env \<Rightarrow> ('d, 'm) storage_server \<Rightarrow> http_request \<Rightarrow> http_response \<times> ('d, 'm) storage_server" where
  "handle_cache_replicate M S sv req = (case sv_write_cache sv of
      None \<Rightarrow> (error_response M 503 ''write cache disabled on this node'', sv)
    | Some cache \<Rightarrow>
        (let bucket = query_param M req ''bucket''; key = query_param M req ''key'' in
         case validate_names M bucket (Some key) None of Inl e \<Rightarrow> (storage_error_response M e, sv)
         | Inr u \<Rightarrow> (case rq_body req of Inl e \<Rightarrow> (error_response M 400 e, sv)
           | Inr body \<Rightarrow> (case r_cache_entry M body of None \<Rightarrow> (error_response M 400 ''decode cache entry'', sv)
             | Some entry \<Rightarrow> (case wc_insert (se_dash S) bucket key (entry\<lparr> we_cached_at_local := se_instant S \<rparr>) cache of
                 (inserted, cache) \<Rightarrow> (if inserted then ok_empty else error_response M 507 ''peer cache full'', sv\<lparr> sv_write_cache := Some cache \<rparr>))))))"

definition handle_cache_sync :: "rpc_lib \<Rightarrow> ('d, 'w, 'm) server_env \<Rightarrow> ('d, 'm) storage_server \<Rightarrow> http_request \<Rightarrow> http_response \<times> ('d, 'm) storage_server" where
  "handle_cache_sync M S sv req = (case sv_write_cache sv of
      None \<Rightarrow> (error_response M 503 ''write cache disabled on this node'', sv)
    | Some cache \<Rightarrow>
        (let primary_node_id = query_param M req ''primary_node_id'' in
         if primary_node_id = [] then (error_response M 400 ''missing primary_node_id'', sv)
         else case wc_drain_by_primary (se_dash S) primary_node_id cache of
           (entries, cache) \<Rightarrow> (case w_cache_entries M entries of
               Some bytes \<Rightarrow> \<lparr> rp_status = 200, rp_headers = [(''Content-Type'', ''application/msgpack'')], rp_body = bytes \<rparr>
             | None \<Rightarrow> error_response M 500 ''encode sync'', sv\<lparr> sv_write_cache := Some cache \<rparr>)))"

definition handle_raft :: "rpc_lib \<Rightarrow> string \<Rightarrow> ('d, 'm) storage_server \<Rightarrow> http_request \<Rightarrow> http_response \<times> ('d, 'm) storage_server" where
  "handle_raft M kind sv req = (case sv_raft sv of
      None \<Rightarrow> (error_response M 503 ''raft not enabled'', sv)
    | Some rpc \<Rightarrow> (case rq_body req of Inl e \<Rightarrow> (error_response M 400 e, sv)
        | Inr body \<Rightarrow> (case rpc kind body of
            Inl (status, msg) \<Rightarrow> (error_response M status msg, sv)
          | Inr bytes \<Rightarrow> (\<lparr> rp_status = 200, rp_headers = [(''Content-Type'', ''application/bincode'')], rp_body = bytes \<rparr>, sv))))"

definition route :: "rpc_lib \<Rightarrow> ('d, 'w, 'm) server_env \<Rightarrow> string \<Rightarrow> ('d, 'm) storage_server \<Rightarrow> http_request \<Rightarrow> http_response \<times> ('d, 'm) storage_server" where
  "route M S meth =
     (if meth = ''/info'' then handle_info M S
      else if meth = ''/write-shard'' then handle_write_shard M S
      else if meth = ''/read-shard'' then handle_read_shard M S
      else if meth = ''/delete-object'' then handle_delete_object M S
      else if meth = ''/stat-object'' then handle_stat_object M S
      else if meth = ''/list-objects'' then handle_list_objects M S
      else if meth = ''/list-buckets'' then handle_list_buckets M S
      else if meth = ''/make-bucket'' then handle_make_bucket M S
      else if meth = ''/delete-bucket'' then handle_delete_bucket M S
      else if meth = ''/bucket-exists'' then handle_bucket_exists M S
      else if meth = ''/bucket-created-at'' then handle_bucket_created_at M S
      else if meth = ''/update-meta'' then handle_update_meta M S
      else if meth = ''/read-meta-versions'' then handle_read_meta_versions M S
      else if meth = ''/write-meta-versions'' then handle_write_meta_versions M S
      else if meth = ''/write-versioned-shard'' then handle_write_versioned_shard M S
      else if meth = ''/read-versioned-shard'' then handle_read_versioned_shard M S
      else if meth = ''/delete-version-data'' then handle_delete_version_data M S
      else if meth = ''/read-bucket-settings'' then handle_read_bucket_settings M S
      else if meth = ''/write-bucket-settings'' then handle_write_bucket_settings M S
      else if meth = ''/cache-replicate'' then handle_cache_replicate M S
      else if meth = ''/cache-sync'' then handle_cache_sync M S
      else if meth \<in> {''/raft/append-entries'', ''/raft/vote'', ''/raft/install-snapshot''} then handle_raft M meth
      else (\<lambda>sv req. (error_response M 404 ''unknown storage endpoint'', sv)))"

definition dispatch :: "rpc_lib \<Rightarrow> ('d, 'w, 'm) server_env \<Rightarrow> http_request \<Rightarrow> ('d, 'm) storage_server \<Rightarrow> http_response \<times> ('d, 'm) storage_server" where
  "dispatch M S req sv = (case authenticate M (se_nanos S) sv req of
      Inl e \<Rightarrow> (error_response M 401 e, sv)
    | Inr u \<Rightarrow> route M S (case strip_prefix ''/_storage/v1'' (rq_path req) of Some m \<Rightarrow> m | None \<Rightarrow> rq_path req) sv req)"

section \<open>The client\<close>

record remote_volume =
  rv_endpoint :: string
  rv_volume_path :: string
  rv_access_key :: string
  rv_secret_key :: string
  rv_no_auth :: bool

text \<open>The endpoint is a scheme and an authority; what follows them in the URL is the path of the request.\<close>

definition url_path :: "string \<Rightarrow> string \<Rightarrow> string" where
  "url_path endpoint meth = drop (length (trim_end_slashes endpoint)) endpoint @ ''/_storage/v1'' @ meth"

definition bearer :: "rpc_lib \<Rightarrow> nat option \<Rightarrow> string \<Rightarrow> string \<Rightarrow> (string \<times> string) list" where
  "bearer M clk access_key secret_key = (case sign_token (rl_jwt M) clk access_key secret_key of
      Inr token \<Rightarrow> [(''authorization'', ''Bearer '' @ token)] | Inl e \<Rightarrow> [])"

definition volume_request :: "rpc_lib \<Rightarrow> nat option \<Rightarrow> remote_volume \<Rightarrow> string \<Rightarrow> (string \<times> string) list \<Rightarrow> bytes \<Rightarrow> http_request" where
  "volume_request M clk rv meth query body = \<lparr> rq_path = url_path (trim_end_slashes (rv_endpoint rv)) meth, rq_query = w_query M query,
     rq_headers = (''x-abixio-volume-path'', rv_volume_path rv) # (if rv_no_auth rv then []
       else bearer M clk (rv_access_key rv) (rv_secret_key rv) @ [(''x-abixio-time'', current_time_nanos clk)]),
     rq_body = Inr body \<rparr>"

text \<open>A request over the network: the response, if one comes, and the state of the other side.\<close>

type_synonym 's transport = "http_request \<Rightarrow> 's \<Rightarrow> http_response option \<times> 's"

definition got_unit :: "rpc_lib \<Rightarrow> http_response option \<Rightarrow> storage_error + unit" where
  "got_unit M r = (case r of None \<Rightarrow> Inl (Io ''send'') | Some resp \<Rightarrow> if is_success resp then Inr () else Inl (parse_error M resp))"

definition got_json :: "rpc_lib \<Rightarrow> (string \<Rightarrow> 'a option) \<Rightarrow> http_response option \<Rightarrow> storage_error + 'a" where
  "got_json M dec r = (case r of None \<Rightarrow> Inl (Io ''send'')
     | Some resp \<Rightarrow> if \<not> is_success resp then Inl (parse_error M resp)
         else case dec (bytes_text (rp_body resp)) of Some x \<Rightarrow> Inr x | None \<Rightarrow> Inl (Io ''decode''))"

definition got_shard :: "rpc_lib \<Rightarrow> http_response option \<Rightarrow> storage_error + bytes \<times> object_meta" where
  "got_shard M r = (case r of None \<Rightarrow> Inl (Io ''send'')
     | Some resp \<Rightarrow> if \<not> is_success resp then Inl (parse_error M resp)
         else case r_meta M (case header_text ''x-abixio-meta'' (rp_headers resp) of Some v \<Rightarrow> v | None \<Rightarrow> ''{}'') of
             Some meta \<Rightarrow> Inr (rp_body resp, meta) | None \<Rightarrow> Inl (Io ''decode''))"

definition got_or :: "'a \<Rightarrow> (string \<Rightarrow> 'a option) \<Rightarrow> http_response option \<Rightarrow> 'a" where
  "got_or dflt dec r = (case r of None \<Rightarrow> dflt
     | Some resp \<Rightarrow> if \<not> is_success resp then dflt else case dec (bytes_text (rp_body resp)) of Some x \<Rightarrow> x | None \<Rightarrow> dflt)"

record remote_writer =
  rw_buf :: bytes
  rw_volume :: remote_volume
  rw_bucket :: string
  rw_key :: string
  rw_version_id :: "string option"

definition remote_open_shard_writer :: "remote_volume \<Rightarrow> string \<Rightarrow> string \<Rightarrow> string option \<Rightarrow> 's \<Rightarrow> (storage_error + remote_writer) \<times> 's" where
  "remote_open_shard_writer rv bucket key version_id st =
     (Inr \<lparr> rw_buf = [], rw_volume = rv, rw_bucket = bucket, rw_key = key, rw_version_id = version_id \<rparr>, st)"

definition remote_write_chunk :: "bytes \<Rightarrow> remote_writer \<Rightarrow> 's \<Rightarrow> (storage_error + remote_writer) \<times> 's" where
  "remote_write_chunk data w st = (Inr (w\<lparr> rw_buf := rw_buf w @ data \<rparr>), st)"

definition writer_request :: "rpc_lib \<Rightarrow> nat option \<Rightarrow> remote_volume \<Rightarrow> string \<Rightarrow> (string \<times> string) list \<Rightarrow> bytes \<Rightarrow> http_request" where
  "writer_request M clk rv meth query body = \<lparr> rq_path = url_path (rv_endpoint rv) meth, rq_query = w_query M query,
     rq_headers = (''x-abixio-volume-path'', rv_volume_path rv) # (if rv_no_auth rv then []
       else bearer M clk (rv_access_key rv) (rv_secret_key rv)), rq_body = Inr body \<rparr>"

definition remote_finalize :: "rpc_lib \<Rightarrow> nat option \<Rightarrow> 's transport \<Rightarrow> object_meta \<Rightarrow> remote_writer \<Rightarrow> 's \<Rightarrow> (storage_error + unit) \<times> 's" where
  "remote_finalize M clk send meta w st =
     (let req = (case rw_version_id w of
            Some vid \<Rightarrow> writer_request M clk (rw_volume w) ''/write-versioned-shard''
              [(''bucket'', rw_bucket w), (''key'', rw_key w), (''version_id'', vid), (''meta'', w_meta M meta)] (rw_buf w)
          | None \<Rightarrow> writer_request M clk (rw_volume w) ''/write-shard''
              [(''bucket'', rw_bucket w), (''key'', rw_key w), (''meta'', w_meta M meta), (''_unused'', [])] (rw_buf w))
      in case send req st of
           (None, st) \<Rightarrow> (Inl (Io ''send''), st)
         | (Some resp, st) \<Rightarrow> (if is_success resp then Inr ()
             else Inl (Io (''remote write-shard '' @ show_nat (rp_status resp) @ '': '' @ bytes_text (rp_body resp))), st))"

definition call_unit :: "rpc_lib \<Rightarrow> nat option \<Rightarrow> 's transport \<Rightarrow> remote_volume \<Rightarrow> string \<Rightarrow> (string \<times> string) list \<Rightarrow> bytes \<Rightarrow> 's \<Rightarrow> (storage_error + unit) \<times> 's" where
  "call_unit M clk send rv meth query body st = (case send (volume_request M clk rv meth query body) st of (r, st) \<Rightarrow> (got_unit M r, st))"

definition ask :: "rpc_lib \<Rightarrow> nat option \<Rightarrow> 's transport \<Rightarrow> remote_volume \<Rightarrow> string \<Rightarrow> (string \<times> string) list \<Rightarrow> 's \<Rightarrow> http_response option" where
  "ask M clk send rv meth query st = fst (send (volume_request M clk rv meth query []) st)"

definition remote_write_shard :: "rpc_lib \<Rightarrow> nat option \<Rightarrow> 's transport \<Rightarrow> remote_volume \<Rightarrow> string \<Rightarrow> string \<Rightarrow> bytes \<Rightarrow> object_meta \<Rightarrow> 's \<Rightarrow> (storage_error + unit) \<times> 's" where
  "remote_write_shard M clk send rv bucket key data meta =
     call_unit M clk send rv ''/write-shard'' [(''bucket'', bucket), (''key'', key), (''meta'', w_meta M meta)] data"

definition remote_read_shard :: "rpc_lib \<Rightarrow> nat option \<Rightarrow> 's transport \<Rightarrow> remote_volume \<Rightarrow> 's \<Rightarrow> string \<Rightarrow> string \<Rightarrow> storage_error + bytes \<times> object_meta" where
  "remote_read_shard M clk send rv st bucket key = got_shard M (ask M clk send rv ''/read-shard'' [(''bucket'', bucket), (''key'', key)] st)"

definition remote_update_meta :: "rpc_lib \<Rightarrow> nat option \<Rightarrow> 's transport \<Rightarrow> remote_volume \<Rightarrow> string \<Rightarrow> string \<Rightarrow> object_meta \<Rightarrow> 's \<Rightarrow> (storage_error + unit) \<times> 's" where
  "remote_update_meta M clk send rv bucket key meta =
     call_unit M clk send rv ''/update-meta'' [(''bucket'', bucket), (''key'', key)] (text_bytes (w_meta M meta))"

definition remote_write_meta_versions :: "rpc_lib \<Rightarrow> nat option \<Rightarrow> 's transport \<Rightarrow> remote_volume \<Rightarrow> string \<Rightarrow> string \<Rightarrow> object_meta list \<Rightarrow> 's \<Rightarrow> (storage_error + unit) \<times> 's" where
  "remote_write_meta_versions M clk send rv bucket key versions =
     call_unit M clk send rv ''/write-meta-versions'' [(''bucket'', bucket), (''key'', key)] (text_bytes (w_metas M versions))"

definition remote_write_versioned_shard ::
  "rpc_lib \<Rightarrow> nat option \<Rightarrow> 's transport \<Rightarrow> remote_volume \<Rightarrow> string \<Rightarrow> string \<Rightarrow> string \<Rightarrow> bytes \<Rightarrow> object_meta \<Rightarrow> 's \<Rightarrow> (storage_error + unit) \<times> 's" where
  "remote_write_versioned_shard M clk send rv bucket key version_id data meta =
     call_unit M clk send rv ''/write-versioned-shard''
       [(''bucket'', bucket), (''key'', key), (''version_id'', version_id), (''meta'', w_meta M meta)] data"

definition remote_read_versioned_shard :: "rpc_lib \<Rightarrow> nat option \<Rightarrow> 's transport \<Rightarrow> remote_volume \<Rightarrow> 's \<Rightarrow> string \<Rightarrow> string \<Rightarrow> string \<Rightarrow> storage_error + bytes \<times> object_meta" where
  "remote_read_versioned_shard M clk send rv st bucket key version_id =
     got_shard M (ask M clk send rv ''/read-versioned-shard'' [(''bucket'', bucket), (''key'', key), (''version_id'', version_id)] st)"

text \<open>The settings are taken from any body that parses, without a look at the status.\<close>

definition remote_read_bucket_settings :: "rpc_lib \<Rightarrow> nat option \<Rightarrow> 's transport \<Rightarrow> remote_volume \<Rightarrow> 's \<Rightarrow> string \<Rightarrow> bucket_settings" where
  "remote_read_bucket_settings M clk send rv st bucket =
     (case ask M clk send rv ''/read-bucket-settings'' [(''bucket'', bucket)] st of None \<Rightarrow> default_settings
      | Some resp \<Rightarrow> (case r_settings M (bytes_text (rp_body resp)) of Some s \<Rightarrow> s | None \<Rightarrow> default_settings))"

definition remote_write_bucket_settings :: "rpc_lib \<Rightarrow> nat option \<Rightarrow> 's transport \<Rightarrow> remote_volume \<Rightarrow> string \<Rightarrow> bucket_settings \<Rightarrow> 's \<Rightarrow> (storage_error + unit) \<times> 's" where
  "remote_write_bucket_settings M clk send rv bucket settings =
     call_unit M clk send rv ''/write-bucket-settings'' [(''bucket'', bucket)] (text_bytes (w_settings M settings))"

definition remote_ops :: "rpc_lib \<Rightarrow> nat option \<Rightarrow> 's transport \<Rightarrow> remote_volume \<Rightarrow> ('s, remote_writer) backend_ops" where
  "remote_ops M clk send rv = \<lparr>
     bk_open_shard_writer = remote_open_shard_writer rv,
     bk_write_chunk = remote_write_chunk,
     bk_finalize = remote_finalize M clk send,
     bk_write_shard = remote_write_shard M clk send rv,
     bk_read_shard = remote_read_shard M clk send rv,
     bk_mmap_shard = remote_read_shard M clk send rv,
     bk_delete_object = (\<lambda>bucket key. call_unit M clk send rv ''/delete-object'' [(''bucket'', bucket), (''key'', key)] []),
     bk_list_objects = (\<lambda>st bucket prefix. got_json M (r_texts M) (ask M clk send rv ''/list-objects'' [(''bucket'', bucket), (''prefix'', prefix)] st)),
     bk_list_buckets = (\<lambda>st. got_json M (r_texts M) (ask M clk send rv ''/list-buckets'' [] st)),
     bk_make_bucket = (\<lambda>bucket. call_unit M clk send rv ''/make-bucket'' [(''bucket'', bucket)] []),
     bk_delete_bucket = (\<lambda>bucket. call_unit M clk send rv ''/delete-bucket'' [(''bucket'', bucket)] []),
     bk_bucket_exists = (\<lambda>st bucket. got_or False (r_flag M) (ask M clk send rv ''/bucket-exists'' [(''bucket'', bucket)] st)),
     bk_bucket_created_at = (\<lambda>st bucket. got_or 0 (r_num M) (ask M clk send rv ''/bucket-created-at'' [(''bucket'', bucket)] st)),
     bk_stat_object = (\<lambda>st bucket key. got_json M (r_meta M) (ask M clk send rv ''/stat-object'' [(''bucket'', bucket), (''key'', key)] st)),
     bk_update_meta = remote_update_meta M clk send rv,
     bk_read_meta_versions = (\<lambda>st bucket key. got_json M (r_metas M) (ask M clk send rv ''/read-meta-versions'' [(''bucket'', bucket), (''key'', key)] st)),
     bk_write_meta_versions = remote_write_meta_versions M clk send rv,
     bk_write_versioned_shard = remote_write_versioned_shard M clk send rv,
     bk_read_versioned_shard = remote_read_versioned_shard M clk send rv,
     bk_delete_version_data = (\<lambda>bucket key version_id.
       call_unit M clk send rv ''/delete-version-data'' [(''bucket'', bucket), (''key'', key), (''version_id'', version_id)] []),
     bk_read_bucket_settings = remote_read_bucket_settings M clk send rv,
     bk_write_bucket_settings = remote_write_bucket_settings M clk send rv,
     bk_info = (\<lambda>st. \<lparr> bki_label = rv_endpoint rv @ '':'' @ rv_volume_path rv, bki_volume_id = [] \<rparr>),
     bk_set_volume_id = (\<lambda>i st. st),
     bk_local = (\<lambda>st. None) \<rparr>"

section \<open>Peer caches\<close>

definition peer_request :: "rpc_lib \<Rightarrow> nat option \<Rightarrow> remote_volume \<Rightarrow> string \<Rightarrow> (string \<times> string) list \<Rightarrow> bytes \<Rightarrow> http_request" where
  "peer_request M clk peer meth query body = \<lparr> rq_path = url_path (trim_end_slashes (rv_endpoint peer)) meth, rq_query = w_query M query,
     rq_headers = (if rv_no_auth peer then [] else bearer M clk (rv_access_key peer) (rv_secret_key peer) @ [(''x-abixio-time'', current_time_nanos clk)]),
     rq_body = Inr body \<rparr>"

definition peer_replicate :: "rpc_lib \<Rightarrow> nat option \<Rightarrow> 's transport \<Rightarrow> remote_volume \<Rightarrow> string \<Rightarrow> string \<Rightarrow> write_entry \<Rightarrow> 's \<Rightarrow> (string + unit) \<times> 's" where
  "peer_replicate M clk send peer bucket key entry st = (case w_cache_entry M entry of
      None \<Rightarrow> (Inl ''encode cache entry'', st)
    | Some body \<Rightarrow> (case send (peer_request M clk peer ''/cache-replicate'' [(''bucket'', bucket), (''key'', key)] body) st of
          (None, st) \<Rightarrow> (Inl ''peer replicate send'', st)
        | (Some resp, st) \<Rightarrow> (if is_success resp then Inr () else Inl (''peer replicate '' @ show_nat (rp_status resp)), st)))"

definition peer_sync_pull :: "rpc_lib \<Rightarrow> nat option \<Rightarrow> 's transport \<Rightarrow> remote_volume \<Rightarrow> string \<Rightarrow> 's \<Rightarrow> (string + (string \<times> string \<times> write_entry) list) \<times> 's" where
  "peer_sync_pull M clk send peer primary_node_id st =
     (case send (peer_request M clk peer ''/cache-sync'' [(''primary_node_id'', primary_node_id)] []) st of
        (None, st) \<Rightarrow> (Inl ''peer sync-pull send'', st)
      | (Some resp, st) \<Rightarrow> (if \<not> is_success resp then Inl (''peer sync-pull '' @ show_nat (rp_status resp))
          else case r_cache_entries M (rp_body resp) of Some es \<Rightarrow> Inr es | None \<Rightarrow> Inl ''decode sync entries'', st))"

end
