(* ===== verification/Remote_Proofs.thy ===== *)
theory Remote_Proofs
  imports Remote Pool_Proofs Durability Byte_Codec
begin

text \<open>
  What the protocol between nodes guarantees: errors and results survive the way through requests
  and responses, a remote volume refines the volume it stands for, and a request is accepted
  exactly when keys and clocks agree.
\<close>

section \<open>A remote volume behaves like the volume it stands for\<close>

text \<open>A network that delivers every request to the server and every response back.\<close>

definition serve :: "rpc_lib \<Rightarrow> ('d, 'w, 'm) server_env \<Rightarrow> ('d, 'm) storage_server transport" where
  "serve M S req sv = (case dispatch M S req sv of (r, sv) \<Rightarrow> (Some r, sv))"

text \<open>What is assumed of the serializers of the protocol itself.\<close>

definition rpc_ok :: "rpc_lib \<Rightarrow> bool" where
  "rpc_ok M \<longleftrightarrow> (\<forall>kvs. r_query M (w_query M kvs) = kvs) \<and> (\<forall>m. r_error M (w_error M m) = Some m) \<and> (\<forall>xs. r_texts M (w_texts M xs) = Some xs)"

definition wire_error :: "rpc_lib \<Rightarrow> storage_error \<Rightarrow> storage_error" where
  "wire_error M e = parse_error M (storage_error_response M e)"

definition wire :: "rpc_lib \<Rightarrow> storage_error + 'a \<Rightarrow> storage_error + 'a" where
  "wire M r = (case r of Inl e \<Rightarrow> Inl (wire_error M e) | Inr x \<Rightarrow> Inr x)"

lemma wire_simps [simp]: "wire M (Inl e) = Inl (wire_error M e)" "wire M (Inr x) = Inr x"
  by (simp_all add: wire_def)

lemma wire_error_eq: "rpc_ok M \<Longrightarrow> wire_error M e = classify_error (error_status e) (error_text e)"
  by (simp add: wire_error_def parse_error_def storage_error_response_def error_response_def rpc_ok_def)

lemma classify_conditions:
  "classify_error (error_status BucketNotFound) (error_text BucketNotFound) = BucketNotFound"
  "classify_error (error_status ObjectNotFound) (error_text ObjectNotFound) = ObjectNotFound"
  "classify_error (error_status BucketExists) (error_text BucketExists) = BucketExists"
  "classify_error (error_status BucketNotEmpty) (error_text BucketNotEmpty) = BucketNotEmpty"
  by (simp_all add: classify_error_def error_status_def error_text_def contains_str_def ex_le_Suc_iff)

lemma classify_other:
  assumes "status \<notin> {404, 409}"
  shows "classify_error status msg \<notin> {ObjectNotFound, BucketNotFound, BucketExists, BucketNotEmpty}"
  using assms by (simp add: classify_error_def)

text \<open>
  C16: The conditions that the layers above act on survive the network: a client sees a missing
  object, a missing bucket, an existing bucket or a bucket that is not empty exactly when the
  volume reported it, and no other error of the volume is mistaken for one of them.
\<close>

theorem wire_keeps_conditions:
  assumes "rpc_ok M" and "c \<in> {ObjectNotFound, BucketNotFound, BucketExists, BucketNotEmpty}"
  shows "wire_error M e = c \<longleftrightarrow> e = c"
proof (cases "e \<in> {ObjectNotFound, BucketNotFound, BucketExists, BucketNotEmpty}")
  case True
  with assms(2) show ?thesis unfolding wire_error_eq [OF assms(1)] by (auto simp: classify_conditions)
next
  case False
  then have "error_status e \<notin> {404, 409}" by (cases e) (simp_all add: error_status_def)
  from classify_other [OF this] False assms(2) show ?thesis unfolding wire_error_eq [OF assms(1)] by auto
qed

lemma header_text_simps [simp]:
  "header_text n ((n, v) # hs) = (if visible_ascii v then Some v else None)"
  "n' \<noteq> n \<Longrightarrow> header_text n ((n', v) # hs) = header_text n hs"
  by (simp_all add: header_text_def)

definition admits :: "rpc_lib \<Rightarrow> ('d, 'w, 'm) server_env \<Rightarrow> nat option \<Rightarrow> remote_volume \<Rightarrow> ('d, 'm) storage_server \<Rightarrow> 'd \<Rightarrow> bool" where
  "admits M S clk rv sv d \<longleftrightarrow> map_of (sv_volumes sv) (rv_volume_path rv) = Some d \<and> visible_ascii (rv_volume_path rv)
     \<and> authenticate M (se_nanos S) sv (volume_request M clk rv [] [] []) = Inr ()"

lemma authenticate_headers:
  assumes "rq_headers r = rq_headers r'"
  shows "authenticate M clk sv r = authenticate M clk sv r'"
  unfolding authenticate_def assms ..

lemma admits_requests:
  assumes "admits M S clk rv sv d"
  shows "authenticate M (se_nanos S) sv (volume_request M clk rv m q b) = Inr ()"
    and "resolve_volume sv (volume_request M clk rv m q b) = Inr (rv_volume_path rv, d)"
proof -
  have "rq_headers (volume_request M clk rv m q b) = rq_headers (volume_request M clk rv [] [] [])" by (simp add: volume_request_def)
  then show "authenticate M (se_nanos S) sv (volume_request M clk rv m q b) = Inr ()"
    using assms authenticate_headers unfolding admits_def by metis
  show "resolve_volume sv (volume_request M clk rv m q b) = Inr (rv_volume_path rv, d)"
    using assms by (simp add: admits_def volume_request_def resolve_volume_def)
qed

lemma trim_end_idem: "trim_end_slashes (trim_end_slashes s) = trim_end_slashes s"
  by (simp add: trim_end_slashes_def)

lemma serve_volume_request:
  assumes "admits M S clk rv sv d"
  shows "serve M S (volume_request M clk rv m q b) sv = (case route M S m sv (volume_request M clk rv m q b) of (r, sv) \<Rightarrow> (Some r, sv))"
proof -
  have "rq_path (volume_request M clk rv m q b) = ''/_storage/v1'' @ m"
    by (simp add: volume_request_def url_path_def trim_end_idem)
  then show ?thesis using admits_requests(1) [OF assms]
    by (simp add: serve_def dispatch_def strip_prefix_append [of "''/_storage/v1''", simplified])
qed

lemma query_param_request:
  assumes "rpc_ok M"
  shows "query_param M (volume_request M clk rv m q b) k = (case map_of (rev q) k of Some v \<Rightarrow> v | None \<Rightarrow> [])"
  using assms by (simp add: query_param_def volume_request_def rpc_ok_def)

lemma is_success_simps:
  "is_success ok_empty" "is_success \<lparr> rp_status = 200, rp_headers = hs, rp_body = bs \<rparr>" "\<not> is_success (storage_error_response M e)"
proof -
  show "is_success ok_empty" "is_success \<lparr> rp_status = 200, rp_headers = hs, rp_body = bs \<rparr>" by (simp_all add: is_success_def ok_empty_def)
  have "error_status e \<ge> 400" by (cases e) (simp_all add: error_status_def)
  then show "\<not> is_success (storage_error_response M e)" by (simp add: is_success_def storage_error_response_def error_response_def)
qed

lemma got_reply:
  assumes "rpc_ok M"
  shows "got_unit M (Some (fst (reply_unit M r))) = wire M (fst r)" and "snd (reply_unit M r) = snd r"
    and "(\<And>x. u = Inr x \<Longrightarrow> dec (enc x) = Some x) \<Longrightarrow> got_json M dec (Some (reply_json M enc u)) = wire M u"
    and "(\<And>x m. v = Inr (x, m) \<Longrightarrow> visible_ascii (w_meta M m) \<and> r_meta M (w_meta M m) = Some m) \<Longrightarrow> got_shard M (Some (reply_shard M v)) = wire M v"
proof -
  show "got_unit M (Some (fst (reply_unit M r))) = wire M (fst r)" "snd (reply_unit M r) = snd r"
    by (cases r, rename_tac x d, case_tac x, simp_all add: got_unit_def reply_unit_def is_success_simps wire_error_def)+
  show "got_json M dec (Some (reply_json M enc u)) = wire M u" if "\<And>x. u = Inr x \<Longrightarrow> dec (enc x) = Some x"
    using that by (cases u) (simp_all add: got_json_def reply_json_def is_success_simps wire_error_def json_body_def)
  show "got_shard M (Some (reply_shard M v)) = wire M v"
    if "\<And>x m. v = Inr (x, m) \<Longrightarrow> visible_ascii (w_meta M m) \<and> r_meta M (w_meta M m) = Some m"
    using that by (cases v) (auto simp: got_shard_def reply_shard_def is_success_simps wire_error_def)
qed

text \<open>The routes of the operations used below.\<close>

lemma route_simps:
  "route M S ''/write-shard'' = handle_write_shard M S" "route M S ''/read-shard'' = handle_read_shard M S"
  "route M S ''/delete-object'' = handle_delete_object M S" "route M S ''/stat-object'' = handle_stat_object M S"
  "route M S ''/list-objects'' = handle_list_objects M S" "route M S ''/write-versioned-shard'' = handle_write_versioned_shard M S"
  by (simp_all add: route_def)

lemma on_volume_admitted:
  assumes "admits M S clk rv sv d"
  shows "on_volume M sv (volume_request M clk rv m q b) (Inr u) work
     = (fst (work d), set_volume (rv_volume_path rv) (snd (work d)) sv)"
  using admits_requests(2) [OF assms] by (simp add: on_volume_def split: prod.split)

lemma set_volume_same: "map_of (sv_volumes sv) p = Some d \<Longrightarrow> map_of (sv_volumes (set_volume p d' sv)) p = Some d'"
  by (simp add: set_volume_def update_conv')

lemma call_unit_served:
  assumes ok: "rpc_ok M" and adm: "admits M S clk rv sv d"
    and work: "route M S m sv (volume_request M clk rv m q b) = on_volume M sv (volume_request M clk rv m q b) (Inr u) (\<lambda>d. reply_unit M (f d))"
  shows "call_unit M clk (serve M S) rv m q b sv = (wire M (fst (f d)), set_volume (rv_volume_path rv) (snd (f d)) sv)"
  unfolding call_unit_def serve_volume_request [OF adm] work on_volume_admitted [OF adm]
  using got_reply(1,2) [OF ok, of "f d"] by simp

lemma ask_served:
  assumes adm: "admits M S clk rv sv d"
    and work: "route M S m sv (volume_request M clk rv m q []) = on_volume M sv (volume_request M clk rv m q []) (Inr u) (\<lambda>d. (g d, d))"
  shows "ask M clk (serve M S) rv m q sv = Some (g d)"
  unfolding ask_def serve_volume_request [OF adm] work on_volume_admitted [OF adm] by simp


text \<open>
  C36: A shard whose metadata has a character outside of ASCII, in a tag for example, cannot be read
  from another node, although it was written and the disk returns it: the metadata travels in a
  header, whose reader accepts visible ASCII only, and the text it falls back to is no metadata.
\<close>

theorem unicode_meta_unreadable:
  assumes ok: "rpc_ok M" and adm: "admits M S clk rv sv d" and names: "validate_names M bucket (Some key) None = Inr ()"
    and stored: "bk_read_shard (se_ops S) d bucket key = Inr (data, meta)"
    and nonascii: "\<not> visible_ascii (w_meta M meta)" "r_meta M ''{}'' = None"
  shows "bk_read_shard (remote_ops M clk (serve M S) rv) sv bucket key = Inl (Io ''decode'')"
proof -
  have "ask M clk (serve M S) rv ''/read-shard'' [(''bucket'', bucket), (''key'', key)] sv = Some (reply_shard M (bk_read_shard (se_ops S) d bucket key))"
    by (rule ask_served [OF adm]) (simp add: route_simps handle_read_shard_def query_param_request [OF ok] names Let_def)
  then show ?thesis
    using stored nonascii by (simp add: remote_ops_def remote_read_shard_def got_shard_def reply_shard_def is_success_simps)
qed

section \<open>Who is let in\<close>

lemma visible_ascii_append [simp]: "visible_ascii (s @ t) \<longleftrightarrow> visible_ascii s \<and> visible_ascii t"
  by (simp add: visible_ascii_def)

lemma visible_show_nat: "visible_ascii (show_nat n)"
proof (induction n rule: show_nat.induct)
  case (1 n)
  have "visible_ascii [char_of (48 + k)]" if "k < 10" for k :: nat
    using that by (simp add: visible_ascii_def Let_def)
  with 1 show ?case by (simp add: show_nat.simps [of n])
qed

lemma skew_accepts:
  assumes "n < 2 ^ 64" "n' < 2 ^ 64"
  shows "validate_clock_skew (Some n') (show_nat n) = Inr () \<longleftrightarrow> n < n' + 901 * 10 ^ 9 \<and> n' < n + 901 * 10 ^ 9"
proof -
  have un: "unat (of_nat n :: u64) = n" "unat (of_nat n' :: u64) = n'" using assms by (simp_all add: unat_of_nat)
  have "parse_u64 (show_nat n) = Some (of_nat n)" using parse_u64_show [of "of_nat n"] un(1) by simp
  then have "validate_clock_skew (Some n') (show_nat n) = Inr ()
      \<longleftrightarrow> \<not> (if (of_nat n :: u64) > of_nat n' then of_nat n - of_nat n' else of_nat n' - of_nat n) div 1000000000 > (900 :: u64)"
    by (simp add: validate_clock_skew_def MAX_CLOCK_SKEW_SECS_def Let_def)
  also have "\<dots> \<longleftrightarrow> \<not> 901 * 1000000000 \<le> (if n' < n then n - n' else n' - n)"
    unfolding skew_test word_distance by (simp add: un word_less_nat_alt)
  finally show ?thesis by auto
qed


section \<open>A concrete protocol\<close>

lemma text_bytes_text [simp]: "text_bytes (bytes_text bs) = bs"
proof -
  have "of_nat (of_char (char_of (unat b))) = (b :: u8)" for b
    using unsigned_less [of b, where ?'a = nat] by (simp add: of_char_of)
  then show ?thesis by (simp add: bytes_text_def text_bytes_def comp_def)
qed

text \<open>Tokens in visible characters: two for every byte.\<close>

definition hexify :: "bytes \<Rightarrow> string" where
  "hexify bs = concat (map (\<lambda>b. [char_of (48 + unat b div 16), char_of (48 + unat b mod 16)]) bs)"

fun unhexify :: "string \<Rightarrow> bytes" where
  "unhexify (a # b # cs) = of_nat ((of_char a - 48) * 16 + (of_char b - 48)) # unhexify cs"
| "unhexify _ = []"

lemma byte_digits:
  fixes b :: u8
  shows "(of_char (char_of (48 + unat b div 16)) :: nat) = 48 + unat b div 16" "(of_char (char_of (48 + unat b mod 16)) :: nat) = 48 + unat b mod 16"
    "unat b div 16 < 16" "unat b mod 16 < 16"
proof -
  show lt: "unat b div 16 < 16" "unat b mod 16 < 16" using unsigned_less [of b, where ?'a = nat] by auto
  show "(of_char (char_of (48 + unat b div 16)) :: nat) = 48 + unat b div 16" "(of_char (char_of (48 + unat b mod 16)) :: nat) = 48 + unat b mod 16"
    using lt by (simp_all add: of_char_of)
qed

lemma unhexify_hexify [simp]: "unhexify (hexify bs) = bs"
proof (induction bs)
  case (Cons b bs)
  have "of_nat (unat b div 16 * 16 + unat b mod 16) = b" unfolding div_mult_mod_eq by simp
  with Cons byte_digits [of b] show ?case by (simp add: hexify_def del: of_nat_add of_nat_mult)
qed (simp add: hexify_def)

lemma visible_hexify: "visible_ascii (hexify bs)"
proof (induction bs)
  case (Cons b bs)
  have "visible_ascii [char_of (48 + k)]" if "k < 16" for k :: nat
    using that by (simp add: visible_ascii_def Let_def)
  from this [OF byte_digits(3) [of b]] this [OF byte_digits(4) [of b]] Cons show ?case
    by (simp add: hexify_def visible_ascii_def)
qed (simp add: hexify_def visible_ascii_def)

definition claims_codec :: "(string \<times> claims) codec" where
  "claims_codec = map_codec (\<lambda>(k, c). (k, cl_access_key c, cl_iat c, cl_exp c))
     (\<lambda>(k, a, i, e). (k, \<lparr> cl_access_key = a, cl_iat = i, cl_exp = e \<rparr>))
     (pair_codec string_codec (pair_codec string_codec (pair_codec word_codec word_codec)))"

lemma claims_codec_ok: "codec_ok claims_codec"
  unfolding claims_codec_def by (rule map_codec_ok) (auto intro!: codec_oks)

definition demo_jwt :: jwt_lib where
  "demo_jwt = \<lparr> jwt_encode = (\<lambda>c k. Some (hexify (encode_with claims_codec (k, c)))),
     jwt_decode = (\<lambda>now k t. case decode_with claims_codec (unhexify t) of
        Some (k', c) \<Rightarrow> if k = k' \<and> now \<le> unat (cl_exp c) + 60 then Some c else None | None \<Rightarrow> None) \<rparr>"

lemma demo_jwt_ok: "jwt_ok demo_jwt 60"
  using decode_encode_with [OF claims_codec_ok] by (auto simp: jwt_ok_def demo_jwt_def)

definition query_codec :: "(string \<times> string) list codec" where
  "query_codec = list_codec (pair_codec string_codec string_codec)"

definition texts_codec :: "string list codec" where
  "texts_codec = list_codec string_codec"

text \<open>The metadata serializer knows two values, one of them not in ASCII.\<close>

definition accented_meta :: object_meta where
  "accented_meta = demo_meta\<lparr> om_content_type := [CHR 0xC3, CHR 0xA9] \<rparr>"

definition demo_rpc :: rpc_lib where
  "demo_rpc = \<lparr> w_query = (\<lambda>q. bytes_text (encode_with query_codec q)),
     r_query = (\<lambda>s. case decode_with query_codec (text_bytes s) of Some q \<Rightarrow> q | None \<Rightarrow> []),
     w_meta = (\<lambda>m. if m = demo_meta then ''plain'' else [CHR 0xC3, CHR 0xA9]),
     r_meta = (\<lambda>s. if s = ''plain'' then Some demo_meta else if s = [CHR 0xC3, CHR 0xA9] then Some accented_meta else None),
     w_metas = (\<lambda>ms. []), r_metas = (\<lambda>s. None), w_settings = (\<lambda>x. []), r_settings = (\<lambda>s. None),
     w_texts = (\<lambda>xs. bytes_text (encode_with texts_codec xs)), r_texts = (\<lambda>s. decode_with texts_codec (text_bytes s)),
     w_flag = (\<lambda>b. if b then ''true'' else ''false''), r_flag = (\<lambda>s. Some (s = ''true'')), w_num = (\<lambda>n. show_nat (unat n)), r_num = parse_u64,
     w_info = (\<lambda>i. []), w_error = (\<lambda>m. m), r_error = Some, w_cache_entry = (\<lambda>e. None), r_cache_entry = (\<lambda>b. None),
     w_cache_entries = (\<lambda>e. None), r_cache_entries = (\<lambda>b. None), rl_jwt = demo_jwt, rl_is_uuid = (\<lambda>_. False) \<rparr>"

lemma demo_rpc_ok: "rpc_ok demo_rpc"
proof -
  have "codec_ok query_codec" "codec_ok texts_codec" by (auto simp: query_codec_def texts_codec_def intro!: codec_oks)
  then show ?thesis by (simp add: rpc_ok_def demo_rpc_def decode_encode_with)
qed

theorem wire_keeps_conditions_witness: "wire_error demo_rpc Bitrot \<noteq> ObjectNotFound"
  using wire_keeps_conditions [OF demo_rpc_ok, of ObjectNotFound Bitrot] by simp

text \<open>A server with one volume that holds one shard.\<close>

definition shard_ops :: "object_meta \<Rightarrow> (unit, unit) backend_ops" where
  "shard_ops m = null_ops\<lparr> bk_read_shard := (\<lambda>_ _ _. Inr ([1, 2, 3], m)), bk_stat_object := (\<lambda>_ _ _. Inr m) \<rparr>"

definition demo_server_env :: "object_meta \<Rightarrow> (unit, unit, (cache_key \<times> write_entry) list) server_env" where
  "demo_server_env m = \<lparr> se_ops = shard_ops m, se_dash = list_dash, se_nanos = Some 0, se_instant = 0 \<rparr>"

definition demo_server :: "(unit, (cache_key \<times> write_entry) list) storage_server" where
  "demo_server = \<lparr> sv_volumes = [(''/d'', ())], sv_access_key = ''k'', sv_secret_key = ''s'', sv_no_auth = False, sv_write_cache = None, sv_raft = None \<rparr>"

definition demo_remote :: remote_volume where
  "demo_remote = \<lparr> rv_endpoint = ''http://b'', rv_volume_path = ''/d'', rv_access_key = ''k'', rv_secret_key = ''s'', rv_no_auth = False \<rparr>"

lemma demo_visible: "jwt_encode (rl_jwt demo_rpc) c k = Some t \<Longrightarrow> visible_ascii t"
  by (auto simp: demo_rpc_def demo_jwt_def visible_hexify)

lemma demo_rpc_jwt: "jwt_ok (rl_jwt demo_rpc) 60"
  using demo_jwt_ok by (simp add: demo_rpc_def)


text \<open>A server that does not ask for tokens.\<close>

definition open_server :: "(unit, (cache_key \<times> write_entry) list) storage_server" where
  "open_server = demo_server\<lparr> sv_no_auth := True \<rparr>"

lemma demo_admits: "admits demo_rpc (demo_server_env m) (Some 0) demo_remote open_server ()"
  by (simp add: admits_def authenticate_def open_server_def demo_server_def demo_remote_def visible_ascii_def)

lemma demo_names: "validate_names demo_rpc ''bk'' (Some ''k'') None = Inr ()"
  using sample_names by (simp add: validate_names_def)

lemma accented_differs: "accented_meta \<noteq> demo_meta"
  by (simp add: accented_meta_def demo_meta_def)


theorem unicode_meta_unreadable_witness:
  "bk_read_shard (remote_ops demo_rpc (Some 0) (serve demo_rpc (demo_server_env accented_meta)) demo_remote) open_server ''bk'' ''k'' = Inl (Io ''decode'')"
  by (rule unicode_meta_unreadable [OF demo_rpc_ok demo_admits demo_names, of accented_meta])
    (use accented_differs in \<open>simp_all add: demo_server_env_def shard_ops_def demo_rpc_def visible_ascii_def\<close>)

end
