(* ===== verification/Lifecycle.thy ===== *)
theory Lifecycle
  imports Pool_Proofs
begin

text \<open>
  Lifecycle rules: the decision for one version of an object (\<open>src/lifecycle/types.rs\<close>,
  \<open>filter.rs\<close>, \<open>evaluator.rs\<close>) and the engine that walks the buckets and carries the decisions
  out (\<open>src/lifecycle/mod.rs\<close>).  The rules are the DTOs of the S3 library, with the fields the
  code reads; \<open>i32\<close> values are integers.
\<close>

section \<open>Rules and objects\<close>

record lifecycle_filter =
  lf_and :: bool
  lf_tag :: bool
  lf_size_greater :: "int option"
  lf_size_less :: "int option"
  lf_prefix :: "string option"

record lifecycle_expiration =
  le_days :: "int option"
  le_expired_marker :: "bool option"

record noncurrent_expiration =
  nv_newer_versions :: "int option"
  nv_days :: "int option"

record lifecycle_rule =
  lr_id :: "string option"
  lr_status :: string
  lr_filter :: "lifecycle_filter option"
  lr_rule_prefix :: "string option"
  lr_expiration :: "lifecycle_expiration option"
  lr_noncurrent :: "noncurrent_expiration option"
  lr_abort_days :: "int option option"

datatype lifecycle_action = NoAction | Delete | DeleteVersion | DeleteAllVersions | DeleteExpiredMarker

definition is_noop :: "lifecycle_action \<Rightarrow> bool" where
  "is_noop a \<longleftrightarrow> a = NoAction"

record lifecycle_event =
  ev_action :: lifecycle_action
  ev_rule_id :: string
  ev_due :: u64

definition no_event :: lifecycle_event where
  "no_event = \<lparr> ev_action = NoAction, ev_rule_id = [], ev_due = 0 \<rparr>"

record object_opts =
  oo_name :: string
  oo_mod_time :: u64
  oo_version_id :: string
  oo_is_latest :: bool
  oo_is_delete_marker :: bool
  oo_num_versions :: nat
  oo_successor_mod_time :: u64
  oo_size :: u64

definition expired_object_delete_marker :: "object_opts \<Rightarrow> bool" where
  "expired_object_delete_marker obj \<longleftrightarrow> oo_is_delete_marker obj \<and> oo_num_versions obj = 1"

definition sat_add :: "u64 \<Rightarrow> u64 \<Rightarrow> u64" where
  "sat_add a b = (if unat a + unat b < 2 ^ 64 then a + b else -1)"

definition sat_mul :: "u64 \<Rightarrow> u64 \<Rightarrow> u64" where
  "sat_mul a b = (if unat a * unat b < 2 ^ 64 then a * b else -1)"

definition expected_expiry :: "u64 \<Rightarrow> int \<Rightarrow> u64" where
  "expected_expiry mod_time days = (if days \<le> 0 then mod_time else sat_add mod_time (sat_mul (of_int days) 86400))"

section \<open>Filters\<close>

definition prefix_accepts :: "string option \<Rightarrow> string \<Rightarrow> bool" where
  "prefix_accepts p name = (case p of Some p \<Rightarrow> p = [] \<or> starts_with name p | None \<Rightarrow> True)"

definition filter_matches :: "lifecycle_filter \<Rightarrow> object_opts \<Rightarrow> bool" where
  "filter_matches f obj =
     (if lf_and f \<or> lf_tag f \<or> lf_size_greater f \<noteq> None \<or> lf_size_less f \<noteq> None then False
      else prefix_accepts (lf_prefix f) (oo_name obj))"

definition rule_matches :: "lifecycle_rule \<Rightarrow> object_opts \<Rightarrow> bool" where
  "rule_matches rule obj = (case lr_filter rule of Some f \<Rightarrow> filter_matches f obj
     | None \<Rightarrow> prefix_accepts (lr_rule_prefix rule) (oo_name obj))"

section \<open>The evaluator\<close>

definition rule_id :: "lifecycle_rule \<Rightarrow> string" where
  "rule_id rule = (case lr_id rule of Some i \<Rightarrow> i | None \<Rightarrow> [])"

definition earlier :: "lifecycle_event option \<Rightarrow> lifecycle_event \<Rightarrow> lifecycle_event option" where
  "earlier a b = (case a of None \<Rightarrow> Some b | Some existing \<Rightarrow> if ev_due existing \<le> ev_due b then Some existing else Some b)"

definition enabled :: "lifecycle_rule \<Rightarrow> bool" where
  "enabled rule \<longleftrightarrow> lr_status rule = ''Enabled''"

text \<open>The three parts of the loop body, each with the event it contributes before it continues with the next rule.\<close>

definition marker_event :: "lifecycle_rule \<Rightarrow> object_opts \<Rightarrow> u64 \<Rightarrow> lifecycle_event option" where
  "marker_event rule obj now =
     (if \<not> expired_object_delete_marker obj then None
      else case lr_expiration rule of None \<Rightarrow> None
        | Some e \<Rightarrow>
            if le_expired_marker e = Some True then Some \<lparr> ev_action = DeleteExpiredMarker, ev_rule_id = rule_id rule, ev_due = now \<rparr>
            else case le_days e of None \<Rightarrow> None
              | Some days \<Rightarrow> (let due = expected_expiry (oo_mod_time obj) days in
                  if now \<ge> due then Some \<lparr> ev_action = DeleteExpiredMarker, ev_rule_id = rule_id rule, ev_due = due \<rparr> else None))"

definition retained_enough :: "noncurrent_expiration \<Rightarrow> nat \<Rightarrow> bool" where
  "retained_enough n newer = (case nv_newer_versions n of Some k \<Rightarrow> if k > 0 then newer \<ge> nat k else True | None \<Rightarrow> True)"

definition noncurrent_base :: "object_opts \<Rightarrow> u64" where
  "noncurrent_base obj = (if oo_successor_mod_time obj > 0 then oo_successor_mod_time obj else oo_mod_time obj)"

definition noncurrent_event :: "lifecycle_rule \<Rightarrow> object_opts \<Rightarrow> u64 \<Rightarrow> nat \<Rightarrow> lifecycle_event option" where
  "noncurrent_event rule obj now newer =
     (if oo_is_latest obj then None
      else case lr_noncurrent rule of None \<Rightarrow> None
        | Some n \<Rightarrow> (let days = (case nv_days n of Some d \<Rightarrow> d | None \<Rightarrow> 0); due = expected_expiry (noncurrent_base obj) days in
            if retained_enough n newer \<and> now \<ge> due then Some \<lparr> ev_action = DeleteVersion, ev_rule_id = rule_id rule, ev_due = due \<rparr> else None))"

definition current_event :: "lifecycle_rule \<Rightarrow> object_opts \<Rightarrow> u64 \<Rightarrow> lifecycle_event option" where
  "current_event rule obj now =
     (if \<not> (oo_is_latest obj \<and> \<not> oo_is_delete_marker obj) then None
      else case lr_expiration rule of None \<Rightarrow> None
        | Some e \<Rightarrow> (case le_days e of None \<Rightarrow> None
            | Some days \<Rightarrow> (let due = expected_expiry (oo_mod_time obj) days in
                if now \<ge> due then Some \<lparr> ev_action = Delete, ev_rule_id = rule_id rule, ev_due = due \<rparr> else None)))"

definition rule_event :: "lifecycle_rule \<Rightarrow> object_opts \<Rightarrow> u64 \<Rightarrow> nat \<Rightarrow> lifecycle_event option" where
  "rule_event rule obj now newer =
     (if \<not> enabled rule \<or> \<not> rule_matches rule obj then None
      else case marker_event rule obj now of Some e \<Rightarrow> Some e
        | None \<Rightarrow> (case noncurrent_event rule obj now newer of Some e \<Rightarrow> Some e | None \<Rightarrow> current_event rule obj now))"

fun eval_rules :: "lifecycle_rule list \<Rightarrow> object_opts \<Rightarrow> u64 \<Rightarrow> nat \<Rightarrow> lifecycle_event option \<Rightarrow> lifecycle_event option" where
  "eval_rules [] obj now newer chosen = chosen"
| "eval_rules (rule # rules) obj now newer chosen =
     eval_rules rules obj now newer (case rule_event rule obj now newer of Some e \<Rightarrow> earlier chosen e | None \<Rightarrow> chosen)"

definition eval :: "lifecycle_rule list \<Rightarrow> object_opts \<Rightarrow> u64 \<Rightarrow> nat \<Rightarrow> lifecycle_event" where
  "eval rules obj now newer =
     (if oo_mod_time obj = 0 then no_event
      else case eval_rules rules obj now newer None of Some e \<Rightarrow> e | None \<Rightarrow> no_event)"

section \<open>The engine\<close>

record pass_stats =
  st_buckets_scanned :: nat
  st_objects_examined :: nat
  st_deleted :: nat
  st_deleted_versions :: nat
  st_delete_markers_reaped :: nat
  st_multipart_aborted :: nat

definition stats_default :: pass_stats where
  "stats_default = \<lparr> st_buckets_scanned = 0, st_objects_examined = 0, st_deleted = 0, st_deleted_versions = 0,
     st_delete_markers_reaped = 0, st_multipart_aborted = 0 \<rparr>"

text \<open>
  The parsers of the two shapes of the stored configuration, the files below the root of a local
  disk and their modification times belong to the environment.
\<close>

record ('d, 'w, 'l, 'm) lifecycle_env =
  lx_pool :: "('d, 'w, 'l, 'm) pool_env"
  lx_rules_of_json :: "string \<Rightarrow> lifecycle_rule list option"
  lx_config_of_json :: "string \<Rightarrow> lifecycle_rule list option"
  lx_set_files :: "files \<Rightarrow> 'd \<Rightarrow> 'd"
  lx_mtime :: "'d \<Rightarrow> path \<Rightarrow> u64 option"

definition parse_lifecycle_config :: "('d, 'w, 'l, 'm) lifecycle_env \<Rightarrow> string \<Rightarrow> lifecycle_rule list option" where
  "parse_lifecycle_config X json = (case lx_rules_of_json X json of Some rules \<Rightarrow> Some rules | None \<Rightarrow> lx_config_of_json X json)"

definition apply_event ::
  "('d, 'w, 'l, 'm) pool_env \<Rightarrow> string \<Rightarrow> object_opts \<Rightarrow> lifecycle_event \<Rightarrow> pass_stats \<times> ('d, 'l, 'm) volume_pool
   \<Rightarrow> bool \<times> pass_stats \<times> ('d, 'l, 'm) volume_pool" where
  "apply_event E bucket obj event st_s = (case st_s of (stats, s) \<Rightarrow> (case ev_action event of
      NoAction \<Rightarrow> (False, stats, s)
    | Delete \<Rightarrow>
        (if oo_version_id obj = []
         then (case pool_delete_object E bucket (oo_name obj) s of
             (Inr _, s) \<Rightarrow> (True, stats\<lparr> st_deleted := st_deleted stats + 1 \<rparr>, s) | (Inl _, s) \<Rightarrow> (False, stats, s))
         else (case add_delete_marker E bucket (oo_name obj) s of
             (Inr _, s) \<Rightarrow> (True, stats\<lparr> st_deleted := st_deleted stats + 1 \<rparr>, s) | (Inl _, s) \<Rightarrow> (False, stats, s)))
    | DeleteVersion \<Rightarrow>
        (if oo_version_id obj = [] then (False, stats, s)
         else (case delete_object_version E bucket (oo_name obj) (oo_version_id obj) s of
             (Inr _, s) \<Rightarrow> (True, stats\<lparr> st_deleted_versions := st_deleted_versions stats + 1 \<rparr>, s) | (Inl _, s) \<Rightarrow> (False, stats, s)))
    | DeleteAllVersions \<Rightarrow>
        (case pool_delete_object E bucket (oo_name obj) s of
             (Inr _, s) \<Rightarrow> (True, stats\<lparr> st_deleted := st_deleted stats + 1 \<rparr>, s) | (Inl _, s) \<Rightarrow> (False, stats, s))
    | DeleteExpiredMarker \<Rightarrow>
        (if oo_version_id obj = []
         then (case pool_delete_object E bucket (oo_name obj) s of
             (Inr _, s) \<Rightarrow> (True, stats\<lparr> st_delete_markers_reaped := st_delete_markers_reaped stats + 1 \<rparr>, s) | (Inl _, s) \<Rightarrow> (False, stats, s))
         else (case delete_object_version E bucket (oo_name obj) (oo_version_id obj) s of
             (Inr _, s) \<Rightarrow> (True, stats\<lparr> st_delete_markers_reaped := st_delete_markers_reaped stats + 1 \<rparr>, s) | (Inl _, s) \<Rightarrow> (False, stats, s)))))"

definition examine :: "pass_stats \<Rightarrow> pass_stats" where
  "examine stats = stats\<lparr> st_objects_examined := st_objects_examined stats + 1 \<rparr>"

definition info_opts :: "object_info \<Rightarrow> object_opts" where
  "info_opts i = \<lparr> oo_name = oi_key i, oo_mod_time = oi_created_at i, oo_version_id = [], oo_is_latest = True,
     oo_is_delete_marker = oi_is_delete_marker i, oo_num_versions = 1, oo_successor_mod_time = 0, oo_size = oi_size i \<rparr>"

fun apply_objects ::
  "('d, 'w, 'l, 'm) pool_env \<Rightarrow> string \<Rightarrow> lifecycle_rule list \<Rightarrow> object_info list \<Rightarrow> pass_stats \<times> ('d, 'l, 'm) volume_pool
   \<Rightarrow> pass_stats \<times> ('d, 'l, 'm) volume_pool" where
  "apply_objects E bucket rules [] st_s = st_s"
| "apply_objects E bucket rules (info # infos) (stats, s) =
     apply_objects E bucket rules infos
       (snd (apply_event E bucket (info_opts info) (eval rules (info_opts info) (px_now E) 0) (examine stats, s)))"

definition version_opts :: "string \<Rightarrow> nat \<Rightarrow> u64 \<Rightarrow> object_meta \<Rightarrow> object_opts" where
  "version_opts key n successor m = \<lparr> oo_name = key, oo_mod_time = om_created_at m, oo_version_id = om_version_id m,
     oo_is_latest = om_is_latest m, oo_is_delete_marker = om_is_delete_marker m, oo_num_versions = n,
     oo_successor_mod_time = successor, oo_size = om_size m \<rparr>"

text \<open>The versions of one key, newest first; \<open>successor\<close> is the time of the version before in the list.\<close>

fun apply_versions ::
  "('d, 'w, 'l, 'm) pool_env \<Rightarrow> string \<Rightarrow> lifecycle_rule list \<Rightarrow> string \<Rightarrow> nat \<Rightarrow> u64 \<Rightarrow> nat \<Rightarrow> object_meta list
   \<Rightarrow> pass_stats \<times> ('d, 'l, 'm) volume_pool \<Rightarrow> pass_stats \<times> ('d, 'l, 'm) volume_pool" where
  "apply_versions E bucket rules key n successor newer [] st_s = st_s"
| "apply_versions E bucket rules key n successor newer (m # ms) (stats, s) =
     (let obj = version_opts key n successor m in
      case apply_event E bucket obj (eval rules obj (px_now E) newer) (examine stats, s) of (acted, st_s) \<Rightarrow>
        apply_versions E bucket rules key n (om_created_at m) (if \<not> oo_is_latest obj \<and> \<not> acted then newer + 1 else newer) ms st_s)"

definition default_list_options :: list_options where
  "default_list_options = \<lparr> lo_prefix = [], lo_delimiter = [], lo_start_after = [], lo_max_keys = 0, lo_continuation_token = [] \<rparr>"

definition is_versioned :: "('d, 'w, 'l, 'm) pool_env \<Rightarrow> ('d, 'l, 'm) volume_pool \<Rightarrow> string \<Rightarrow> bool" where
  "is_versioned E s bucket = (case get_versioning_config E s bucket of
      Inr (Some status) \<Rightarrow> status = ''Enabled'' \<or> status = ''Suspended'' | _ \<Rightarrow> False)"

definition apply_bucket ::
  "('d, 'w, 'l, 'm) pool_env \<Rightarrow> string \<Rightarrow> lifecycle_rule list \<Rightarrow> pass_stats \<times> ('d, 'l, 'm) volume_pool \<Rightarrow> pass_stats \<times> ('d, 'l, 'm) volume_pool" where
  "apply_bucket E bucket rules st_s = (case st_s of (stats, s) \<Rightarrow>
     if \<not> list_ex enabled rules then (stats, s)
     else if \<not> is_versioned E s bucket
       then (case pool_list_objects E bucket default_list_options s of
           (Inl _, s) \<Rightarrow> (stats, s)
         | (Inr listing, s) \<Rightarrow> apply_objects E bucket rules (lr_objects listing) (stats, s))
       else (case list_object_versions E s bucket [] of
           Inl _ \<Rightarrow> (stats, s)
         | Inr groups \<Rightarrow> fold (\<lambda>(key, versions). apply_versions E bucket rules key (length versions) 0 0 versions) groups (stats, s)))"

section \<open>Stale multipart uploads\<close>

definition abort_days :: "lifecycle_rule list \<Rightarrow> int option" where
  "abort_days rules = (case List.map_filter (\<lambda>r. case lr_abort_days r of Some (Some d) \<Rightarrow> Some d | _ \<Rightarrow> None) (filter enabled rules) of
      [] \<Rightarrow> None | d # ds \<Rightarrow> Some (fold min ds d))"

text \<open>The directories two levels below the bucket's multipart directory, as pairs of names.\<close>

definition staged_uploads :: "files \<Rightarrow> path \<Rightarrow> (string \<times> string) list" where
  "staged_uploads fs bdir = concat (map (\<lambda>key. map (Pair key) (child_dirs fs (push bdir key))) (child_dirs fs bdir))"

definition stale_on_disk ::
  "('d, 'w, 'l, 'm) lifecycle_env \<Rightarrow> string \<Rightarrow> u64 \<Rightarrow> 'd \<Rightarrow> (string \<times> string) list" where
  "stale_on_disk X bucket cutoff d = (case bk_local (px_ops (lx_pool X)) d of None \<Rightarrow> []
     | Some (root, fs) \<Rightarrow> (case multipart_bucket_dir root bucket of Inl _ \<Rightarrow> []
         | Inr bdir \<Rightarrow> if \<not> is_dir fs bdir then []
             else filter (\<lambda>(key, upload_id). case lx_mtime X d (push (push bdir key) upload_id) of
                 None \<Rightarrow> False | Some t \<Rightarrow> t > 0 \<and> t \<le> cutoff) (staged_uploads fs bdir)))"

definition remove_upload :: "('d, 'w, 'l, 'm) lifecycle_env \<Rightarrow> string \<Rightarrow> string \<times> string \<Rightarrow> 'd \<Rightarrow> 'd" where
  "remove_upload X bucket ku d = (case bk_local (px_ops (lx_pool X)) d of None \<Rightarrow> d
     | Some (root, fs) \<Rightarrow> (case multipart_upload_dir (px_is_uuid (lx_pool X)) root bucket (fst ku) (snd ku) of
           Inl _ \<Rightarrow> d | Inr dir \<Rightarrow> lx_set_files X (remove_dir_all dir fs) d))"

text \<open>The ordered set of the uploads found; its order does not matter for what is removed.\<close>

definition abort_stale_multiparts ::
  "('d, 'w, 'l, 'm) lifecycle_env \<Rightarrow> string \<Rightarrow> lifecycle_rule list \<Rightarrow> pass_stats \<times> ('d, 'l, 'm) volume_pool \<Rightarrow> pass_stats \<times> ('d, 'l, 'm) volume_pool" where
  "abort_stale_multiparts X bucket rules st_s = (case st_s of (stats, s) \<Rightarrow> (case abort_days rules of
      None \<Rightarrow> (stats, s)
    | Some days \<Rightarrow> if days < 0 then (stats, s)
        else let cutoff = sat_sub (px_now (lx_pool X)) (sat_mul (of_int days) 86400);
                 to_abort = remdups (concat (map (stale_on_disk X bucket cutoff) (vp_disks s))) in
          fold (\<lambda>ku (stats, s). (stats\<lparr> st_multipart_aborted := st_multipart_aborted stats + 1 \<rparr>,
            s\<lparr> vp_disks := map (remove_upload X bucket ku) (vp_disks s) \<rparr>)) to_abort (stats, s)))"

definition run_bucket ::
  "('d, 'w, 'l, 'm) lifecycle_env \<Rightarrow> string \<Rightarrow> pass_stats \<times> ('d, 'l, 'm) volume_pool \<Rightarrow> pass_stats \<times> ('d, 'l, 'm) volume_pool" where
  "run_bucket X bucket st_s = (case st_s of (stats, s) \<Rightarrow>
     let stats = stats\<lparr> st_buckets_scanned := st_buckets_scanned stats + 1 \<rparr> in
     case get_bucket_settings (lx_pool X) s bucket of Inl _ \<Rightarrow> (stats, s)
     | Inr settings \<Rightarrow> (case Option.bind (bs_lifecycle settings) (parse_lifecycle_config X) of None \<Rightarrow> (stats, s)
         | Some rules \<Rightarrow> abort_stale_multiparts X bucket rules (apply_bucket (lx_pool X) bucket rules (stats, s))))"

definition run_once :: "('d, 'w, 'l, 'm) lifecycle_env \<Rightarrow> ('d, 'l, 'm) volume_pool \<Rightarrow> pass_stats \<times> ('d, 'l, 'm) volume_pool" where
  "run_once X s = fold (\<lambda>b. run_bucket X (bi_name b)) (pool_list_buckets (lx_pool X) s) (stats_default, s)"

section \<open>The decision\<close>

lemma eval_rules_chosen:
  "eval_rules rules obj now newer chosen =
     fold (\<lambda>e c. earlier c e) (List.map_filter (\<lambda>r. rule_event r obj now newer) rules) chosen"
  by (induction rules arbitrary: chosen) (auto simp: List.map_filter_def split: option.split)

lemma fold_earlier:
  "case fold (\<lambda>e c. earlier c e) es c of
     None \<Rightarrow> es = [] \<and> c = None
   | Some e \<Rightarrow> (e \<in> set es \<or> c = Some e) \<and> (\<forall>x \<in> set es. ev_due e \<le> ev_due x) \<and> (\<forall>x. c = Some x \<longrightarrow> ev_due e \<le> ev_due x)"
proof (induction es arbitrary: c)
  case (Cons a es)
  from Cons.IH [of "earlier c a"] show ?case
    by (fastforce simp: earlier_def split: option.splits if_splits)
qed (simp split: option.split)

lemma rule_event_acts: "rule_event r obj now newer = Some e \<Longrightarrow> ev_action e \<noteq> NoAction"
  by (auto simp: rule_event_def marker_event_def noncurrent_event_def current_event_def Let_def split: if_splits option.splits)


text \<open>Two rules for logs, of which the second is due first.\<close>

definition expire_after :: "string \<Rightarrow> int \<Rightarrow> lifecycle_rule" where
  "expire_after name days = \<lparr> lr_id = Some name, lr_status = ''Enabled'', lr_filter = None, lr_rule_prefix = Some ''log/'',
     lr_expiration = Some \<lparr> le_days = Some days, le_expired_marker = None \<rparr>, lr_noncurrent = None, lr_abort_days = None \<rparr>"

definition old_log :: object_opts where
  "old_log = \<lparr> oo_name = ''log/1'', oo_mod_time = 100, oo_version_id = [], oo_is_latest = True, oo_is_delete_marker = False,
     oo_num_versions = 1, oo_successor_mod_time = 0, oo_size = 7 \<rparr>"


section \<open>Nothing goes before its time\<close>

text \<open>All waiting times of the rule are at least \<open>D\<close> days, in the range of the type of the field.\<close>

definition patient :: "int \<Rightarrow> lifecycle_rule \<Rightarrow> bool" where
  "patient D r \<longleftrightarrow> enabled r \<longrightarrow>
     (\<forall>e. lr_expiration r = Some e \<longrightarrow> le_expired_marker e \<noteq> Some True \<and> (\<forall>d. le_days e = Some d \<longrightarrow> D \<le> d \<and> d < 2 ^ 31))
     \<and> (\<forall>n. lr_noncurrent r = Some n \<longrightarrow> (\<exists>d. nv_days n = Some d \<and> D \<le> d \<and> d < 2 ^ 31))"

definition young :: "int \<Rightarrow> u64 \<Rightarrow> u64 \<Rightarrow> bool" where
  "young D now t \<longleftrightarrow> unat now < unat t + nat D * 86400"

lemma not_yet_due:
  assumes "0 < D" "D \<le> d" "d < 2 ^ 31" "young D now t" "now \<noteq> -1"
  shows "\<not> expected_expiry t d \<le> now"
proof -
  have "(of_int d :: u64) = of_nat (nat d)" using assms(1,2) by simp
  then have "unat (of_int d :: u64) = nat d" using assms(3) by (simp add: unat_of_nat)
  moreover have lt: "nat d * 86400 < 2 ^ 64" using assms(3) by auto
  ultimately have m: "unat (sat_mul (of_int d) 86400) = nat d * 86400" by (simp add: sat_mul_def unat_word_ariths)
  have "unat now < unat t + nat d * 86400" using assms(1,2,4) unfolding young_def by (auto intro: less_le_trans)
  moreover have "now < -1" using assms(5) by (simp add: order.not_eq_order_implies_strict)
  ultimately have "now < sat_add t (sat_mul (of_int d) 86400)"
    unfolding sat_add_def m by (simp add: word_less_nat_alt unat_word_ariths m)
  then show ?thesis using assms(1,2) by (simp add: expected_expiry_def)
qed

lemma young_no_event:
  assumes "0 < D" "now \<noteq> -1" "patient D r" "young D now (oo_mod_time obj)" "young D now (noncurrent_base obj)"
  shows "rule_event r obj now newer = None"
  using assms(3) not_yet_due [OF assms(1) _ _ assms(4,2)] not_yet_due [OF assms(1) _ _ assms(5,2)]
  by (auto simp: rule_event_def patient_def marker_event_def noncurrent_event_def current_event_def Let_def split: option.splits)

lemma young_no_action:
  assumes "0 < D" "now \<noteq> -1" "\<forall>r \<in> set rules. patient D r" "young D now (oo_mod_time obj)" "young D now (noncurrent_base obj)"
  shows "ev_action (eval rules obj now newer) = NoAction"
proof (cases "oo_mod_time obj = 0")
  case False
  from assms(3) young_no_event [OF assms(1,2) _ assms(4,5)] have "eval_rules rules obj now newer None = None"
    by (induction rules) auto
  then show ?thesis by (simp add: eval_def no_event_def)
qed (simp add: eval_def no_event_def)

lemma apply_event_noop: "ev_action e = NoAction \<Longrightarrow> apply_event E b obj e (st, s) = (False, st, s)"
  by (simp add: apply_event_def)

lemma apply_objects_young:
  assumes "0 < D" "px_now E \<noteq> -1" "\<forall>r \<in> set rules. patient D r" "\<forall>i \<in> set infos. young D (px_now E) (oi_created_at i)"
  shows "snd (apply_objects E b rules infos (st, s)) = s"
  using assms(4)
proof (induction infos arbitrary: st)
  case (Cons i infos)
  have "ev_action (eval rules (info_opts i) (px_now E) 0) = NoAction"
    using Cons.prems by (intro young_no_action [OF assms(1,2,3)]) (simp_all add: info_opts_def noncurrent_base_def)
  with Cons show ?case by (simp add: apply_event_noop)
qed simp

lemma apply_versions_young:
  assumes "0 < D" "px_now E \<noteq> -1" "\<forall>r \<in> set rules. patient D r"
    and "\<forall>m \<in> set ms. young D (px_now E) (om_created_at m)" "successor = 0 \<or> young D (px_now E) successor"
  shows "snd (apply_versions E b rules key n successor newer ms (st, s)) = s"
  using assms(4,5)
proof (induction ms arbitrary: st successor newer)
  case (Cons m ms)
  have "ev_action (eval rules (version_opts key n successor m) (px_now E) newer) = NoAction"
    using Cons.prems by (intro young_no_action [OF assms(1,2,3)]) (auto simp: version_opts_def noncurrent_base_def word_gt_0)
  with Cons show ?case by (simp add: apply_event_noop Let_def)
qed simp

lemma apply_groups_young:
  assumes "0 < D" "px_now E \<noteq> -1" "\<forall>r \<in> set rules. patient D r"
    and "\<forall>(k, ms) \<in> set groups. \<forall>m \<in> set ms. young D (px_now E) (om_created_at m)"
  shows "snd (fold (\<lambda>(key, versions). apply_versions E b rules key (length versions) 0 0 versions) groups (st, s)) = s"
  using assms(4)
proof (induction groups arbitrary: st)
  case (Cons g groups)
  obtain k ms where g: "g = (k, ms)" by (cases g)
  have "snd (apply_versions E b rules k (length ms) 0 0 ms (st, s)) = s"
    by (rule apply_versions_young [OF assms(1,2,3)]) (use Cons.prems g in auto)
  then obtain st' where "apply_versions E b rules k (length ms) 0 0 ms (st, s) = (st', s)" by (metis prod.collapse)
  with Cons g show ?case by simp
qed simp

text \<open>Listing changes no disk.\<close>

lemma head_object_disks: "vp_disks (snd (head_object E b k s)) = vp_disks s"
  by (auto simp: head_object_def then_do_def wc_lookup_def split: prod.splits sum.splits option.splits)

lemma list_loop_disks: "vp_disks (snd (list_loop E b pre delim keys acc s)) = vp_disks s"
proof (induction E b pre delim keys acc s rule: list_loop.induct)
  case (2 E bucket pre delim key keys objects prefixes s)
  show ?case
  proof (cases "if delim = [] then None else find_str delim (drop (length pre) key)")
    case None
    obtain r s1 where h: "head_object E bucket key s = (r, s1)" by force
    with head_object_disks [of E bucket key s] have "vp_disks s1 = vp_disks s" by simp
    moreover have "vp_disks (snd (list_loop E bucket pre delim keys (objects, prefixes) s1)) = vp_disks s1" if "r = Inl e" for e
      using 2(1,2) [OF None] h that by auto
    ultimately show ?thesis using None h 2(1,2) [OF None] by (cases r) auto
  qed (use 2(3) in \<open>auto simp: Let_def\<close>)
qed simp

lemma list_objects_disks: "vp_disks (snd (pool_list_objects E b opts s)) = vp_disks s"
  using list_loop_disks [of E b "lo_prefix opts" "lo_delimiter opts" "all_keys E s b (lo_prefix opts)" "([], [])" s]
  by (auto simp: pool_list_objects_def then_do_def Let_def split: prod.splits sum.splits)



end
