(* ===== verification/Multipart.thy ===== *)
theory Multipart
  imports Backend Erasure
begin

text \<open>
  Multipart uploads (\<open>src/multipart/mod.rs\<close>).  The code goes past the interface of the disks: it
  takes the root directory from the label of a disk and works on the files of the machine, here one
  file system with the roots of the disks as directories in it.  A disk that is not local has the
  current directory as its root.
\<close>

section \<open>Files of an upload\<close>

record upload_meta =
  um_upload_id :: string
  um_bucket :: string
  um_key :: string
  um_content_type :: string
  um_user_metadata :: "string \<rightharpoonup> string"
  um_created_at :: u64
  um_data_dir :: string

record part_meta =
  pm_part_number :: int
  pm_size :: u64
  pm_etag :: string

record part_file_meta =
  pf_part_number :: int
  pf_size :: u64
  pf_etag :: string
  pf_erasure :: erasure_meta
  pf_checksum :: string

record multipart_env =
  mx_libs :: libs
  mx_sha256 :: "string \<Rightarrow> bytes"
  mx_env :: env
  mx_upload_enc :: "upload_meta \<Rightarrow> bytes"
  mx_upload_dec :: "bytes \<Rightarrow> upload_meta option"
  mx_part_enc :: "part_file_meta \<Rightarrow> bytes"
  mx_part_dec :: "bytes \<Rightarrow> part_file_meta option"
  mx_uuid :: "nat \<Rightarrow> string"
  mx_now :: u64

text \<open>\<open>PathBuf::from\<close>: the components of a text.\<close>

definition path_of :: "string \<Rightarrow> path" where
  "path_of s = (if take 1 s = ''/'' then [RootDir] else []) @ concat (map comp_of (split_on (CHR ''/'') s))"

definition disk_root :: "string \<Rightarrow> path" where
  "disk_root label = (case strip_prefix ''local:'' label of Some p \<Rightarrow> path_of p | None \<Rightarrow> path_of ''.'')"

definition upload_dir :: "multipart_env \<Rightarrow> string \<Rightarrow> string \<Rightarrow> string \<Rightarrow> string \<Rightarrow> storage_error + path" where
  "upload_dir X label bucket key upload_id =
     lift_path (multipart_upload_dir (e_is_uuid (mx_env X)) (disk_root label) bucket key upload_id)"

definition check_names :: "multipart_env \<Rightarrow> string \<Rightarrow> string \<Rightarrow> string \<Rightarrow> storage_error + unit" where
  "check_names X bucket key upload_id = lift_path (res_bind (validate_bucket_name bucket) (\<lambda>_.
     res_bind (validate_object_key key) (\<lambda>_. validate_upload_id (e_is_uuid (mx_env X)) upload_id)))"

definition write_into :: "path \<Rightarrow> string \<Rightarrow> bytes \<Rightarrow> files \<Rightarrow> (storage_error + unit) \<times> files" where
  "write_into dir name bs fs = then_do (create_dir_all dir fs) (\<lambda>_ fs. fs_write (push dir name) bs fs)"

section \<open>Starting an upload\<close>

fun create_on_disks :: "multipart_env \<Rightarrow> string \<Rightarrow> string \<Rightarrow> string \<Rightarrow> bytes \<Rightarrow> string list \<Rightarrow> nat \<Rightarrow> files \<Rightarrow> (storage_error + nat) \<times> files" where
  "create_on_disks X bucket key upload_id json [] stored_n fs = (Inr stored_n, fs)"
| "create_on_disks X bucket key upload_id json (disk # disks) stored_n fs =
     then_do (upload_dir X disk bucket key upload_id, fs) (\<lambda>dir fs.
       case write_into dir ''upload.json'' json fs of (r, fs) \<Rightarrow>
         create_on_disks X bucket key upload_id json disks (if is_ok r then stored_n + 1 else stored_n) fs)"

definition create_upload ::
  "multipart_env \<Rightarrow> string list \<Rightarrow> string \<Rightarrow> string \<Rightarrow> string \<Rightarrow> (string \<rightharpoonup> string) \<Rightarrow> files \<Rightarrow> (storage_error + string) \<times> files" where
  "create_upload X disks bucket key content_type user_metadata fs =
     then_do (lift_path (validate_bucket_name bucket), fs) (\<lambda>_ fs.
     then_do (lift_path (validate_object_key key), fs) (\<lambda>_ fs.
       let upload_id = mx_uuid X 0;
           meta = \<lparr> um_upload_id = upload_id, um_bucket = bucket, um_key = key, um_content_type = content_type,
             um_user_metadata = user_metadata, um_created_at = mx_now X, um_data_dir = mx_uuid X 1 \<rparr>
       in then_do (create_on_disks X bucket key upload_id (mx_upload_enc X meta) disks 0 fs) (\<lambda>stored_n fs.
            if stored_n = 0 then (Inl WriteQuorum, fs) else (Inr upload_id, fs))))"

fun read_upload_from :: "multipart_env \<Rightarrow> files \<Rightarrow> string \<Rightarrow> string \<Rightarrow> string \<Rightarrow> string list \<Rightarrow> storage_error + upload_meta" where
  "read_upload_from X fs bucket key upload_id [] = Inl ObjectNotFound"
| "read_upload_from X fs bucket key upload_id (disk # disks) =
     res_bind (upload_dir X disk bucket key upload_id) (\<lambda>dir.
       case Option.bind (fs_read fs (push dir ''upload.json'')) (mx_upload_dec X) of
         Some meta \<Rightarrow> Inr meta | None \<Rightarrow> read_upload_from X fs bucket key upload_id disks)"

definition read_upload :: "multipart_env \<Rightarrow> string list \<Rightarrow> files \<Rightarrow> string \<Rightarrow> string \<Rightarrow> string \<Rightarrow> storage_error + upload_meta" where
  "read_upload X disks fs bucket key upload_id =
     res_bind (check_names X bucket key upload_id) (\<lambda>_. read_upload_from X fs bucket key upload_id disks)"

section \<open>Parts\<close>

definition encode_part :: "multipart_env \<Rightarrow> nat \<Rightarrow> nat \<Rightarrow> bytes \<Rightarrow> storage_error + bytes list" where
  "encode_part X data_n parity_n data =
     (let shards = split_data data data_n in
      if parity_n = 0 then Inr shards
      else if data_n = 0 then Inl (Internal ''panic: index out of bounds'')
      else case l_reed_solomon (mx_libs X) data_n parity_n of None \<Rightarrow> Inl (InvalidConfig ''reed-solomon'')
        | Some codec \<Rightarrow> (case rs_encode codec (shards @ replicate parity_n (replicate (length (shards ! 0)) 0)) of
            None \<Rightarrow> Inl (InvalidConfig ''encode'') | Some out \<Rightarrow> Inr out))"

definition part_file_meta_of :: "multipart_env \<Rightarrow> nat \<Rightarrow> nat \<Rightarrow> int \<Rightarrow> bytes \<Rightarrow> nat \<Rightarrow> bytes \<Rightarrow> part_file_meta" where
  "part_file_meta_of X tot parity_n part_number data i shard = \<lparr> pf_part_number = part_number, pf_size = of_nat (length data),
     pf_etag = l_md5_hex (mx_libs X) data,
     pf_erasure = \<lparr> em_ftt = parity_n, em_index = i, em_epoch_id = 1, em_volume_ids = map (\<lambda>i. ''vol-'' @ show_nat i) [0..<tot] \<rparr>,
     pf_checksum = l_blake3_hex (mx_libs X) shard \<rparr>"

text \<open>One shard to its disk: a shard that is written counts, whatever happens to its metadata.\<close>

definition put_shard :: "path \<Rightarrow> string \<Rightarrow> bytes \<Rightarrow> bytes \<Rightarrow> files \<Rightarrow> bool \<times> files" where
  "put_shard data_path part_file shard meta_json fs = (case write_into data_path part_file shard fs of
      (Inl _, fs) \<Rightarrow> (False, fs)
    | (Inr _, fs) \<Rightarrow> (True, snd (fs_write (push data_path (part_file @ ''.meta'')) meta_json fs)))"

fun put_shards ::
  "multipart_env \<Rightarrow> string list \<Rightarrow> string \<Rightarrow> string \<Rightarrow> string \<Rightarrow> string \<Rightarrow> string \<Rightarrow> (nat \<times> bytes \<times> bytes) list \<Rightarrow> nat \<Rightarrow> files
   \<Rightarrow> (storage_error + nat) \<times> files" where
  "put_shards X disks bucket key upload_id data_dir part_file [] stored_n fs = (Inr stored_n, fs)"
| "put_shards X disks bucket key upload_id data_dir part_file ((disk_idx, shard, meta_json) # todo) stored_n fs =
     (if disk_idx \<ge> length disks then put_shards X disks bucket key upload_id data_dir part_file todo stored_n fs
      else then_do (upload_dir X (disks ! disk_idx) bucket key upload_id, fs) (\<lambda>dir fs.
        case put_shard (push dir data_dir) part_file shard meta_json fs of (stored, fs) \<Rightarrow>
          put_shards X disks bucket key upload_id data_dir part_file todo (if stored then stored_n + 1 else stored_n) fs))"

definition part_work :: "multipart_env \<Rightarrow> nat \<Rightarrow> nat \<Rightarrow> string \<Rightarrow> string \<Rightarrow> int \<Rightarrow> bytes \<Rightarrow> bytes list \<Rightarrow> (nat \<times> bytes \<times> bytes) list" where
  "part_work X data_n parity_n bucket key part_number data shards =
     (let tot = data_n + parity_n;
          distribution = hash_order (mx_sha256 X) (bucket @ ''/'' @ key @ ''/'' @ drop 5 (part_name part_number)) tot
      in map (\<lambda>i. (distribution ! i, shards ! i,
           mx_part_enc X (part_file_meta_of X tot parity_n part_number data i (shards ! i)))) [0..<length shards])"

definition put_part ::
  "multipart_env \<Rightarrow> string list \<Rightarrow> nat \<Rightarrow> nat \<Rightarrow> string \<Rightarrow> string \<Rightarrow> string \<Rightarrow> int \<Rightarrow> bytes \<Rightarrow> files \<Rightarrow> (storage_error + part_meta) \<times> files" where
  "put_part X disks data_n parity_n bucket key upload_id part_number data fs =
     then_do (check_names X bucket key upload_id, fs) (\<lambda>_ fs.
     then_do (read_upload X disks fs bucket key upload_id, fs) (\<lambda>upload fs.
     then_do (encode_part X data_n parity_n data, fs) (\<lambda>shards fs.
     then_do (put_shards X disks bucket key upload_id (um_data_dir upload) (part_name part_number)
         (part_work X data_n parity_n bucket key part_number data shards) 0 fs) (\<lambda>stored_n fs.
       if stored_n < write_quorum data_n parity_n then (Inl WriteQuorum, fs)
       else (Inr \<lparr> pm_part_number = part_number, pm_size = of_nat (length data), pm_etag = l_md5_hex (mx_libs X) data \<rparr>, fs)))))"

text \<open>The files of the first disk that has the directory of the parts.\<close>

definition child_files :: "files \<Rightarrow> path \<Rightarrow> (string \<times> bytes) list" where
  "child_files fs d = List.map_filter (\<lambda>(p, c). case (c, child_name d p) of (Some bs, Some name) \<Rightarrow> Some (name, bs) | _ \<Rightarrow> None) fs"

definition is_part_meta :: "string \<Rightarrow> bool" where
  "is_part_meta name \<longleftrightarrow> strip_suffix ''.meta'' name \<noteq> None \<and> strip_prefix ''part.'' name \<noteq> None"

fun collect_parts :: "part_file_meta list \<Rightarrow> part_meta list \<Rightarrow> part_meta list" where
  "collect_parts [] parts = parts"
| "collect_parts (pm # pms) parts =
     collect_parts pms (if list_ex (\<lambda>p. pm_part_number p = pf_part_number pm) parts then parts
       else parts @ [\<lparr> pm_part_number = pf_part_number pm, pm_size = pf_size pm, pm_etag = pf_etag pm \<rparr>])"

fun parts_on_first :: "multipart_env \<Rightarrow> files \<Rightarrow> string \<Rightarrow> string \<Rightarrow> string \<Rightarrow> string \<Rightarrow> string list \<Rightarrow> storage_error + part_meta list" where
  "parts_on_first X fs bucket key upload_id data_dir [] = Inr []"
| "parts_on_first X fs bucket key upload_id data_dir (disk # disks) =
     res_bind (upload_dir X disk bucket key upload_id) (\<lambda>dir.
       let data_path = push dir data_dir in
       if \<not> is_dir fs data_path then parts_on_first X fs bucket key upload_id data_dir disks
       else Inr (collect_parts (List.map_filter (\<lambda>(name, bs). if is_part_meta name then mx_part_dec X bs else None) (child_files fs data_path)) []))"

definition list_parts :: "multipart_env \<Rightarrow> string list \<Rightarrow> files \<Rightarrow> string \<Rightarrow> string \<Rightarrow> string \<Rightarrow> storage_error + upload_meta \<times> part_meta list" where
  "list_parts X disks fs bucket key upload_id =
     res_bind (check_names X bucket key upload_id) (\<lambda>_.
     res_bind (read_upload X disks fs bucket key upload_id) (\<lambda>upload.
     res_bind (parts_on_first X fs bucket key upload_id (um_data_dir upload) disks) (\<lambda>parts.
       Inr (upload, sort_key pm_part_number parts))))"

section \<open>Completing an upload\<close>

definition fs_rename :: "path \<Rightarrow> path \<Rightarrow> files \<Rightarrow> (storage_error + unit) \<times> files" where
  "fs_rename src dst fs = (case fs_read fs src of None \<Rightarrow> (Inl (Io ''rename''), fs)
     | Some bs \<Rightarrow> if is_dir fs dst \<or> \<not> is_dir fs (butlast dst) then (Inl (Io ''rename''), fs)
         else (Inr (), AList.update dst (Some bs) (if src = dst then fs else AList.delete src fs)))"

text \<open>A rename, or a copy where the rename fails.\<close>

definition move_file :: "path \<Rightarrow> path \<Rightarrow> files \<Rightarrow> files" where
  "move_file src dst fs = (if map_of fs src = None then fs
     else case fs_rename src dst fs of (Inr _, fs) \<Rightarrow> fs
       | (Inl _, fs) \<Rightarrow> (case fs_read fs src of None \<Rightarrow> fs
           | Some data \<Rightarrow> AList.delete src (snd (fs_write dst data fs))))"

fun first_part_meta :: "multipart_env \<Rightarrow> files \<Rightarrow> string \<Rightarrow> string \<Rightarrow> string \<Rightarrow> string \<Rightarrow> int \<Rightarrow> string list \<Rightarrow> storage_error + part_file_meta" where
  "first_part_meta X fs bucket key upload_id data_dir pn [] = Inl ObjectNotFound"
| "first_part_meta X fs bucket key upload_id data_dir pn (disk # disks) =
     res_bind (upload_dir X disk bucket key upload_id) (\<lambda>dir.
       case Option.bind (fs_read fs (push (push dir data_dir) (part_name pn @ ''.meta''))) (mx_part_dec X) of
         Some pm \<Rightarrow> Inr pm | None \<Rightarrow> first_part_meta X fs bucket key upload_id data_dir pn disks)"

fun move_part :: "multipart_env \<Rightarrow> string \<Rightarrow> string \<Rightarrow> string \<Rightarrow> string \<Rightarrow> int \<Rightarrow> string list \<Rightarrow> files \<Rightarrow> (storage_error + unit) \<times> files" where
  "move_part X bucket key upload_id data_dir pn [] fs = (Inr (), fs)"
| "move_part X bucket key upload_id data_dir pn (disk # disks) fs =
     then_do (upload_dir X disk bucket key upload_id, fs) (\<lambda>dir fs.
     then_do (lift_path (object_dir (disk_root disk) bucket key), fs) (\<lambda>obj_dir fs.
       let staging = push dir data_dir;
           fs = snd (create_dir_all obj_dir fs);
           fs = move_file (push staging (part_name pn)) (push obj_dir (part_name pn)) fs;
           fs = move_file (push staging (part_name pn @ ''.meta'')) (push obj_dir (part_name pn @ ''.meta'')) fs
       in move_part X bucket key upload_id data_dir pn disks fs))"

fun move_parts ::
  "multipart_env \<Rightarrow> string list \<Rightarrow> string \<Rightarrow> string \<Rightarrow> string \<Rightarrow> string \<Rightarrow> int list \<Rightarrow> part_entry list \<times> u64 \<Rightarrow> files
   \<Rightarrow> (storage_error + part_entry list \<times> u64) \<times> files" where
  "move_parts X disks bucket key upload_id data_dir [] acc fs = (Inr acc, fs)"
| "move_parts X disks bucket key upload_id data_dir (pn # pns) (parts, total_size) fs =
     then_do (first_part_meta X fs bucket key upload_id data_dir pn disks, fs) (\<lambda>pm fs.
     then_do (move_part X bucket key upload_id data_dir pn disks fs) (\<lambda>_ fs.
       move_parts X disks bucket key upload_id data_dir pns
         (parts @ [\<lparr> pe_number = pn, pe_size = pf_size pm, pe_etag = pf_etag pm, pe_erasure = pf_erasure pm, pe_checksum = pf_checksum pm \<rparr>],
          total_size + pf_size pm) fs))"

definition trim_quotes :: "string \<Rightarrow> string" where
  "trim_quotes s = rev (dropWhile (\<lambda>c. c = CHR 0x22) (rev (dropWhile (\<lambda>c. c = CHR 0x22) s)))"

definition final_etag :: "multipart_env \<Rightarrow> (int \<times> string) list \<Rightarrow> string" where
  "final_etag X requested_parts =
     l_md5_hex (mx_libs X) (map (\<lambda>c. of_nat (of_char c)) (concat (map (trim_quotes \<circ> snd) requested_parts)))
       @ ''-'' @ show_nat (length requested_parts)"

definition completed_meta :: "multipart_env \<Rightarrow> upload_meta \<Rightarrow> part_entry list \<Rightarrow> u64 \<Rightarrow> string \<Rightarrow> object_meta" where
  "completed_meta X upload parts total_size etag = \<lparr> om_size = total_size, om_etag = etag, om_content_type = um_content_type upload,
     om_created_at = mx_now X,
     om_erasure = (case parts of p # _ \<Rightarrow> pe_erasure p | [] \<Rightarrow> \<lparr> em_ftt = 0, em_index = 0, em_epoch_id = 0, em_volume_ids = [] \<rparr>),
     om_checksum = [], om_user_metadata = um_user_metadata upload, om_tags = Map.empty, om_version_id = [], om_is_latest = True,
     om_is_delete_marker = False, om_parts = parts, om_inline_data = None \<rparr>"

fun write_metas :: "multipart_env \<Rightarrow> string \<Rightarrow> string \<Rightarrow> object_meta \<Rightarrow> nat \<Rightarrow> string list \<Rightarrow> nat \<Rightarrow> files \<Rightarrow> (storage_error + nat) \<times> files" where
  "write_metas X bucket key meta disk_idx [] stored_n fs = (Inr stored_n, fs)"
| "write_metas X bucket key meta disk_idx (disk # disks) stored_n fs =
     then_do (lift_path (object_dir (disk_root disk) bucket key), fs) (\<lambda>obj_dir fs.
       let fs = snd (create_dir_all obj_dir fs);
           disk_meta = meta\<lparr> om_erasure := (om_erasure meta)\<lparr> em_index := disk_idx \<rparr> \<rparr>;
           mf = \<lparr> mf_bucket = bucket, mf_key = key, mf_versions = [disk_meta] \<rparr>
       in then_do (lift_path (object_meta_path (disk_root disk) bucket key), fs) (\<lambda>meta_path fs.
            case write_meta_file (mx_env X) meta_path mf fs of (r, fs) \<Rightarrow>
              write_metas X bucket key meta (disk_idx + 1) disks (if is_ok r then stored_n + 1 else stored_n) fs))"

definition remove_upload_dirs :: "multipart_env \<Rightarrow> string \<Rightarrow> string \<Rightarrow> string \<Rightarrow> string list \<Rightarrow> files \<Rightarrow> files" where
  "remove_upload_dirs X bucket key upload_id disks fs =
     fold (\<lambda>disk fs. case upload_dir X disk bucket key upload_id of Inl _ \<Rightarrow> fs | Inr dir \<Rightarrow> remove_dir_all dir fs) disks fs"

definition complete_upload ::
  "multipart_env \<Rightarrow> string list \<Rightarrow> string \<Rightarrow> string \<Rightarrow> string \<Rightarrow> (int \<times> string) list \<Rightarrow> files \<Rightarrow> (storage_error + object_info) \<times> files" where
  "complete_upload X disks bucket key upload_id requested_parts fs =
     then_do (check_names X bucket key upload_id, fs) (\<lambda>_ fs.
     then_do (list_parts X disks fs bucket key upload_id, fs) (\<lambda>(upload, available_parts) fs.
       if \<not> list_all (\<lambda>(pn, _). list_ex (\<lambda>p. pm_part_number p = pn) available_parts) requested_parts then (Inl ObjectNotFound, fs)
       else then_do (move_parts X disks bucket key upload_id (um_data_dir upload) (map fst requested_parts) ([], 0) fs) (\<lambda>(parts, total_size) fs.
         let etag = final_etag X requested_parts in
         then_do (write_metas X bucket key (completed_meta X upload parts total_size etag) 0 disks 0 fs) (\<lambda>meta_successes fs.
           if meta_successes = 0 then (Inl WriteQuorum, fs)
           else (Inr \<lparr> oi_bucket = bucket, oi_key = key, oi_size = total_size, oi_etag = etag, oi_content_type = um_content_type upload,
                   oi_created_at = mx_now X, oi_user_metadata = um_user_metadata upload, oi_tags = Map.empty, oi_version_id = [],
                   oi_is_delete_marker = False \<rparr>, remove_upload_dirs X bucket key upload_id disks fs)))))"

section \<open>Aborting and listing\<close>

fun abort_on_disks :: "multipart_env \<Rightarrow> string \<Rightarrow> string \<Rightarrow> string \<Rightarrow> string list \<Rightarrow> files \<Rightarrow> (storage_error + unit) \<times> files" where
  "abort_on_disks X bucket key upload_id [] fs = (Inr (), fs)"
| "abort_on_disks X bucket key upload_id (disk # disks) fs =
     then_do (upload_dir X disk bucket key upload_id, fs) (\<lambda>dir fs.
       abort_on_disks X bucket key upload_id disks (remove_dir_all dir fs))"

definition abort_upload :: "multipart_env \<Rightarrow> string list \<Rightarrow> string \<Rightarrow> string \<Rightarrow> string \<Rightarrow> files \<Rightarrow> (storage_error + unit) \<times> files" where
  "abort_upload X disks bucket key upload_id fs =
     then_do (check_names X bucket key upload_id, fs) (\<lambda>_ fs. abort_on_disks X bucket key upload_id disks fs)"

text \<open>Every directory with an \<open>upload.json\<close>, the others are searched further.\<close>

function walk_uploads :: "multipart_env \<Rightarrow> files \<Rightarrow> path \<Rightarrow> upload_meta list" where
  "walk_uploads X fs dir = concat (map (\<lambda>name.
     let p = dir @ [NormalComp name]; upload_path = p @ [NormalComp ''upload.json''] in
     if map_of fs upload_path \<noteq> None
     then (case Option.bind (fs_read fs upload_path) (mx_upload_dec X) of Some meta \<Rightarrow> [meta] | None \<Rightarrow> [])
     else walk_uploads X fs p) (child_dirs fs dir))"
  by pat_completeness auto
termination
  by (relation "measure (\<lambda>(X, fs, dir). max_depth fs - length dir)") (auto dest!: child_dirs_depth)

declare walk_uploads.simps [simp del]

fun keep_new_uploads :: "upload_meta list \<Rightarrow> string set \<Rightarrow> upload_meta list" where
  "keep_new_uploads [] seen = []"
| "keep_new_uploads (u # us) seen = (if um_upload_id u \<in> seen then keep_new_uploads us seen
     else u # keep_new_uploads us (insert (um_upload_id u) seen))"

fun list_uploads_from :: "multipart_env \<Rightarrow> files \<Rightarrow> string \<Rightarrow> string list \<Rightarrow> storage_error + upload_meta list" where
  "list_uploads_from X fs bucket [] = Inr []"
| "list_uploads_from X fs bucket (disk # disks) =
     res_bind (lift_path (multipart_bucket_dir (disk_root disk) bucket)) (\<lambda>bucket_dir.
       if is_dir fs bucket_dir then Inr (keep_new_uploads (walk_uploads X fs bucket_dir) {})
       else list_uploads_from X fs bucket disks)"

definition list_uploads :: "multipart_env \<Rightarrow> string list \<Rightarrow> files \<Rightarrow> string \<Rightarrow> storage_error + upload_meta list" where
  "list_uploads X disks fs bucket = res_bind (lift_path (validate_bucket_name bucket)) (\<lambda>_. list_uploads_from X fs bucket disks)"

section \<open>Where an upload lives\<close>

lemma upload_dir_parts:
  assumes "multipart_upload_dir is_uuid root b k u = Inr d" and "\<And>v. is_uuid v \<Longrightarrow> plain v"
  shows "d = normalize_path root @ map NormalComp ([''.abixio.sys'', ''multipart'', b] @ split_on (CHR ''/'') k @ [u])" and "is_uuid u"
proof -
  from assms(1) have v: "validate_bucket_name b = Inr ()" "validate_object_key k = Inr ()" "is_uuid u"
    and j: "safe_join root ([''.abixio.sys'', ''multipart'', b] @ split_on (CHR ''/'') k @ [u]) = Inr d"
    by (auto simp: multipart_upload_dir_def res_bind_Inr_iff validate_upload_id_def split: if_splits)
  have "list_all plain ([''.abixio.sys'', ''multipart'', b] @ split_on (CHR ''/'') k @ [u])"
    using valid_bucket_plain [OF v(1)] valid_key_plain [OF v(2)] assms(2) [OF v(3)] by (simp add: plain_def)
  from safe_join_plain [OF this] j show "d = normalize_path root @ map NormalComp ([''.abixio.sys'', ''multipart'', b] @ split_on (CHR ''/'') k @ [u])" by simp
  show "is_uuid u" by fact
qed

lemma abort_on_disks_files:
  "abort_on_disks X b k u disks fs = (Inr r, fs') \<Longrightarrow>
   map_of fs' q = (if \<exists>disk \<in> set disks. \<exists>dir. upload_dir X disk b k u = Inr dir \<and> path_below dir q then None else map_of fs q)"
proof (induction X b k u disks fs rule: abort_on_disks.induct)
  case (2 X b k u disk disks fs)
  from 2(2) obtain dir where d: "upload_dir X disk b k u = Inr dir" "abort_on_disks X b k u disks (remove_dir_all dir fs) = (Inr r, fs')"
    by (auto simp: then_do_Inr_iff)
  from 2(1) [OF d(2)] d(1) show ?case by (auto simp: map_of_remove_dir)
qed simp


section \<open>An acknowledged part is stored\<close>

lemma part_name_shape: "comp_of (part_name n) = [NormalComp (part_name n)]" "comp_of (part_name n @ ''.meta'') = [NormalComp (part_name n @ ''.meta'')]"
  by (simp_all add: part_name_def comp_of_def)

lemma put_shard_reads:
  assumes "put_shard dp (part_name n) sh mj fs = (stored, fs')"
  shows "q \<notin> {push dp (part_name n), push dp (part_name n @ ''.meta'')} \<Longrightarrow> fs_read fs' q = fs_read fs q"
    and "stored \<Longrightarrow> fs_read fs' (push dp (part_name n)) = Some sh"
proof -
  let ?p = "push dp (part_name n)" and ?m = "push dp (part_name n @ ''.meta'')"
  have ne: "?p \<noteq> ?m" by (simp add: push_def part_name_shape)
  obtain r fs1 where c: "create_dir_all dp fs = (r, fs1)" by force
  have r1: "fs_read fs1 q = fs_read fs q" for q
    using create_dir_all_Inr(1) [of dp fs _ fs1] create_dir_all_Inl [of dp fs _ fs1] c by (cases r) auto
  show "fs_read fs' q = fs_read fs q" if q: "q \<notin> {?p, ?m}"
  proof -
    show ?thesis
    proof (cases r)
      case (Inl e)
      with c assms r1 show ?thesis by (simp add: put_shard_def write_into_def)
    next
      case (Inr v)
      obtain w fs2 where w: "fs_write ?p sh fs1 = (w, fs2)" by force
      show ?thesis
      proof (cases w)
        case (Inl e)
        with w have "fs2 = fs1" using fs_write_Inl by blast
        with Inl Inr c w assms r1 show ?thesis by (simp add: put_shard_def write_into_def)
      next
        case ok: (Inr v')
        note w2 = fs_write_Inr [OF w [unfolded ok]]
        obtain x fs3 where x: "fs_write ?m mj fs2 = (x, fs3)" by force
        have "fs_read fs3 q = fs_read fs2 q"
          using x q fs_write_Inr(1) [of ?m mj fs2 _ fs3 q] fs_write_Inl [of ?m mj fs2 _ fs3] by (cases x) auto
        with w2 r1 q x w ok Inr c assms show ?thesis by (simp add: put_shard_def write_into_def)
      qed
    qed
  qed
  show "fs_read fs' ?p = Some sh" if stored
  proof -
    from assms that c obtain v v' fs2 where "r = Inr v" and w: "fs_write ?p sh fs1 = (Inr v', fs2)" and f: "fs' = snd (fs_write ?m mj fs2)"
      by (cases r) (auto simp: put_shard_def write_into_def split: prod.splits sum.splits)
    obtain x fs3 where x: "fs_write ?m mj fs2 = (x, fs3)" by force
    have "fs_read fs3 ?p = fs_read fs2 ?p"
      using x ne fs_write_Inr(1) [of ?m mj fs2 _ fs3 ?p] fs_write_Inl [of ?m mj fs2 _ fs3] by (cases x) auto
    with fs_write_Inr(1) [OF w] f x show ?thesis by simp
  qed
qed

definition shard_file :: "multipart_env \<Rightarrow> string list \<Rightarrow> string \<Rightarrow> string \<Rightarrow> string \<Rightarrow> string \<Rightarrow> int \<Rightarrow> nat \<Rightarrow> path option" where
  "shard_file X disks bucket key upload_id data_dir n i = (if i \<ge> length disks then None
     else case upload_dir X (disks ! i) bucket key upload_id of Inl _ \<Rightarrow> None | Inr dir \<Rightarrow> Some (push (push dir data_dir) (part_name n)))"

definition in_place :: "multipart_env \<Rightarrow> string list \<Rightarrow> string \<Rightarrow> string \<Rightarrow> string \<Rightarrow> string \<Rightarrow> int \<Rightarrow> files \<Rightarrow> nat \<times> bytes \<times> bytes \<Rightarrow> bool" where
  "in_place X disks bucket key upload_id data_dir n fs w = (case shard_file X disks bucket key upload_id data_dir n (fst w) of
      None \<Rightarrow> False | Some p \<Rightarrow> fs_read fs p = Some (fst (snd w)))"

text \<open>Different disks have different directories for the upload.\<close>

definition separate :: "multipart_env \<Rightarrow> string list \<Rightarrow> string \<Rightarrow> string \<Rightarrow> string \<Rightarrow> bool" where
  "separate X disks bucket key upload_id \<longleftrightarrow> (\<forall>i < length disks. \<forall>j < length disks. \<forall>d.
     upload_dir X (disks ! i) bucket key upload_id = Inr d \<longrightarrow> upload_dir X (disks ! j) bucket key upload_id = Inr d \<longrightarrow> i = j)"

lemma put_shards_ConsD:
  assumes "put_shards X disks b k u dd pf ((di, sh, mj) # todo) c fs = (Inr m, fs')" "di < length disks"
  obtains dir stored fs1 where "upload_dir X (disks ! di) b k u = Inr dir" "put_shard (push dir dd) pf sh mj fs = (stored, fs1)"
    "put_shards X disks b k u dd pf todo (if stored then c + 1 else c) fs1 = (Inr m, fs')"
proof (cases "upload_dir X (disks ! di) b k u")
  case (Inr dir)
  obtain stored fs1 where "put_shard (push dir dd) pf sh mj fs = (stored, fs1)" by force
  with assms Inr that show ?thesis by simp
qed (use assms in simp)

lemma put_shards_frame:
  assumes "put_shards X disks b k u dd (part_name n) todo c fs = (Inr m, fs')" "separate X disks b k u"
    and "i \<notin> fst ` set todo" "shard_file X disks b k u dd n i = Some p"
  shows "fs_read fs' p = fs_read fs p"
  using assms(1,3)
proof (induction todo arbitrary: c fs)
  case (Cons w todo)
  obtain di sh mj where w: "w = (di, sh, mj)" by (cases w)
  show ?case
  proof (cases "di < length disks")
    case True
    from put_shards_ConsD [OF Cons.prems(1) [unfolded w] this]
    obtain dir stored fs1 where d: "upload_dir X (disks ! di) b k u = Inr dir"
      and ps: "put_shard (push dir dd) (part_name n) sh mj fs = (stored, fs1)"
      and rest: "put_shards X disks b k u dd (part_name n) todo (if stored then c + 1 else c) fs1 = (Inr m, fs')" .
    obtain dir' where d': "upload_dir X (disks ! i) b k u = Inr dir'" "p = push (push dir' dd) (part_name n)" "i < length disks"
      using assms(4) by (auto simp: shard_file_def split: if_splits sum.splits)
    have "dir' \<noteq> dir" using assms(2) d d' True Cons.prems(2) w by (auto simp: separate_def)
    then have "p \<notin> {push (push dir dd) (part_name n), push (push dir dd) (part_name n @ ''.meta'')}"
      unfolding d'(2) by (auto simp: push_def part_name_shape)
    from put_shard_reads(1) [OF ps this] Cons.IH [OF rest] Cons.prems(2) show ?thesis by simp
  qed (use Cons w in auto)
qed simp

lemma put_shards_count:
  assumes "put_shards X disks b k u dd (part_name n) todo c fs = (Inr m, fs')" "separate X disks b k u" "distinct (map fst todo)"
  shows "m \<le> c + length (filter (in_place X disks b k u dd n fs') todo)"
  using assms(1,3)
proof (induction todo arbitrary: c fs)
  case (Cons w todo)
  obtain di sh mj where w: "w = (di, sh, mj)" by (cases w)
  show ?case
  proof (cases "di < length disks")
    case True
    from put_shards_ConsD [OF Cons.prems(1) [unfolded w] this]
    obtain dir stored fs1 where d: "upload_dir X (disks ! di) b k u = Inr dir"
      and ps: "put_shard (push dir dd) (part_name n) sh mj fs = (stored, fs1)"
      and rest: "put_shards X disks b k u dd (part_name n) todo (if stored then c + 1 else c) fs1 = (Inr m, fs')" .
    have sf: "shard_file X disks b k u dd n di = Some (push (push dir dd) (part_name n))" using d True by (simp add: shard_file_def)
    have "in_place X disks b k u dd n fs' w" if stored
    proof -
      have "fs_read fs' (push (push dir dd) (part_name n)) = fs_read fs1 (push (push dir dd) (part_name n))"
        by (rule put_shards_frame [OF rest assms(2) _ sf]) (use Cons.prems(2) w in force)
      with put_shard_reads(2) [OF ps that] sf w show ?thesis by (simp add: in_place_def)
    qed
    with Cons.IH [OF rest] Cons.prems(2) show ?thesis by (auto split: if_splits)
  next
    case False
    with Cons.prems(1) w have "put_shards X disks b k u dd (part_name n) todo c fs = (Inr m, fs')" by simp
    from Cons.IH [OF this] Cons.prems(2) show ?thesis by auto
  qed
qed simp

lemma part_work_distinct:
  assumes "length shards \<le> dn + pn"
  shows "distinct (map fst (part_work X dn pn b k n data shards))"
proof -
  let ?d = "hash_order (mx_sha256 X) (b @ ''/'' @ k @ ''/'' @ drop 5 (part_name n)) (dn + pn)"
  have m: "mset ?d = mset [0..<dn + pn]" by (rule hash_order_perm)
  then have "distinct ?d" "length ?d = dn + pn"
    using mset_eq_imp_distinct_iff [OF m] mset_eq_length [OF m] by simp_all
  moreover have "map fst (part_work X dn pn b k n data shards) = take (length shards) ?d"
    using assms calculation(2) by (simp add: part_work_def Let_def comp_def) (rule nth_equalityI, simp_all)
  ultimately show ?thesis by (simp add: distinct_take)
qed

text \<open>
  C11: A part that is acknowledged is stored: when the disks have separate directories and
  \<open>put_part\<close> succeeds, at least a write quorum of the shards of the part are each in the file
  of their own disk, complete, after the call.
\<close>

theorem acknowledged_part_is_stored:
  assumes put: "put_part X disks dn pn b k u n data fs = (Inr pm, fs')" and sep: "separate X disks b k u"
    and up: "read_upload X disks fs b k u = Inr upload" and enc: "encode_part X dn pn data = Inr shards" and len: "length shards \<le> dn + pn"
  shows "write_quorum dn pn \<le> length (filter (in_place X disks b k u (um_data_dir upload) n fs') (part_work X dn pn b k n data shards))"
proof -
  from put up enc obtain m where "put_shards X disks b k u (um_data_dir upload) (part_name n) (part_work X dn pn b k n data shards) 0 fs = (Inr m, fs')"
    and "write_quorum dn pn \<le> m"
    by (auto simp: put_part_def then_do_Inr_iff split: if_splits)
  with put_shards_count [OF this(1) sep part_work_distinct [OF len]] show ?thesis by simp
qed


section \<open>Examples\<close>

definition demo_upload :: upload_meta where
  "demo_upload = \<lparr> um_upload_id = ''u'', um_bucket = ''bk'', um_key = ''k'', um_content_type = [], um_user_metadata = Map.empty,
     um_created_at = 0, um_data_dir = ''d'' \<rparr>"

definition demo_mx :: multipart_env where
  "demo_mx = \<lparr> mx_libs = \<lparr> l_md5_hex = (\<lambda>_. []), l_blake3_hex = (\<lambda>_. []), l_sha256_hex = (\<lambda>_. []), l_xxh64 = (\<lambda>_. 0),
       l_reed_solomon = (\<lambda>_ _. None), l_placement_hash = (\<lambda>_. []) \<rparr>,
     mx_sha256 = (\<lambda>_. [0, 0]),
     mx_env = \<lparr> e_xxh64 = (\<lambda>_. 0), e_meta_enc = (\<lambda>_. []), e_meta_dec = (\<lambda>_. None), e_json_enc = (\<lambda>_. []), e_json_dec = (\<lambda>_. None),
       e_settings_enc = (\<lambda>_. []), e_settings_dec = (\<lambda>_. None), e_b64_enc = (\<lambda>_. []), e_b64_dec = (\<lambda>_. None), e_is_uuid = (\<lambda>s. s = ''u'') \<rparr>,
     mx_upload_enc = (\<lambda>_. [7]), mx_upload_dec = (\<lambda>bs. if bs = [7] then Some demo_upload else None),
     mx_part_enc = (\<lambda>_. [8]), mx_part_dec = (\<lambda>_. None), mx_uuid = (\<lambda>_. ''u''), mx_now = 0 \<rparr>"

definition demo_dir :: "path \<Rightarrow> path" where
  "demo_dir root = root @ map NormalComp [''.abixio.sys'', ''multipart'', ''bk'', ''k'', ''u'']"

lemma demo_check: "check_names demo_mx ''bk'' ''k'' ''u'' = Inr ()"
  using sample_names by (simp add: check_names_def validate_upload_id_def demo_mx_def)

lemma demo_upload_dir:
  "upload_dir demo_mx ''local:/a'' ''bk'' ''k'' ''u'' = Inr (demo_dir [RootDir, NormalComp ''a''])"
  "upload_dir demo_mx ''local:/b'' ''bk'' ''k'' ''u'' = Inr (demo_dir [RootDir, NormalComp ''b''])"
  "upload_dir demo_mx ''b:/d'' ''bk'' ''k'' ''u'' = Inr (demo_dir [])"
  "upload_dir demo_mx ''c:/d'' ''bk'' ''k'' ''u'' = Inr (demo_dir [])"
proof -
  have j: "safe_join root [''.abixio.sys'', ''multipart'', ''bk'', ''k'', ''u''] = Inr (demo_dir (normalize_path root))" for root
    unfolding demo_dir_def by (rule safe_join_plain) (simp add: plain_def)
  have r: "normalize_path (disk_root ''local:/a'') = [RootDir, NormalComp ''a'']" "normalize_path (disk_root ''local:/b'') = [RootDir, NormalComp ''b'']"
    "normalize_path (disk_root ''b:/d'') = []" "normalize_path (disk_root ''c:/d'') = []"
    by (simp_all add: disk_root_def strip_prefix_def path_of_def comp_of_def normalize_path_def norm_step_def)
  show "upload_dir demo_mx ''local:/a'' ''bk'' ''k'' ''u'' = Inr (demo_dir [RootDir, NormalComp ''a''])"
    "upload_dir demo_mx ''local:/b'' ''bk'' ''k'' ''u'' = Inr (demo_dir [RootDir, NormalComp ''b''])"
    "upload_dir demo_mx ''b:/d'' ''bk'' ''k'' ''u'' = Inr (demo_dir [])" "upload_dir demo_mx ''c:/d'' ''bk'' ''k'' ''u'' = Inr (demo_dir [])"
    using sample_names by (simp_all add: upload_dir_def multipart_upload_dir_def validate_upload_id_def demo_mx_def j r)
qed

text \<open>A machine on which the upload was started in the given directories.\<close>

definition demo_files :: "path list \<Rightarrow> files" where
  "demo_files dirs = map (\<lambda>d. (push d ''upload.json'', Some [7])) dirs @ map (\<lambda>d. (d, None)) dirs"


lemma demo_part_name: "part_name 1 = ''part.1''"
  by code_simp

lemma demo_order: "hash_order (\<lambda>_. [0, 0]) s 2 = [1, 0]"
proof -
  have "hash_order (\<lambda>_. [0, 0]) [] 2 = [1, 0]" by code_simp
  then show ?thesis by (simp add: hash_order_def)
qed

lemma demo_encode: "encode_part demo_mx 2 0 [1, 2] = Inr [[1], [2]]"
  by (simp add: encode_part_def split_data_pieces shard_size_def div_ceil_def piece_def resize_def upt_rec)

lemma demo_work: "part_work demo_mx 2 0 ''bk'' ''k'' 1 [1, 2] [[1], [2]] = [(1, [1], [8]), (0, [2], [8])]"
  by (simp add: part_work_def Let_def demo_order demo_mx_def upt_rec numeral_2_eq_2 [symmetric])

text \<open>A directory that exists, with all above it, takes a shard.\<close>

lemma put_shard_ok:
  assumes "\<not> list_ex (is_file fs) (prefixes_of dp)" "dp \<noteq> []" "map_of fs (push dp (part_name n)) \<noteq> Some None"
  shows "fst (put_shard dp (part_name n) sh mj fs)"
proof -
  obtain fs1 where c: "create_dir_all dp fs = (Inr (), fs1)" using assms(1) by (simp add: create_dir_all_def)
  note c' = create_dir_all_Inr(2) [OF c]
  have pre: "dp \<in> set (prefixes_of dp)" "push dp (part_name n) \<notin> set (prefixes_of dp)" "butlast (push dp (part_name n)) = dp"
    using assms(2) by (auto simp: set_prefixes_of push_def part_name_shape intro!: exI [of _ "length dp"] Suc_leI dest: arg_cong [of _ _ length])
  then have "\<not> is_dir fs1 (push dp (part_name n))" "is_dir fs1 (butlast (push dp (part_name n)))"
    using c' assms(3) by (auto simp: is_dir_def)
  then obtain fs2 where "fs_write (push dp (part_name n)) sh fs1 = (Inr (), fs2)" using fs_write_ok by blast
  with c show ?thesis by (simp add: put_shard_def write_into_def)
qed

lemma put_shard_dirs:
  assumes "put_shard dp pf sh mj fs = (stored, fs')" "is_dir fs' q"
  shows "is_dir fs q \<or> q \<in> set (prefixes_of dp)"
proof -
  have w: "is_dir (snd (fs_write p bs f)) q = is_dir f q" for p bs f
    by (cases "fs_write p bs f"; cases "fst (fs_write p bs f)") (auto dest: fs_write_Inl simp: fs_write_Inr(2))
  have c: "is_dir (snd (create_dir_all dp fs)) q \<Longrightarrow> is_dir fs q \<or> q \<in> set (prefixes_of dp)"
    by (cases "create_dir_all dp fs"; cases "fst (create_dir_all dp fs)") (auto dest: create_dir_all_Inl simp: create_dir_all_Inr(2))
  obtain r fs1 where cr: "create_dir_all dp fs = (r, fs1)" by force
  obtain r2 fs2 where wr: "fs_write (push dp pf) sh fs1 = (r2, fs2)" by force
  have "is_dir fs1 q"
    using assms cr wr w [of "push dp (pf @ ''.meta'')" mj fs2] w [of "push dp pf" sh fs1]
    by (cases r; cases r2) (auto simp: put_shard_def write_into_def)
  with c cr show ?thesis by simp
qed

text \<open>The example machine takes both shards: no file is in the way of a directory, no directory in the way of a file.\<close>

definition clear_for :: "files \<Rightarrow> path \<Rightarrow> bool" where
  "clear_for fs dp \<longleftrightarrow> \<not> list_ex (is_file fs) (prefixes_of dp) \<and> \<not> is_dir fs (push dp (part_name 1))"

lemma clear_for_next:
  assumes "clear_for fs dp" "put_shard dp' (part_name 1) sh mj fs = (stored, fs')"
    and "NormalComp (part_name 1) \<notin> set dp \<union> set dp'" "NormalComp (part_name 1 @ ''.meta'') \<notin> set dp"
  shows "clear_for fs' dp"
proof -
  have sub: "set q \<subseteq> set d" if "q \<in> set (prefixes_of d)" for q d :: path
    using that by (auto simp: set_prefixes_of dest: in_set_takeD)
  have "fs_read fs' q = fs_read fs q" if "q \<in> set (prefixes_of dp)" for q
    by (rule put_shard_reads(1) [OF assms(2)]) (use sub [OF that] assms(3,4) in \<open>auto simp: push_def part_name_shape\<close>)
  moreover have "\<not> is_dir fs' (push dp (part_name 1))"
    using put_shard_dirs [OF assms(2), of "push dp (part_name 1)"] sub [of "push dp (part_name 1)" dp'] assms(1,3)
    by (auto simp: clear_for_def push_def part_name_shape)
  ultimately show ?thesis using assms(1) by (simp add: clear_for_def list_ex_iff is_file_def)
qed

lemma demo_put_part:
  assumes u: "upload_dir demo_mx d0 ''bk'' ''k'' ''u'' = Inr (demo_dir r0)" "upload_dir demo_mx d1 ''bk'' ''k'' ''u'' = Inr (demo_dir r1)"
    and roots: "set r0 \<union> set r1 \<subseteq> {RootDir, NormalComp ''a'', NormalComp ''b''}"
  shows "\<exists>pm fs'. put_part demo_mx [d0, d1] 2 0 ''bk'' ''k'' ''u'' 1 [1, 2] (demo_files [demo_dir r0, demo_dir r1]) = (Inr pm, fs')"
    and "read_upload demo_mx [d0, d1] (demo_files [demo_dir r0, demo_dir r1]) ''bk'' ''k'' ''u'' = Inr demo_upload"
proof -
  let ?fs = "demo_files [demo_dir r0, demo_dir r1]"
  have dec: "mx_upload_dec demo_mx [7] = Some demo_upload" by (simp add: demo_mx_def)
  have rd: "fs_read ?fs (push (demo_dir r0) ''upload.json'') = Some [7]" by (simp add: demo_files_def fs_read_def)
  show ru: "read_upload demo_mx [d0, d1] ?fs ''bk'' ''k'' ''u'' = Inr demo_upload"
    by (simp add: read_upload_def demo_check u rd dec)
  have names: "set (push (demo_dir r) ''d'') \<subseteq> {RootDir, NormalComp ''a'', NormalComp ''b''} \<union> NormalComp ` {''.abixio.sys'', ''multipart'', ''bk'', ''k'', ''u'', ''d''}"
    if "set r \<subseteq> {RootDir, NormalComp ''a'', NormalComp ''b''}" for r
    using that by (auto simp: demo_dir_def push_def comp_of_def)
  have clear: "clear_for ?fs (push (demo_dir r) ''d'')" if "set r \<subseteq> {RootDir, NormalComp ''a'', NormalComp ''b''}" for r
  proof -
    have "\<not> is_file ?fs q" if "q \<in> set (prefixes_of (push (demo_dir r) ''d''))" for q
    proof -
      have "NormalComp ''upload.json'' \<notin> set q"
        using that names [OF \<open>set r \<subseteq> _\<close>] by (auto simp: set_prefixes_of dest!: in_set_takeD)
      then show ?thesis by (auto simp: is_file_def fs_read_def demo_files_def push_def comp_of_def split: if_splits)
    qed
    moreover have "demo_dir r @ [NormalComp ''d'', NormalComp ''part.1''] \<noteq> demo_dir r0" "demo_dir r @ [NormalComp ''d'', NormalComp ''part.1''] \<noteq> demo_dir r1"
      by (simp_all add: demo_dir_def)
    then have "\<not> is_dir ?fs (push (push (demo_dir r) ''d'') (part_name 1))"
      by (auto simp: is_dir_def demo_files_def push_def demo_part_name comp_of_def)
    ultimately show ?thesis by (auto simp: clear_for_def list_ex_iff)
  qed
  have ok: "fst (put_shard (push (demo_dir r) ''d'') (part_name 1) sh mj fs)" if "clear_for fs (push (demo_dir r) ''d'')" for fs r sh mj
    by (rule put_shard_ok) (use that in \<open>auto simp: clear_for_def is_dir_def demo_dir_def push_def\<close>)
  have r: "set r0 \<subseteq> {RootDir, NormalComp ''a'', NormalComp ''b''}" "set r1 \<subseteq> {RootDir, NormalComp ''a'', NormalComp ''b''}" using roots by auto
  obtain fs1 where p1: "put_shard (push (demo_dir r1) ''d'') (part_name 1) [1] [8] ?fs = (True, fs1)"
    using ok [OF clear [OF r(2)], of "[1]" "[8]"] by (cases "put_shard (push (demo_dir r1) ''d'') (part_name 1) [1] [8] ?fs") simp
  have "clear_for fs1 (push (demo_dir r0) ''d'')"
    by (rule clear_for_next [OF clear [OF r(1)] p1]) (use names [OF r(1)] names [OF r(2)] in \<open>auto simp: demo_part_name\<close>)
  then obtain fs2 where p2: "put_shard (push (demo_dir r0) ''d'') (part_name 1) [2] [8] fs1 = (True, fs2)"
    using ok [of fs1 r0 "[2]" "[8]"] by (cases "put_shard (push (demo_dir r0) ''d'') (part_name 1) [2] [8] fs1") simp
  have dd: "um_data_dir demo_upload = ''d''" by (simp add: demo_upload_def)
  show "\<exists>pm fs'. put_part demo_mx [d0, d1] 2 0 ''bk'' ''k'' ''u'' 1 [1, 2] ?fs = (Inr pm, fs')"
    by (simp add: put_part_def demo_check ru demo_encode demo_work dd u p1 p2 write_quorum_def)
qed

theorem acknowledged_part_is_stored_witness:
  "\<exists>fs'. length (filter (in_place demo_mx [''local:/a'', ''local:/b''] ''bk'' ''k'' ''u'' ''d'' 1 fs') [(1, [1], [8]), (0, [2], [8])]) = 2"
proof -
  let ?disks = "[''local:/a'', ''local:/b'']" and ?fs = "demo_files [demo_dir [RootDir, NormalComp ''a''], demo_dir [RootDir, NormalComp ''b'']]"
  note p = demo_put_part [OF demo_upload_dir(1,2)]
  obtain pm fs' where put: "put_part demo_mx ?disks 2 0 ''bk'' ''k'' ''u'' 1 [1, 2] ?fs = (Inr pm, fs')" using p(1) by auto
  have ru: "read_upload demo_mx ?disks ?fs ''bk'' ''k'' ''u'' = Inr demo_upload" using p(2) by auto
  have sep: "separate demo_mx ?disks ''bk'' ''k'' ''u''"
    by (auto simp: separate_def demo_upload_dir demo_dir_def less_Suc_eq numeral_2_eq_2)
  have "2 \<le> length (filter (in_place demo_mx ?disks ''bk'' ''k'' ''u'' ''d'' 1 fs') [(1, [1], [8]), (0, [2], [8])])"
    using acknowledged_part_is_stored [OF put sep ru demo_encode] by (simp add: demo_work write_quorum_def demo_upload_def)
  moreover have "length (filter P [(1, [1], [8]), (0, [2], [8])]) \<le> 2" for P :: "nat \<times> bytes \<times> bytes \<Rightarrow> bool"
    using length_filter_le [of P "[(1, [1], [8]), (0, [2], [8])]"] by simp
  ultimately show ?thesis using le_antisym by blast
qed


end
