(* ===== verification/Spec2Isabelle.thy ===== *)
theory Spec2Isabelle
  imports Policy Topology Raft_Adapter Durability Volume_Ops Object_Roundtrip Heal_Proofs Pool_Proofs Cluster Identity Remote_Proofs Lifecycle Multipart
begin

text \<open>
  A verification of abixio, an object store that keeps its objects erasure coded on the disks of
  one or several nodes.  File names below are relative to the source directory of the crate.

  \<^bold>\<open>The program.\<close>  A request of a client passes the access check (\<open>s3_access.rs\<close>, \<open>policy\<close>) and
  reaches the pool (\<open>storage/volume_pool.rs\<close>), which answers from its caches or plans the disks of
  the object (\<open>cluster/placement.rs\<close>), splits and encodes it and writes one shard to every disk
  (\<open>storage/erasure_encode.rs\<close>).  A disk is a local volume (\<open>storage/local_volume.rs\<close>: files, and a
  write-ahead log of needles in segments that a worker turns into files) or the volume of another
  node behind its storage server (\<open>storage/remote_volume.rs\<close>, \<open>storage_server.rs\<close>).  Writes that
  missed a disk are queued for repair (\<open>heal\<close>); lifecycle rules remove what has expired
  (\<open>lifecycle\<close>); large objects arrive in parts (\<open>multipart\<close>).  Nodes find out who they are from
  their disks and from each other (\<open>storage/volume.rs\<close>, \<open>cluster/identity.rs\<close>), watch their peers
  and stop serving without a majority (\<open>cluster/mod.rs\<close>), and replicate the settings of buckets
  and the placement through Raft (\<open>raft\<close>).

  \<^bold>\<open>How it is modelled.\<close>  Structures are records, enumerations datatypes, \<open>u64\<close> to \<open>u8\<close> words,
  \<open>usize\<close> a natural number, a \<open>String\<close> a \<open>string\<close>.  \<open>Result\<close> is a sum with the error on the left,
  chained by \<open>res_bind\<close>; an operation that changes state returns its result and the new state,
  chained by \<open>then_do\<close>, and what it changed before an error stays changed.  The files of a machine
  are a list of paths with the bytes of a file or the mark of a directory.  Loops are recursive
  functions; background tasks are steps of a state machine (\<open>vol_reach\<close>, \<open>mrf_run\<close>,
  \<open>cluster_reach\<close>), so that every interleaving of them with requests is covered.  Libraries are
  fields of environment records: hashes, the Reed-Solomon codec, JSON and MessagePack, token
  signing, the LRU and the concurrent map, HTTP, clocks and random ids.  Where a theorem needs a
  law of such a library it is a hypothesis (\<open>rs_ok\<close>, \<open>lru_ok\<close>, \<open>dash_ok\<close>, \<open>jwt_ok\<close>, \<open>rpc_ok\<close>,
  \<open>codec_sound\<close>), and the witness of the theorem instantiates it; \<open>Byte_Codec\<close> builds serializers
  for that purpose.

  \<^bold>\<open>Shared theories.\<close>  \<open>Prelude\<close> has words, bytes, results, texts and ordered maps; \<open>Metadata\<close> the
  records of \<open>storage/metadata.rs\<close>; \<open>Pathing\<close> the checks of names and the paths built from them,
  with the theorems that the shard of an accepted object lies below the root and that different
  objects have different shards; \<open>File_Tier\<close> the file operations the storage code uses and the
  error type of \<open>storage/mod.rs\<close>.

  \<^bold>\<open>Access.\<close>  \<open>Glob\<close> proves the iterative matcher of \<open>policy/glob.rs\<close> against the meaning of a
  pattern on texts without a star, \<open>Policy\<close> decides when \<open>AbixioAccess::check\<close> lets a request
  pass and shows that a key that starts with a star evades a deny.

  \<^bold>\<open>One disk.\<close>  \<open>Needle\<close>, \<open>Segment\<close> and \<open>Wal\<close> model the log byte for byte; \<open>Wal_Inv\<close> has its
  invariant.  \<open>Local_Volume\<close> has every operation of the volume.  \<open>Durability\<close> proves that
  acknowledged objects survive any sequence of writes, worker turns, lost requests, stops and
  restarts while no key is written twice, and shows what goes wrong otherwise.  \<open>Volume_Ops\<close> treats
  writing in chunks, listing and settings.

  \<^bold>\<open>Objects over disks.\<close>  \<open>Placement\<close> and \<open>Topology\<close> model the planner: even, on different
  volumes, on different nodes where there are enough.  \<open>Backend\<close> is the interface of a disk as a
  record of functions.  \<open>Erasure\<close>, \<open>Erasure_Io\<close> and \<open>Erasure_Code\<close> split, encode, write and decode;
  \<open>Erasure_Store\<close> states the contract a disk must meet as the locale \<open>shard_backend\<close> and proves
  the pipeline over it, \<open>Object_Roundtrip\<close> interprets the locale on local volumes: an acknowledged
  write is on a quorum of disks and is read back after the loss of as many disks as there are
  parity shards.  \<open>Heal\<close> and \<open>Heal_Proofs\<close> model repair over the locale \<open>repair_backend\<close>, again
  interpreted on local volumes: repair restores all shards, and every queued object gets its turn.

  \<^bold>\<open>The pool.\<close>  \<open>Caches\<close> proves that the caches stay inside their budgets, never return stale
  entries and never lose an accepted one.  \<open>Volume_Pool\<close> has all operations of the store;
  \<open>Pool_Proofs\<close> shows that a small object in the write cache is read back, that its stream carries
  padding and that it hides later overwrites.  \<open>Lifecycle\<close> models the evaluator and a pass of the
  engine: the earliest event of the rules decides, and nothing goes before its time.  \<open>Multipart\<close>
  has the operations on uploads: acknowledged parts are stored, aborting removes the upload and
  nothing else, and disks of other nodes share one directory by mistake.

  \<^bold>\<open>Between nodes.\<close>  \<open>Internode_Auth\<close> has the tokens and the clock check.  \<open>Remote\<close> models all
  routes of the storage server, the client that implements the disk interface with them, and the
  exchange of cache entries; \<open>Remote_Proofs\<close> shows that the remote volume refines the volume it
  stands for, up to the errors the protocol can carry, which requests are accepted, and that
  metadata outside of ASCII cannot be read.  \<open>Identity\<close> models the volume files and the boot
  sequence: members are the same on all nodes and survive a restart, but after a restart only one
  of the other nodes is asked for its volumes.  \<open>Cluster\<close> models the manager: a node serves only
  with a majority by its own count, which however does not depend on the answers of its peers.

  \<^bold>\<open>Control plane.\<close>  \<open>Raft_Fsm\<close> is the replicated state machine, \<open>Raft_Log\<close> the log file, proved to
  refine a list of entries through the locale \<open>raft_log\<close>, \<open>Raft_Store\<close> snapshots and votes,
  \<open>Raft_Adapter\<close> their use by the Raft library: a snapshot and the rest of the log give the state
  of the whole log.

  \<^bold>\<open>Bounds.\<close>  The wait for peers at the first boot may last for ever; \<open>exchange_loop\<close> takes a number
  of rounds and returns \<open>None\<close> when they are used up, and the theorems speak of boots that end.
  The loops over directories are bounded by the depth of the tree.  All other recursions have a
  measure in the data.

  \<^bold>\<open>Not modelled.\<close>  The start of the process and its options (\<open>main.rs\<close>, \<open>config.rs\<close>), the
  translation between the S3 library and the store (\<open>s3_service.rs\<close>, \<open>s3_route.rs\<close>,
  \<open>s3_auth.rs\<close>), the pages for administrators (\<open>admin\<close>), metrics and timing: they convert types of
  libraries or report state.  The consensus algorithm itself is a library; its network
  (\<open>raft/adapter/network.rs\<close>) and start (\<open>raft/runtime.rs\<close>) only connect it.  Within the modelled
  parts free space, log messages, buffer pools, timers and the failure to build an HTTP client are
  left out, concurrent requests take effect one after the other, and the contents of messages that
  libraries produce for errors are shortened.
\<close>

end
